(* ===== verification/Prelude.thy ===== *)
theory Prelude
  imports Main "HOL-Library.Word" "HOL-Library.Sublist" "HOL-Library.Multiset"
begin

text \<open>
  What the components share: the error values that stand for the exceptions of the
  code, the operations of \<open>std::string\<close>, \<open>std::to_string\<close>, the C number parsers and
  \<open>std::getline\<close> that the code uses, the bytes behind a \<open>char\<close>, and the generic
  lemmas on them. A \<open>std::string\<close> is a list of \<open>char\<close>, each of which is one byte.
\<close>

section \<open>Collections\<close>

text \<open>
  \<open>guard_simps\<close> collects the unfoldings of the small guards of the code, \<open>str_simps\<close>
  the facts on strings and searches, \<open>inv_intros\<close> the preservation of invariants.
\<close>

named_theorems guard_simps "unfoldings of assertions and error plumbing"
named_theorems str_simps "facts about the string operations of the code"
named_theorems inv_intros "introduction rules for preserved invariants"

section \<open>Exceptions\<close>

text \<open>
  \<open>Logic_error\<close> is what \<open>SRV_ASSERT\<close> and \<open>SRV_ERROR\<close> throw
  (include/server_lib/asserts.h), \<open>Failure\<close> stands for the exceptions of the standard
  library, and \<open>Undefined\<close> marks an operation whose behaviour C++ leaves undefined.
\<close>

datatype srv_error =
    Logic_error string
  | Failure string
  | Undefined string

type_synonym 'a result = "srv_error + 'a"

definition srv_assert :: "bool \<Rightarrow> string \<Rightarrow> 'a result \<Rightarrow> 'a result" where
  "srv_assert b msg k = (if b then k else Inl (Logic_error msg))"

definition rbind :: "'a result \<Rightarrow> ('a \<Rightarrow> 'b result) \<Rightarrow> 'b result" where
  "rbind r f = (case r of Inl e \<Rightarrow> Inl e | Inr x \<Rightarrow> f x)"

lemma srv_assert_simps [simp, guard_simps]:
  "srv_assert True msg k = k"
  "srv_assert False msg k = Inl (Logic_error msg)"
  by (simp_all add: srv_assert_def)

lemma srv_assert_Inr [simp]: "srv_assert b msg k = Inr x \<longleftrightarrow> b \<and> k = Inr x"
  by (simp add: srv_assert_def)

lemma rbind_simps [simp, guard_simps]:
  "rbind (Inl e) f = Inl e"
  "rbind (Inr x) f = f x"
  by (simp_all add: rbind_def)

lemma rbind_Inr [simp]: "rbind r f = Inr y \<longleftrightarrow> (\<exists>x. r = Inr x \<and> f x = Inr y)"
  by (cases r) auto

section \<open>Bytes\<close>

text \<open>The 8-bit value of a \<open>char\<close> (\<open>static_cast<uint8_t>\<close>) and back.\<close>

definition byte_of :: "char \<Rightarrow> 8 word" where
  "byte_of c = word_of_nat (of_char c)"

definition char_of_byte :: "8 word \<Rightarrow> char" where
  "char_of_byte w = char_of (unat w)"

lemma of_char_less_256 [simp]: "(of_char c :: nat) < 256"
  by (cases c) (simp add: of_char_def)

lemma char_of_byte_of [simp]: "char_of_byte (byte_of c) = c"
  by (simp add: char_of_byte_def byte_of_def unat_of_nat take_bit_nat_eq_self)

lemma byte_of_char_of [simp]: "byte_of (char_of_byte w) = w"
proof -
  have "unat w < 256" using unsigned_less [of w, where ?'a = nat] by simp
  then show ?thesis by (simp add: char_of_byte_def byte_of_def)
qed

section \<open>Searching strings\<close>

text \<open>\<open>std::string::find\<close> of a character and of a string, from the start; \<open>None\<close> is \<open>npos\<close>.\<close>

fun find_char :: "char \<Rightarrow> string \<Rightarrow> nat option" where
  "find_char c [] = None"
| "find_char c (x # xs) = (if x = c then Some 0 else map_option Suc (find_char c xs))"

fun find_sub :: "string \<Rightarrow> string \<Rightarrow> nat option" where
  "find_sub p [] = (if p = [] then Some 0 else None)"
| "find_sub p (x # xs) =
     (if take (length p) (x # xs) = p then Some 0 else map_option Suc (find_sub p xs))"

text \<open>\<open>find\<close> with a start position.\<close>

definition find_char_from :: "char \<Rightarrow> nat \<Rightarrow> string \<Rightarrow> nat option" where
  "find_char_from c n s = map_option (\<lambda>i. n + i) (find_char c (drop n s))"

text \<open>\<open>s.substr(pos, len)\<close> for \<open>pos <= s.size()\<close>; the length is cut to what is left.\<close>

definition substr :: "string \<Rightarrow> nat \<Rightarrow> nat \<Rightarrow> string" where
  "substr s pos len = take len (drop pos s)"

lemma find_char_None [str_simps]: "find_char c s = None \<longleftrightarrow> c \<notin> set s"
  by (induction s) auto

lemma find_char_append [str_simps]:
  "c \<notin> set xs \<Longrightarrow> find_char c (xs @ c # ys) = Some (length xs)"
  by (induction xs) auto

lemma find_char_Some:
  "find_char c s = Some i \<Longrightarrow> i < length s \<and> s ! i = c \<and> c \<notin> set (take i s)"
  by (induction s arbitrary: i) (auto split: if_splits)

lemma find_sub_Some_len:
  "find_sub p s = Some i \<Longrightarrow> i + length p \<le> length s"
proof (induction s arbitrary: i)
  case Nil
  then show ?case by (auto split: if_splits)
next
  case (Cons x xs)
  show ?case
  proof (cases "take (length p) (x # xs) = p")
    case True
    then have "length p \<le> length (x # xs)"
      by (metis length_take min.cobounded1)
    with True Cons.prems show ?thesis by simp
  next
    case False
    with Cons.prems obtain j where "find_sub p xs = Some j" and "i = Suc j" by auto
    with Cons.IH show ?thesis by fastforce
  qed
qed

lemma find_sub_Some_split:
  "find_sub p s = Some i \<Longrightarrow> s = take i s @ p @ drop (i + length p) s"
proof (induction s arbitrary: i)
  case Nil
  then show ?case by (auto split: if_splits)
next
  case (Cons x xs)
  show ?case
  proof (cases "take (length p) (x # xs) = p")
    case True
    with Cons.prems have "i = 0" by simp
    with True show ?thesis by (metis append_take_drop_id append_Nil take_0 add_0)
  next
    case False
    with Cons.prems obtain j where "find_sub p xs = Some j" and "i = Suc j" by auto
    with Cons.IH show ?thesis by fastforce
  qed
qed

lemma find_sub_append:
  "find_sub p s = Some i \<Longrightarrow> find_sub p (s @ ext) = Some i"
proof (induction s arbitrary: i)
  case Nil
  then show ?case by (cases ext) (auto split: if_splits)
next
  case (Cons x xs)
  show ?case
  proof (cases "take (length p) (x # xs) = p")
    case True
    then have "length p \<le> length (x # xs)"
      by (metis length_take min.cobounded1)
    then have "take (length p) ((x # xs) @ ext) = take (length p) (x # xs)"
      by (simp only: take_append) simp
    with True Cons.prems show ?thesis by simp
  next
    case False
    with Cons.prems obtain j where j: "find_sub p xs = Some j" and i: "i = Suc j" by auto
    have "length p \<le> length (x # xs)"
      using find_sub_Some_len [OF j] by simp
    then have "take (length p) ((x # xs) @ ext) = take (length p) (x # xs)"
      by (simp only: take_append) simp
    with False Cons.IH [OF j] i show ?thesis by simp
  qed
qed

lemma take_drop_cancel [simp]: "drop (length xs) (xs @ ys) = ys" "take (length xs) (xs @ ys) = xs"
  by simp_all

section \<open>Characters\<close>

definition is_space :: "char \<Rightarrow> bool" where
  "is_space c = (let n = of_char c :: nat in n = 32 \<or> 9 \<le> n \<and> n \<le> 13)"

definition is_digit :: "char \<Rightarrow> bool" where
  "is_digit c = (let n = of_char c :: nat in 48 \<le> n \<and> n \<le> 57)"

text \<open>\<open>tolower\<close> in the C locale.\<close>

definition tolower :: "char \<Rightarrow> char" where
  "tolower c = (let n = of_char c :: nat in if 65 \<le> n \<and> n \<le> 90 then char_of (n + 32) else c)"

section \<open>Numbers in text\<close>

text \<open>\<open>std::to_string\<close> of an unsigned value, and \<open>operator<<\<close> for one.\<close>

definition digit_char :: "nat \<Rightarrow> char" where
  "digit_char d = char_of (48 + d)"

fun to_dec :: "nat \<Rightarrow> string" where
  "to_dec n = (if n < 10 then [digit_char n] else to_dec (n div 10) @ [digit_char (n mod 10)])"

declare to_dec.simps [simp del]

text \<open>The value of a digit in base 10 or 16.\<close>

definition digit_val :: "nat \<Rightarrow> char \<Rightarrow> nat option" where
  "digit_val b c =
     (let n = of_char c :: nat;
          v = (if 48 \<le> n \<and> n \<le> 57 then n - 48
               else if 97 \<le> n \<and> n \<le> 102 then n - 87
               else if 65 \<le> n \<and> n \<le> 70 then n - 55
               else b)
      in if v < b then Some v else None)"

fun digits_prefix :: "nat \<Rightarrow> string \<Rightarrow> nat list" where
  "digits_prefix b [] = []"
| "digits_prefix b (c # cs) =
     (case digit_val b c of None \<Rightarrow> [] | Some d \<Rightarrow> d # digits_prefix b cs)"

definition nat_of_digits :: "nat \<Rightarrow> nat list \<Rightarrow> nat" where
  "nat_of_digits b ds = foldl (\<lambda>a d. a * b + d) 0 ds"

text \<open>
  The scan of \<open>strtol\<close>, \<open>strtoul\<close> and \<open>strtoull\<close>: white space, a sign, the
  prefix \<open>0x\<close> in base 16, digits. \<open>None\<close> is no conversion; otherwise the sign and
  the magnitude.
\<close>

definition split_sign :: "string \<Rightarrow> bool \<times> string" where
  "split_sign s =
     (case s of
        [] \<Rightarrow> (False, [])
      | c # r \<Rightarrow> if c = CHR ''-'' then (True, r) else if c = CHR ''+'' then (False, r) else (False, s))"

definition split_hex_prefix :: "nat \<Rightarrow> string \<Rightarrow> bool \<times> string" where
  "split_hex_prefix b s =
     (if b = 16 \<and> take 1 s = ''0'' \<and> map tolower (take 1 (drop 1 s)) = ''x''
      then (True, drop 2 s) else (False, s))"

definition strto_parts :: "nat \<Rightarrow> string \<Rightarrow> (bool \<times> nat) option" where
  "strto_parts b s =
     (let (neg, s2) = split_sign (dropWhile is_space s);
          (pre, s3) = split_hex_prefix b s2;
          ds = digits_prefix b s3
      in if ds = [] \<and> \<not> pre then None else Some (neg, nat_of_digits b ds))"

text \<open>
  \<open>std::stoul\<close> and \<open>std::stoull\<close> on a platform with 64-bit \<open>unsigned long\<close>: they
  throw when nothing was converted or the magnitude does not fit, and negate modulo \<open>2^64\<close>.
\<close>

definition stoul :: "nat \<Rightarrow> string \<Rightarrow> (64 word) result" where
  "stoul b s =
     (case strto_parts b s of
        None \<Rightarrow> Inl (Failure ''invalid_argument'')
      | Some (neg, m) \<Rightarrow>
          if m \<ge> 2 ^ 64 then Inl (Failure ''out_of_range'')
          else Inr (if neg then - word_of_nat m else word_of_nat m))"

lemma of_char_digit_char: "d < 10 \<Longrightarrow> (of_char (digit_char d) :: nat) = 48 + d"
  by (simp add: digit_char_def)

lemma digit_val_digit_char [simp]: "d < 10 \<Longrightarrow> digit_val 10 (digit_char d) = Some d"
  by (simp add: digit_val_def of_char_digit_char)

lemma to_dec_nonempty [simp]: "to_dec n \<noteq> []"
  by (subst to_dec.simps) simp

lemma nat_of_digits_snoc [simp]:
  "nat_of_digits b (ds @ [d]) = nat_of_digits b ds * b + d"
  by (simp add: nat_of_digits_def)

lemma nat_of_digits_Nil [simp]: "nat_of_digits b [] = 0"
  by (simp add: nat_of_digits_def)

lemma digits_prefix_append:
  "(\<forall>c \<in> set s. digit_val b c \<noteq> None) \<Longrightarrow>
   digits_prefix b (s @ t) = digits_prefix b s @ digits_prefix b t"
  by (induction s) auto

lemma to_dec_digits: "\<forall>c \<in> set (to_dec n). digit_val 10 c \<noteq> None \<and> is_digit c"
proof (induction n rule: to_dec.induct)
  case (1 n)
  show ?case
  proof (cases "n < 10")
    case True
    then show ?thesis
      by (subst to_dec.simps) (simp add: is_digit_def of_char_digit_char)
  next
    case False
    moreover have "n mod 10 < 10" by simp
    ultimately show ?thesis using 1
      by (subst to_dec.simps) (auto simp: is_digit_def of_char_digit_char)
  qed
qed

lemma digits_prefix_to_dec: "nat_of_digits 10 (digits_prefix 10 (to_dec n)) = n"
proof (induction n rule: to_dec.induct)
  case (1 n)
  show ?case
  proof (cases "n < 10")
    case True
    then show ?thesis
      by (subst to_dec.simps) (simp add: nat_of_digits_def)
  next
    case False
    have "digits_prefix 10 (to_dec (n div 10) @ [digit_char (n mod 10)]) =
        digits_prefix 10 (to_dec (n div 10)) @ [n mod 10]"
      using to_dec_digits by (subst digits_prefix_append) auto
    with False 1 show ?thesis
      by (subst to_dec.simps) simp
  qed
qed

definition no_digit_head :: "string \<Rightarrow> bool" where
  "no_digit_head s = (case s of [] \<Rightarrow> True | c # _ \<Rightarrow> \<not> is_digit c)"

lemma digit_val_10: "digit_val 10 c = None \<longleftrightarrow> \<not> is_digit c"
  by (auto simp: digit_val_def is_digit_def Let_def)

lemma digits_prefix_to_dec_append:
  "no_digit_head r \<Longrightarrow> nat_of_digits 10 (digits_prefix 10 (to_dec n @ r)) = n"
proof -
  assume r: "no_digit_head r"
  then have "digits_prefix 10 r = []"
    by (cases r) (auto simp: no_digit_head_def digit_val_10 [symmetric])
  moreover have "digits_prefix 10 (to_dec n @ r) = digits_prefix 10 (to_dec n) @ digits_prefix 10 r"
    using to_dec_digits by (intro digits_prefix_append) blast
  ultimately show ?thesis using digits_prefix_to_dec by simp
qed

lemma is_digit_head_facts:
  "is_digit c \<Longrightarrow> \<not> is_space c" "is_digit c \<Longrightarrow> c \<noteq> CHR ''-''" "is_digit c \<Longrightarrow> c \<noteq> CHR ''+''"
  by (auto simp: is_digit_def is_space_def Let_def)

lemma strto_parts_to_dec [str_simps]:
  assumes "no_digit_head r"
  shows "strto_parts 10 (to_dec n @ r) = Some (False, n)"
proof -
  obtain c cs where c: "to_dec n = c # cs" using to_dec_nonempty [of n] by (cases "to_dec n") auto
  have dc: "is_digit c" using to_dec_digits [of n] c by auto
  have s1: "split_sign (dropWhile is_space (to_dec n @ r)) = (False, to_dec n @ r)"
    using c is_digit_head_facts [OF dc] by (simp add: split_sign_def)
  have "digits_prefix 10 (to_dec n @ r) \<noteq> []"
    using to_dec_digits [of n] c by (auto split: option.splits)
  then show ?thesis
    using digits_prefix_to_dec_append [OF assms, of n]
    by (simp add: strto_parts_def s1 split_hex_prefix_def)
qed

lemma stoul_to_dec [str_simps]:
  "no_digit_head r \<Longrightarrow> n < 2 ^ 64 \<Longrightarrow> stoul 10 (to_dec n @ r) = Inr (word_of_nat n)"
  by (simp add: stoul_def strto_parts_to_dec)

lemma no_digit_head_Nil [simp]: "no_digit_head []"
  by (simp add: no_digit_head_def)

section \<open>Input streams\<close>

text \<open>
  The part of \<open>std::istream\<close> the parsers use: the characters not read yet, and the
  flags \<open>eofbit\<close> and \<open>failbit\<close>. \<open>getline\<close> leaves the caller's line as it was when
  the stream is not good, as the library's does (its sentry fails before the line is
  erased), and sets \<open>failbit\<close> when it extracts nothing.
\<close>

record istream =
  i_data :: string
  i_eof :: bool
  i_fail :: bool

definition open_istream :: "string \<Rightarrow> istream" where
  "open_istream s = \<lparr>i_data = s, i_eof = False, i_fail = False\<rparr>"

abbreviation NL :: char where "NL \<equiv> CHR 0x0A"
abbreviation CR :: char where "CR \<equiv> CHR 0x0D"

definition getline :: "istream \<Rightarrow> string \<Rightarrow> string \<times> istream" where
  "getline st old =
     (if i_eof st \<or> i_fail st then (old, st\<lparr>i_fail := True\<rparr>)
      else
        let l = takeWhile (\<lambda>c. c \<noteq> NL) (i_data st) in
        case dropWhile (\<lambda>c. c \<noteq> NL) (i_data st) of
          [] \<Rightarrow> (l, st\<lparr>i_data := [], i_eof := True, i_fail := (l = [])\<rparr>)
        | _ # r \<Rightarrow> (l, st\<lparr>i_data := r\<rparr>))"

lemma getline_line [str_simps]:
  assumes "NL \<notin> set l"
  shows "getline (open_istream (l @ NL # r)) old = (l, open_istream r)"
proof -
  have l: "\<And>c. c \<in> set l \<Longrightarrow> c \<noteq> NL" using assms by auto
  have "takeWhile (\<lambda>c. c \<noteq> NL) (l @ NL # r) = l"
    using l by (simp add: takeWhile_append2)
  moreover have "dropWhile (\<lambda>c. c \<noteq> NL) (l @ NL # r) = NL # r"
    using l by (simp add: dropWhile_append2)
  ultimately show ?thesis by (simp add: getline_def open_istream_def)
qed

lemma i_data_open [simp]: "i_data (open_istream s) = s" "\<not> i_eof (open_istream s)" "\<not> i_fail (open_istream s)"
  by (simp_all add: open_istream_def)

end
