(* ===== verification/Varint.thy ===== *)
theory Varint
  imports Prelude
begin

text \<open>
  The variable-length integers of the message protocol: \<open>integer_builder::pack\<close> and
  \<open>impl::unpack\<close> of src/network/integer_builder.cpp, on the machine words of the code.
  The lemmas show that unpacking inverts packing, that a packed value takes at most five
  bytes, what a scan of an incomplete header answers, and which inputs make the shift of
  \<open>unpack\<close> undefined.
\<close>

unbundle bit_operations_syntax

section \<open>Packing\<close>

text \<open>
  One round of the loop: the low seven bits of the value, with the top bit set when more
  bits are left.
\<close>

definition pack_byte :: "64 word \<Rightarrow> 8 word" where
  "pack_byte val =
     (let b = (ucast val :: 8 word) AND 0x7F
      in b OR push_bit 7 (if 0 < drop_bit 7 val then 1 else 0))"

function pack_loop :: "64 word \<Rightarrow> string" where
  "pack_loop val =
     char_of_byte (pack_byte val) #
       (if drop_bit 7 val = 0 then [] else pack_loop (drop_bit 7 val))"
  by pat_completeness auto
termination
proof (relation "measure unat")
  fix val :: "64 word"
  assume *: "drop_bit 7 val \<noteq> 0"
  then have "unat val div 128 \<noteq> 0"
    using unat_drop_bit_eq [of 7 val] by (simp add: drop_bit_eq_div word_unat_eq_iff)
  moreover have "unat (drop_bit 7 val) = unat val div 128"
    by (simp only: unat_drop_bit_eq) (simp add: drop_bit_eq_div)
  ultimately show "(drop_bit 7 val, val) \<in> measure unat"
    by simp
qed simp

declare pack_loop.simps [simp del]

definition pack :: "32 word \<Rightarrow> string" where
  "pack value = pack_loop (ucast value)"

section \<open>Unpacking\<close>

text \<open>
  The scan over the bytes not looked at yet, with the locals \<open>val\<close>, \<open>by\<close> and
  \<open>got\<close>. Running off the data is \<open>return false\<close>. Shifting a 32-bit value by 32
  or more, which the sixth byte of a header would do, is undefined in C++.
\<close>

datatype unpack_result = Unpack_more | Unpacked "32 word" nat | Unpack_undefined

fun unpack_loop :: "64 word \<Rightarrow> 8 word \<Rightarrow> nat \<Rightarrow> string \<Rightarrow> unpack_result" where
  "unpack_loop val by got [] = Unpack_more"
| "unpack_loop val by got (c # cs) =
     (if 32 \<le> unat by then Unpack_undefined
      else
        let val' = val OR ucast (push_bit (unat by) (ucast (byte_of c AND 0x7F) :: 32 word)) in
        if byte_of c AND 0x80 \<noteq> 0 then unpack_loop val' (by + 7) (Suc got) cs
        else Unpacked (ucast val') (Suc got))"

definition unpack :: "string \<Rightarrow> unpack_result" where
  "unpack data = unpack_loop 0 0 0 data"

section \<open>Bit-level facts\<close>

lemma mask7_eq: "(0x7F :: 8 word) = mask 7"
  by (simp add: mask_eq_exp_minus_1)

lemma pack_byte_low: "pack_byte w AND 0x7F = ucast w AND 0x7F"
  unfolding pack_byte_def Let_def mask7_eq
  by (rule bit_word_eqI) (auto simp: bit_simps)

lemma pack_byte_more: "pack_byte w AND 0x80 \<noteq> 0 \<longleftrightarrow> drop_bit 7 w \<noteq> 0"
  unfolding pack_byte_def Let_def
  by (cases "drop_bit 7 w = 0")
    (simp_all add: word_gt_0 and.assoc bit.conj_disj_distrib2)

text \<open>One round of unpacking restores the next seven bits.\<close>

lemma unpack_round:
  fixes v :: "32 word"
  assumes "n < 32"
  shows "take_bit n (ucast v :: 64 word) OR
      ucast (push_bit n (ucast ((ucast (drop_bit n (ucast v :: 64 word)) :: 8 word) AND 0x7F) :: 32 word))
    = take_bit (n + 7) (ucast v)"
  unfolding mask7_eq
  by (rule bit_word_eqI) (use assms in \<open>auto simp: bit_simps dest: bit_imp_le_length\<close>)

lemma ucast_up_down [simp]: "ucast (ucast (v :: 32 word) :: 64 word) = v"
  by (rule bit_word_eqI) (auto simp: bit_simps)

lemma drop_bit_ucast_32: "32 \<le> n \<Longrightarrow> drop_bit n (ucast (v :: 32 word) :: 64 word) = 0"
  by (rule bit_word_eqI) (auto simp: bit_simps dest: bit_imp_le_length)

lemma take_bit_ucast_all:
  assumes "drop_bit n (ucast (v :: 32 word) :: 64 word) = 0"
  shows "take_bit n (ucast v :: 64 word) = ucast v"
proof -
  have "(ucast v :: 64 word) = push_bit n (drop_bit n (ucast v)) OR take_bit n (ucast v)"
    by (rule bit_word_eqI) (auto simp: bit_simps)
  with assms show ?thesis by simp
qed

lemma unpack_loop_step:
  fixes v :: "32 word"
  assumes n: "n < 32"
  defines "V \<equiv> (ucast v :: 64 word)"
  shows "unpack_loop (take_bit n V) (word_of_nat n) got (pack_loop (drop_bit n V) @ r) =
    (if drop_bit (n + 7) V = 0 then Unpacked v (Suc got)
     else unpack_loop (take_bit (n + 7) V) (word_of_nat (n + 7)) (Suc got)
            (pack_loop (drop_bit (n + 7) V) @ r))"
proof -
  have un: "unat (word_of_nat n :: 8 word) = n"
    using n by (simp only: unat_of_nat) simp
  have fold: "take_bit n V OR
      ucast (push_bit n (ucast ((ucast (drop_bit n V) :: 8 word) AND 0x7F) :: 32 word)) = take_bit (n + 7) V"
    unfolding V_def by (rule unpack_round [OF n])
  have all: "drop_bit (n + 7) V = 0 \<Longrightarrow> ucast (take_bit (n + 7) V) = v"
    by (simp add: V_def take_bit_ucast_all)
  show ?thesis
    using n all pack_byte_more [of "drop_bit n V"]
    by (simp add: pack_loop.simps [of "drop_bit n V"] un pack_byte_low fold add.commute [of 7 n])
qed

lemma pack_loop_length_step:
  "length (pack_loop (drop_bit n V)) =
     (if drop_bit (n + 7) V = 0 then 1 else Suc (length (pack_loop (drop_bit (n + 7) V))))"
  by (simp add: pack_loop.simps [of "drop_bit n V"] add.commute [of 7 n])

text \<open>Five rounds cover the 32 bits of a packed value.\<close>

lemma unpack_pack_aux:
  fixes v :: "32 word"
  defines "V \<equiv> (ucast v :: 64 word)"
  shows "unpack_loop (take_bit 0 V) (word_of_nat 0) 0 (pack_loop (drop_bit 0 V) @ r) =
         Unpacked v (length (pack_loop (drop_bit 0 V)))
       \<and> length (pack_loop (drop_bit 0 V)) \<le> 5"
proof -
  have top: "drop_bit 35 V = 0" by (simp add: V_def drop_bit_ucast_32)
  note steps = unpack_loop_step [of 0 v _ r, folded V_def, simplified]
    unpack_loop_step [of 7 v _ r, folded V_def, simplified]
    unpack_loop_step [of 14 v _ r, folded V_def, simplified]
    unpack_loop_step [of 21 v _ r, folded V_def, simplified]
    unpack_loop_step [of 28 v _ r, folded V_def, simplified]
  note lens = pack_loop_length_step [of 0 V, simplified] pack_loop_length_step [of 7 V, simplified]
    pack_loop_length_step [of 14 V, simplified] pack_loop_length_step [of 21 V, simplified]
    pack_loop_length_step [of 28 V, simplified]
  show ?thesis
    using top by (simp add: steps lens)
qed

lemma unpack_pack: "unpack (pack v @ r) = Unpacked v (length (pack v))"
  using unpack_pack_aux [of v r] by (simp add: unpack_def pack_def)

lemma pack_length: "length (pack v) \<le> 5"
  using unpack_pack_aux [of v "[]"] by (simp add: pack_def)

lemma pack_loop_nonempty [simp]: "pack_loop w \<noteq> []"
  by (subst pack_loop.simps) simp

lemma pack_nonempty [simp]: "pack v \<noteq> []"
  by (simp add: pack_def)

text \<open>What the scan answers does not depend on bytes after a complete header.\<close>

lemma unpack_loop_append:
  "unpack_loop val by got s \<noteq> Unpack_more \<Longrightarrow>
   unpack_loop val by got (s @ ext) = unpack_loop val by got s"
  by (induction val "by" got s rule: unpack_loop.induct) (auto simp: Let_def split: if_splits)

lemma unpack_append: "unpack s \<noteq> Unpack_more \<Longrightarrow> unpack (s @ ext) = unpack s"
  by (simp add: unpack_def unpack_loop_append)

lemma unpack_loop_got:
  "unpack_loop val by got s = Unpacked v n \<Longrightarrow> got < n \<and> n \<le> got + length s"
  by (induction val "by" got s rule: unpack_loop.induct) (auto simp: Let_def split: if_splits)

lemma unpack_got: "unpack s = Unpacked v n \<Longrightarrow> 0 < n \<and> n \<le> length s"
  using unpack_loop_got by (fastforce simp: unpack_def)

lemma unpack_Nil [simp]: "unpack [] = Unpack_more"
  by (simp add: unpack_def)

text \<open>
  The shift is undefined exactly for inputs of more than five bytes whose first five all
  have the continuation bit.
\<close>

lemma unpack_loop_undefined:
  "unat by = 7 * k \<Longrightarrow> k \<le> 5 \<Longrightarrow>
   unpack_loop val by got s = Unpack_undefined \<longleftrightarrow>
   5 - k < length s \<and> (\<forall>c \<in> set (take (5 - k) s). byte_of c AND 0x80 \<noteq> 0)"
proof (induction val "by" got s arbitrary: k rule: unpack_loop.induct)
  case (2 val "by" got c cs)
  show ?case
  proof (cases "k = 5")
    case True
    with "2.prems" show ?thesis by simp
  next
    case False
    then have k: "k < 5" and t: "5 - k = Suc (5 - Suc k)" using "2.prems" by auto
    have b: "\<not> 32 \<le> unat by" using "2.prems" k by simp
    have "unat (by + 7) = 7 * Suc k"
      using "2.prems" k by (simp add: unat_word_ariths)
    with "2.IH" [OF b refl _ this] k
    show ?thesis by (simp add: b t Let_def)
  qed
qed simp

lemma unpack_undefined:
  "unpack s = Unpack_undefined \<longleftrightarrow>
   5 < length s \<and> (\<forall>c \<in> set (take 5 s). byte_of c AND 0x80 \<noteq> 0)"
  using unpack_loop_undefined [of 0 0 0 0 s] by (simp add: unpack_def)

end
