(* ===== verification/Net_Unit.thy ===== *)
theory Net_Unit
  imports Varint
begin

text \<open>
  The logical unit of a byte stream: class \<open>unit\<close> of include/server_lib/network/unit.h
  and src/network/unit.cpp. The variant \<open>_data\<close> is a datatype, the class a datatype
  with one constructor because units nest. The lemmas relate the two renderings of a unit
  to the list of its leaves.
\<close>

section \<open>Data\<close>

text \<open>\<open>boost::variant<std::string, uint32_t, bool>\<close>.\<close>

datatype unit_data = UString string | UInteger "32 word" | UBool bool

datatype net_unit =
  Unit (u_success: bool) (u_data: unit_data) (u_nested: "net_unit list")

section \<open>Constructors and setters\<close>

definition unit_bool :: "bool \<Rightarrow> net_unit" where
  "unit_bool success = Unit success (UBool success) []"

definition unit_string :: "string \<Rightarrow> bool \<Rightarrow> net_unit" where
  "unit_string value success = Unit success (UString value) []"

definition unit_integer :: "32 word \<Rightarrow> bool \<Rightarrow> net_unit" where
  "unit_integer value success = Unit success (UInteger value) []"

definition unit_list :: "net_unit list \<Rightarrow> bool \<Rightarrow> net_unit" where
  "unit_list nested success = Unit success (UBool success) nested"

text \<open>The setters keep the nested content, except the one that is given it.\<close>

definition set_bool :: "bool \<Rightarrow> net_unit \<Rightarrow> net_unit" where
  "set_bool success u = Unit success (UBool success) (u_nested u)"

definition set_string :: "string \<Rightarrow> bool \<Rightarrow> net_unit \<Rightarrow> net_unit" where
  "set_string value success u = Unit success (UString value) (u_nested u)"

definition set_integer :: "32 word \<Rightarrow> bool \<Rightarrow> net_unit \<Rightarrow> net_unit" where
  "set_integer value success u = Unit success (UInteger value) (u_nested u)"

definition set_nested :: "net_unit list \<Rightarrow> bool \<Rightarrow> net_unit \<Rightarrow> net_unit" where
  "set_nested nested success u = (case set_bool success u of Unit s d _ \<Rightarrow> Unit s d nested)"

definition unit_append :: "net_unit \<Rightarrow> net_unit \<Rightarrow> net_unit" where
  "unit_append u v = Unit (u_success u) (u_data u) (u_nested u @ [v])"

section \<open>Queries\<close>

definition is_root :: "net_unit \<Rightarrow> bool" where
  "is_root u = (u_nested u \<noteq> [])"

definition is_string :: "net_unit \<Rightarrow> bool" where
  "is_string u = (case u_data u of UString _ \<Rightarrow> True | UInteger _ \<Rightarrow> False | UBool _ \<Rightarrow> False)"

definition is_integer :: "net_unit \<Rightarrow> bool" where
  "is_integer u = (case u_data u of UString _ \<Rightarrow> False | UInteger _ \<Rightarrow> True | UBool _ \<Rightarrow> False)"

definition is_null :: "net_unit \<Rightarrow> bool" where
  "is_null u = (case u_data u of UString _ \<Rightarrow> False | UInteger _ \<Rightarrow> False | UBool _ \<Rightarrow> True)"

definition is_error :: "net_unit \<Rightarrow> bool" where
  "is_error u = (\<not> u_success u)"

definition unit_ok :: "net_unit \<Rightarrow> bool" where
  "unit_ok u = (\<not> is_error u)"

definition unit_truth :: "net_unit \<Rightarrow> bool" where
  "unit_truth u = (\<not> is_error u \<and> \<not> is_null u)"

fun unit_eq :: "net_unit \<Rightarrow> net_unit \<Rightarrow> bool" where
  "unit_eq (Unit s d ns) (Unit s' d' ns') =
     (if s \<noteq> s' then False else if d \<noteq> d' then False else list_all2 unit_eq ns ns')"

definition as_string :: "net_unit \<Rightarrow> string result" where
  "as_string u =
     srv_assert (is_string u) ''Logic unit is not a string''
       (case u_data u of UString s \<Rightarrow> Inr s | _ \<Rightarrow> Inl (Failure ''bad_get''))"

definition as_integer :: "net_unit \<Rightarrow> 32 word result" where
  "as_integer u =
     srv_assert (is_integer u) ''Logic unit is not a integer''
       (case u_data u of UInteger n \<Rightarrow> Inr n | _ \<Rightarrow> Inl (Failure ''bad_get''))"

definition unit_error :: "net_unit \<Rightarrow> string result" where
  "unit_error u = srv_assert (is_error u) ''Logic unit is not an error'' (as_string u)"

section \<open>Renderings\<close>

text \<open>The visitors \<open>lunit_data_to_string\<close> and \<open>lunit_data_to_network_string\<close>.\<close>

definition data_to_string :: "unit_data \<Rightarrow> string" where
  "data_to_string d =
     (case d of
        UString s \<Rightarrow> s
      | UInteger n \<Rightarrow> to_dec (unat n)
      | UBool b \<Rightarrow> to_dec (if b then 1 else 0))"

definition data_to_network :: "unit_data \<Rightarrow> string" where
  "data_to_network d =
     (case d of UString s \<Rightarrow> s | UInteger n \<Rightarrow> pack n | UBool _ \<Rightarrow> [])"

text \<open>The loop over the nested units, with its flag \<open>first\<close>.\<close>

fun join_nested :: "bool \<Rightarrow> string list \<Rightarrow> string" where
  "join_nested first [] = []"
| "join_nested first (x # xs) = (if first then [] else '','') @ x @ join_nested False xs"

fun to_printable :: "net_unit \<Rightarrow> string" where
  "to_printable (Unit s d ns) =
     (if \<not> is_null (Unit s d ns) then data_to_string d else if s then ''+'' else ''-'') @
     (if is_root (Unit s d ns) then '':'' @ join_nested True (map to_printable ns) else [])"

fun to_network :: "net_unit \<Rightarrow> string" where
  "to_network (Unit s d ns) =
     (if \<not> is_null (Unit s d ns) then data_to_network d else []) @
     (if is_root (Unit s d ns) then concat (map to_network ns) else [])"

section \<open>Facts\<close>

lemmas unit_simps =
  unit_bool_def unit_string_def unit_integer_def unit_list_def set_bool_def set_string_def
  set_integer_def set_nested_def unit_append_def is_root_def is_string_def is_integer_def
  is_null_def is_error_def unit_ok_def unit_truth_def

lemma unit_eq_iff: "unit_eq u v \<longleftrightarrow> u = v"
proof (induction u v rule: unit_eq.induct)
  case (1 s d ns s' d' ns')
  then show ?case
    by (auto simp: list_all2_conv_all_nth intro: nth_equalityI)
qed

text \<open>The data items of a unit and of everything nested in it, in the order of the stream.\<close>

fun unit_leaves :: "net_unit \<Rightarrow> unit_data list" where
  "unit_leaves (Unit s d ns) = d # concat (map unit_leaves ns)"

lemma to_network_leaves_aux:
  "to_network u = concat (map data_to_network (unit_leaves u))"
proof (induction u rule: to_network.induct)
  case (1 s d ns)
  then have IH: "concat (map to_network ns) = concat (map data_to_network (concat (map unit_leaves ns)))"
    by (induction ns) (auto simp: is_root_def)
  have "data_to_network d = []" if "is_null (Unit s d ns)"
    using that by (auto simp: is_null_def data_to_network_def split: unit_data.splits)
  with IH show ?case by (auto simp: is_root_def)
qed

text \<open>Appending a nested unit appends its bytes.\<close>

lemma to_network_append: "to_network (unit_append u v) = to_network u @ to_network v"
  by (cases u) (auto simp: unit_append_def is_null_def is_root_def)

lemma to_network_string [simp]: "to_network (unit_string s b) = s"
  by (simp add: unit_simps data_to_network_def)

lemma to_network_bool [simp]: "to_network (unit_bool b) = []"
  by (simp add: unit_simps)

lemma to_network_integer [simp]: "to_network (unit_integer n b) = pack n"
  by (simp add: unit_simps data_to_network_def)

end
