(* ===== verification/Builder_Interface.thy ===== *)
theory Builder_Interface
  imports Net_Unit
begin

text \<open>
  The interface \<open>unit_builder_i\<close> of include/server_lib/network/unit_builder_i.h and the
  contracts its clients rely on. A builder that may throw in the middle of \<open>operator<<\<close>
  answers the exception together with its state and the buffer as they are then.
\<close>

section \<open>The interface\<close>

record 'b unit_builder_i =
  ub_clone :: "'b \<Rightarrow> 'b option"
  ub_create :: "'b \<Rightarrow> string \<Rightarrow> net_unit result"
  ub_feed :: "'b \<Rightarrow> string \<Rightarrow> srv_error option \<times> 'b \<times> string"
  ub_ready :: "'b \<Rightarrow> bool"
  ub_get :: "'b \<Rightarrow> net_unit"
  ub_reset :: "'b \<Rightarrow> 'b"

section \<open>Contracts\<close>

text \<open>
  A consuming protocol takes at least one byte from the buffer for every unit it
  completes, so the loop that feeds it ends. \<open>inv\<close> holds between two calls.
\<close>

locale consuming_protocol =
  fixes vt :: "'b unit_builder_i"
    and inv :: "'b \<Rightarrow> bool"
  assumes idle: "inv b \<Longrightarrow> \<not> ub_ready vt b"
    and more_inv: "inv b \<Longrightarrow> ub_feed vt b s = (None, b', s') \<Longrightarrow> \<not> ub_ready vt b' \<Longrightarrow> inv b'"
    and done_consumes:
      "inv b \<Longrightarrow> s \<noteq> [] \<Longrightarrow> ub_feed vt b s = (None, b', s') \<Longrightarrow> ub_ready vt b' \<Longrightarrow>
       length s' < length s"
    and done_inv:
      "inv b \<Longrightarrow> ub_feed vt b s = (None, b', s') \<Longrightarrow> ub_ready vt b' \<Longrightarrow> inv (ub_reset vt b')"

text \<open>
  A streaming protocol finds the borders of the units in the bytes themselves: what it
  does with a prefix of the stream does not depend on where the prefix was cut.
\<close>

locale streaming_protocol = consuming_protocol +
  assumes grow_done:
      "inv b \<Longrightarrow> ub_feed vt b s = (None, b', s') \<Longrightarrow> ub_ready vt b' \<Longrightarrow>
       ub_feed vt b (s @ ext) = (None, b', s' @ ext)"
    and grow_more:
      "inv b \<Longrightarrow> ub_feed vt b s = (None, b', s') \<Longrightarrow> \<not> ub_ready vt b' \<Longrightarrow>
       ub_feed vt b (s @ ext) = ub_feed vt b' (s' @ ext)"
    and grow_error:
      "inv b \<Longrightarrow> ub_feed vt b s = (Some e, b', s') \<Longrightarrow>
       ub_feed vt b (s @ ext) = (Some e, b', s' @ ext)"

text \<open>
  A framed protocol also gives back what it was given: from a state between two units
  (\<open>start\<close>) the bytes \<open>encode x\<close> that a sender produces for \<open>x\<close> complete exactly one unit,
  \<open>decode x\<close>, whatever follows them, and the builder is between two units again.
\<close>

locale framed_protocol = streaming_protocol vt inv
  for vt :: "'b unit_builder_i" and inv :: "'b \<Rightarrow> bool" +
  fixes start :: "'b \<Rightarrow> bool"
    and encode :: "'m \<Rightarrow> string result"
    and decode :: "'m \<Rightarrow> net_unit"
  assumes start_inv: "start b \<Longrightarrow> inv b"
    and encode_nonempty: "start b \<Longrightarrow> encode x = Inr w \<Longrightarrow> w \<noteq> []"
    and delivers: "start b \<Longrightarrow> encode x = Inr w \<Longrightarrow>
       \<exists>b'. ub_feed vt b (w @ rest) = (None, b', rest) \<and> ub_ready vt b' \<and> ub_get vt b' = decode x \<and>
            start (ub_reset vt b')"

end
