(* ===== verification/Builders.thy ===== *)
theory Builders
  imports Builder_Interface
begin

text \<open>
  The builders that cut a byte stream into units: \<open>integer_builder\<close>, \<open>string_builder\<close>,
  \<open>msg_builder\<close>, \<open>raw_builder\<close> and \<open>dstream_builder\<close> (include/server_lib/network and
  src/network), one record per class. An operation that may throw after it has changed
  its object answers the exception together with the object and the buffer as they are
  then. The classes that can serve as a protocol (those with a \<open>clone\<close>) are collected
  into a record of operations, as their virtual tables are, and the interpretations at the
  end discharge the contracts of the interface for them.
\<close>

section \<open>Integers\<close>

record integer_builder =
  ib_unit :: net_unit

definition integer_builder_new :: integer_builder where
  "integer_builder_new = \<lparr>ib_unit = unit_bool False\<rparr>"

definition integer_create :: "integer_builder \<Rightarrow> string \<Rightarrow> net_unit result" where
  "integer_create b s = Inl (Logic_error ''Can't be created from string in this context'')"

definition integer_ready :: "integer_builder \<Rightarrow> bool" where
  "integer_ready b = unit_ok (ib_unit b)"

definition integer_get :: "integer_builder \<Rightarrow> net_unit" where
  "integer_get b = ib_unit b"

definition integer_reset :: "integer_builder \<Rightarrow> integer_builder" where
  "integer_reset b = b\<lparr>ib_unit := set_bool False (ib_unit b)\<rparr>"

definition integer_feed ::
    "integer_builder \<Rightarrow> string \<Rightarrow> srv_error option \<times> integer_builder \<times> string" where
  "integer_feed b data =
     (if integer_ready b then (None, b, data)
      else case unpack data of
        Unpack_more \<Rightarrow> (None, b, data)
      | Unpack_undefined \<Rightarrow> (Some (Undefined ''shift exponent too large''), b, data)
      | Unpacked value got \<Rightarrow>
          (None, b\<lparr>ib_unit := set_integer value True (ib_unit b)\<rparr>, drop got data))"

section \<open>Strings of a given size\<close>

record string_builder =
  sb_size :: nat
  sb_buffer :: string
  sb_ready :: bool
  sb_unit :: net_unit

definition string_builder_new :: "nat \<Rightarrow> string_builder" where
  "string_builder_new n = \<lparr>sb_size = n, sb_buffer = [], sb_ready = False, sb_unit = unit_bool False\<rparr>"

definition string_create :: "string_builder \<Rightarrow> string \<Rightarrow> net_unit result" where
  "string_create b s = Inr (unit_string s True)"

definition string_get :: "string_builder \<Rightarrow> net_unit" where
  "string_get b = sb_unit b"

definition string_set_size :: "nat \<Rightarrow> string_builder \<Rightarrow> string_builder" where
  "string_set_size n b = b\<lparr>sb_size := n\<rparr>"

definition string_reset :: "string_builder \<Rightarrow> string_builder" where
  "string_reset b = b\<lparr>sb_unit := set_bool False (sb_unit b), sb_ready := False, sb_buffer := []\<rparr>"

definition string_take ::
    "string_builder \<Rightarrow> string \<Rightarrow> string_builder \<times> string" where
  "string_take b data =
     (if length (sb_buffer b) < sb_size b then
        let left = sb_size b - length (sb_buffer b);
            add = min (length data) left
        in (b\<lparr>sb_buffer := sb_buffer b @ take add data\<rparr>, drop add data)
      else (b, data))"

definition string_finish :: "string_builder \<Rightarrow> string_builder" where
  "string_finish b =
     (if length (sb_buffer b) = sb_size b then
        b\<lparr>sb_ready := True,
          sb_unit := (if sb_buffer b \<noteq> [] then set_string (sb_buffer b) True (sb_unit b)
                      else set_bool True (sb_unit b)),
          sb_buffer := []\<rparr>
      else b)"

definition string_feed ::
    "string_builder \<Rightarrow> string \<Rightarrow> srv_error option \<times> string_builder \<times> string" where
  "string_feed b data =
     (if sb_ready b then (None, b, data)
      else
        let (b1, data1) = string_take b data in
        if \<not> length (sb_buffer b1) \<le> sb_size b1
        then (Some (Logic_error ''_buffer.size() <= _size''), b1, data1)
        else (None, string_finish b1, data1))"

section \<open>Messages with a size header\<close>

record msg_builder =
  mb_max :: nat
  mb_ready :: bool
  mb_size :: integer_builder
  mb_msg :: string_builder

definition msg_builder_new :: "nat \<Rightarrow> msg_builder" where
  "msg_builder_new m =
     \<lparr>mb_max = m, mb_ready = False, mb_size = integer_builder_new, mb_msg = string_builder_new 0\<rparr>"

definition msg_clone :: "msg_builder \<Rightarrow> msg_builder option" where
  "msg_clone b = Some (msg_builder_new (mb_max b))"

definition msg_create :: "msg_builder \<Rightarrow> string \<Rightarrow> net_unit result" where
  "msg_create b msg =
     srv_assert (length msg \<le> mb_max b) ''msg.size() <= _msg_max_size''
       (srv_assert (length msg \<le> 2 ^ 32 - 1) ''sz <= max(size_type)''
          (rbind (string_create (mb_msg b) msg)
             (\<lambda>u. Inr (unit_append
                (unit_append (unit_bool True) (unit_string (pack (word_of_nat (length msg))) True)) u))))"

text \<open>The first block of \<open>operator<<\<close>: the size header, checked against the limit.\<close>

definition msg_feed_size ::
    "msg_builder \<Rightarrow> string \<Rightarrow> srv_error option \<times> msg_builder \<times> string" where
  "msg_feed_size b data =
     (if \<not> integer_ready (mb_size b) then
        case integer_feed (mb_size b) data of
          (Some e, sz, data1) \<Rightarrow> (Some e, b\<lparr>mb_size := sz\<rparr>, data1)
        | (None, sz, data1) \<Rightarrow>
            let b1 = b\<lparr>mb_size := sz\<rparr> in
            if integer_ready sz then
              case as_integer (integer_get sz) of
                Inl e \<Rightarrow> (Some e, b1, data1)
              | Inr n \<Rightarrow>
                  if \<not> unat n \<le> mb_max b
                  then (Some (Logic_error ''sz <= _msg_max_size''), b1, data1)
                  else (None, b1\<lparr>mb_msg := string_set_size (unat n) (mb_msg b)\<rparr>, data1)
            else (None, b1, data1)
      else (None, b, data))"

text \<open>The second block: the bytes of the message.\<close>

definition msg_feed_body ::
    "msg_builder \<Rightarrow> string \<Rightarrow> srv_error option \<times> msg_builder \<times> string" where
  "msg_feed_body b data =
     (if integer_ready (mb_size b) \<and> \<not> sb_ready (mb_msg b) then
        case string_feed (mb_msg b) data of
          (e, m, data1) \<Rightarrow> (e, b\<lparr>mb_msg := m\<rparr>, data1)
      else (None, b, data))"

definition msg_feed ::
    "msg_builder \<Rightarrow> string \<Rightarrow> srv_error option \<times> msg_builder \<times> string" where
  "msg_feed b data =
     (if mb_ready b then (None, b, data)
      else case msg_feed_size b data of
        (Some e, b1, data1) \<Rightarrow> (Some e, b1, data1)
      | (None, b1, data1) \<Rightarrow>
          (case msg_feed_body b1 data1 of
             (Some e, b2, data2) \<Rightarrow> (Some e, b2, data2)
           | (None, b2, data2) \<Rightarrow>
               (None, (if sb_ready (mb_msg b2) then b2\<lparr>mb_ready := True\<rparr> else b2), data2)))"

definition msg_get :: "msg_builder \<Rightarrow> net_unit" where
  "msg_get b = string_get (mb_msg b)"

definition msg_reset :: "msg_builder \<Rightarrow> msg_builder" where
  "msg_reset b =
     b\<lparr>mb_ready := False, mb_size := integer_reset (mb_size b), mb_msg := string_reset (mb_msg b)\<rparr>"

definition msg_protocol :: "msg_builder unit_builder_i" where
  "msg_protocol =
     \<lparr>ub_clone = msg_clone, ub_create = msg_create, ub_feed = msg_feed, ub_ready = mb_ready,
      ub_get = msg_get, ub_reset = msg_reset\<rparr>"

section \<open>Raw chunks\<close>

record raw_builder =
  rb_buffer :: string

definition raw_builder_new :: raw_builder where
  "raw_builder_new = \<lparr>rb_buffer = []\<rparr>"

definition raw_clone :: "raw_builder \<Rightarrow> raw_builder option" where
  "raw_clone b = Some raw_builder_new"

definition raw_create :: "raw_builder \<Rightarrow> string \<Rightarrow> net_unit result" where
  "raw_create b buff = Inr (unit_string buff True)"

definition raw_ready :: "raw_builder \<Rightarrow> bool" where
  "raw_ready b = (rb_buffer b \<noteq> [])"

definition raw_feed ::
    "raw_builder \<Rightarrow> string \<Rightarrow> srv_error option \<times> raw_builder \<times> string" where
  "raw_feed b data =
     (if raw_ready b \<or> data = [] then (None, b, data)
      else (None, b\<lparr>rb_buffer := data\<rparr>, []))"

definition raw_get :: "raw_builder \<Rightarrow> net_unit" where
  "raw_get b = (if raw_ready b then unit_string (rb_buffer b) True else unit_bool False)"

definition raw_reset :: "raw_builder \<Rightarrow> raw_builder" where
  "raw_reset b = b\<lparr>rb_buffer := []\<rparr>"

definition raw_protocol :: "raw_builder unit_builder_i" where
  "raw_protocol =
     \<lparr>ub_clone = raw_clone, ub_create = raw_create, ub_feed = raw_feed, ub_ready = raw_ready,
      ub_get = raw_get, ub_reset = raw_reset\<rparr>"

section \<open>Delimited streams\<close>

record dstream_builder =
  db_delimeter :: string
  db_unit :: net_unit

text \<open>The constructor takes a C string, which ends at its first zero byte.\<close>

definition dstream_builder_new :: "string \<Rightarrow> dstream_builder" where
  "dstream_builder_new d =
     \<lparr>db_delimeter = takeWhile (\<lambda>c. c \<noteq> CHR 0x00) d, db_unit = unit_bool False\<rparr>"

definition dstream_clone :: "dstream_builder \<Rightarrow> dstream_builder option" where
  "dstream_clone b = Some (dstream_builder_new (db_delimeter b))"

definition dstream_create :: "dstream_builder \<Rightarrow> string \<Rightarrow> net_unit result" where
  "dstream_create b buff = Inr (unit_string (buff @ db_delimeter b) True)"

definition dstream_ready :: "dstream_builder \<Rightarrow> bool" where
  "dstream_ready b = unit_ok (db_unit b)"

definition dstream_feed ::
    "dstream_builder \<Rightarrow> string \<Rightarrow> srv_error option \<times> dstream_builder \<times> string" where
  "dstream_feed b data =
     (if dstream_ready b then (None, b, data)
      else case find_sub (db_delimeter b) data of
        None \<Rightarrow> (None, b, data)
      | Some end_unit \<Rightarrow>
          (None, b\<lparr>db_unit := set_string (substr data 0 end_unit) True (db_unit b)\<rparr>,
           drop (end_unit + length (db_delimeter b)) data))"

definition dstream_get :: "dstream_builder \<Rightarrow> net_unit" where
  "dstream_get b = db_unit b"

definition dstream_reset :: "dstream_builder \<Rightarrow> dstream_builder" where
  "dstream_reset b = b\<lparr>db_unit := set_bool False (db_unit b)\<rparr>"

definition dstream_protocol :: "dstream_builder unit_builder_i" where
  "dstream_protocol =
     \<lparr>ub_clone = dstream_clone, ub_create = dstream_create, ub_feed = dstream_feed,
      ub_ready = dstream_ready, ub_get = dstream_get, ub_reset = dstream_reset\<rparr>"

section \<open>The contracts hold\<close>

subsection \<open>Integers and strings\<close>

definition deliver_string :: "string \<Rightarrow> net_unit \<Rightarrow> net_unit" where
  "deliver_string s u = (if s \<noteq> [] then set_string s True u else set_bool True u)"

lemma string_feed_eq:
  assumes "\<not> sb_ready m" and "length (sb_buffer m) \<le> sb_size m"
  shows "string_feed m data =
    (let need = sb_size m - length (sb_buffer m) in
     if length data < need then (None, m\<lparr>sb_buffer := sb_buffer m @ data\<rparr>, [])
     else (None, m\<lparr>sb_ready := True,
                   sb_unit := deliver_string (sb_buffer m @ take need data) (sb_unit m),
                   sb_buffer := []\<rparr>, drop need data))"
  using assms
  by (auto simp: string_feed_def string_take_def string_finish_def deliver_string_def Let_def min_def)

lemma unit_ok_set [simp]:
  "unit_ok (set_bool b u) = b" "unit_ok (set_string s b u) = b" "unit_ok (set_integer n b u) = b"
  by (simp_all add: unit_simps)

lemma u_nested_set [simp]:
  "u_nested (set_bool b u) = u_nested u" "u_nested (set_string s b u) = u_nested u"
  "u_nested (set_integer n b u) = u_nested u" "u_nested (deliver_string s u) = u_nested u"
  by (simp_all add: unit_simps deliver_string_def)

lemma integer_reset_ready [simp]: "\<not> integer_ready (integer_reset b)"
  by (simp add: integer_ready_def integer_reset_def)

subsection \<open>Messages\<close>

text \<open>
  Between two calls a message builder is either before the size header, with no byte of
  the body kept, or inside a body that is not complete yet and within the limit.
\<close>

definition msg_inv :: "msg_builder \<Rightarrow> bool" where
  "msg_inv b \<longleftrightarrow>
     \<not> mb_ready b \<and> \<not> sb_ready (mb_msg b) \<and> u_nested (sb_unit (mb_msg b)) = [] \<and>
     (if integer_ready (mb_size b)
      then length (sb_buffer (mb_msg b)) < sb_size (mb_msg b) \<and> sb_size (mb_msg b) \<le> mb_max b
      else sb_buffer (mb_msg b) = [])"

lemma msg_inv_new [inv_intros]: "msg_inv (msg_builder_new m)"
  by (simp add: msg_inv_def msg_builder_new_def integer_builder_new_def string_builder_new_def
      integer_ready_def unit_simps)

text \<open>The body phase in one equation.\<close>

definition msg_body :: "msg_builder \<Rightarrow> string \<Rightarrow> srv_error option \<times> msg_builder \<times> string" where
  "msg_body b data =
     (let m = mb_msg b; need = sb_size m - length (sb_buffer m) in
      if length data < need then (None, b\<lparr>mb_msg := m\<lparr>sb_buffer := sb_buffer m @ data\<rparr>\<rparr>, [])
      else (None, b\<lparr>mb_ready := True,
                    mb_msg := m\<lparr>sb_ready := True,
                                sb_unit := deliver_string (sb_buffer m @ take need data) (sb_unit m),
                                sb_buffer := []\<rparr>\<rparr>, drop need data))"

lemma msg_feed_in_body:
  assumes "msg_inv b" and "integer_ready (mb_size b)"
  shows "msg_feed b data = msg_body b data"
  using assms
  by (auto simp: msg_feed_def msg_feed_size_def msg_feed_body_def msg_inv_def string_feed_eq
      msg_body_def Let_def)

definition msg_sized :: "msg_builder \<Rightarrow> 32 word \<Rightarrow> msg_builder" where
  "msg_sized b n =
     b\<lparr>mb_size := mb_size b\<lparr>ib_unit := set_integer n True (ib_unit (mb_size b))\<rparr>,
       mb_msg := string_set_size (unat n) (mb_msg b)\<rparr>"

definition msg_too_big :: "msg_builder \<Rightarrow> 32 word \<Rightarrow> msg_builder" where
  "msg_too_big b n =
     b\<lparr>mb_size := mb_size b\<lparr>ib_unit := set_integer n True (ib_unit (mb_size b))\<rparr>\<rparr>"

lemma as_integer_set [simp]: "as_integer (set_integer n b u) = Inr n"
  by (simp add: as_integer_def set_integer_def is_integer_def)

lemma msg_feed_in_header:
  assumes "msg_inv b" and "\<not> integer_ready (mb_size b)"
  shows "msg_feed b data =
    (case unpack data of
       Unpack_more \<Rightarrow> (None, b, data)
     | Unpack_undefined \<Rightarrow> (Some (Undefined ''shift exponent too large''), b, data)
     | Unpacked n got \<Rightarrow>
         if mb_max b < unat n
         then (Some (Logic_error ''sz <= _msg_max_size''), msg_too_big b n, drop got data)
         else msg_body (msg_sized b n) (drop got data))"
proof -
  have idle: "\<not> mb_ready b" "\<not> sb_ready (mb_msg b)" "sb_buffer (mb_msg b) = []"
    using assms by (auto simp: msg_inv_def)
  show ?thesis
    using assms(2) idle
    by (auto simp: msg_feed_def msg_feed_size_def msg_feed_body_def integer_feed_def integer_get_def
        integer_ready_def string_feed_eq msg_body_def msg_sized_def msg_too_big_def string_set_size_def
        Let_def split: unpack_result.split)
qed

lemma msg_sized_inv:
  "msg_inv b \<Longrightarrow> \<not> integer_ready (mb_size b) \<Longrightarrow> unat n \<le> mb_max b \<Longrightarrow> 0 < unat n \<Longrightarrow>
   msg_inv (msg_sized b n) \<and> integer_ready (mb_size (msg_sized b n))"
  by (simp add: msg_inv_def msg_sized_def integer_ready_def string_set_size_def)

lemma msg_body_more:
  "msg_body b data = (None, b', s') \<Longrightarrow> \<not> mb_ready b \<Longrightarrow> \<not> mb_ready b' \<Longrightarrow>
   s' = [] \<and> length data < sb_size (mb_msg b) - length (sb_buffer (mb_msg b)) \<and>
   b' = b\<lparr>mb_msg := (mb_msg b)\<lparr>sb_buffer := sb_buffer (mb_msg b) @ data\<rparr>\<rparr>"
  by (auto simp: msg_body_def Let_def split: if_splits)

lemma msg_body_no_error: "msg_body b data \<noteq> (Some e, b', s')"
  by (simp add: msg_body_def Let_def)

lemma msg_body_grow_done:
  "msg_body b data = (None, b', s') \<Longrightarrow> \<not> mb_ready b \<Longrightarrow> mb_ready b' \<Longrightarrow>
   msg_body b (data @ ext) = (None, b', s' @ ext)"
  by (auto simp: msg_body_def Let_def split: if_splits)

lemma msg_body_ready_inv:
  "msg_body b data = (None, b', s') \<Longrightarrow> mb_ready b' \<Longrightarrow> \<not> mb_ready b \<Longrightarrow>
   u_nested (sb_unit (mb_msg b)) = [] \<Longrightarrow> msg_inv (msg_reset b')"
  by (auto simp: msg_body_def msg_inv_def msg_reset_def string_reset_def Let_def split: if_splits)

lemma msg_body_consumes: "msg_body b data = (e, b', s') \<Longrightarrow> length s' \<le> length data"
  by (auto simp: msg_body_def Let_def split: if_splits)

lemma msg_body_split:
  assumes "length data < sb_size (mb_msg b) - length (sb_buffer (mb_msg b))"
  shows "msg_body b (data @ ext) =
    msg_body (b\<lparr>mb_msg := (mb_msg b)\<lparr>sb_buffer := sb_buffer (mb_msg b) @ data\<rparr>\<rparr>) ext"
  using assms by (auto simp: msg_body_def Let_def)

lemma msg_inv_body_state:
  assumes "msg_inv b" and "integer_ready (mb_size b)"
    and "length data < sb_size (mb_msg b) - length (sb_buffer (mb_msg b))"
  shows "msg_inv (b\<lparr>mb_msg := (mb_msg b)\<lparr>sb_buffer := sb_buffer (mb_msg b) @ data\<rparr>\<rparr>)"
  using assms by (auto simp: msg_inv_def)

text \<open>The outcomes of a call, one by one.\<close>

lemma msg_feed_more:
  assumes inv: "msg_inv b" and f: "msg_feed b s = (None, b', s')" and nr: "\<not> mb_ready b'"
  shows "msg_inv b' \<and> msg_feed b (s @ ext) = msg_feed b' (s' @ ext)"
proof -
  have nb: "\<not> mb_ready b" using inv by (simp add: msg_inv_def)
  have body: "msg_inv b' \<and> msg_body c (d @ ext) = msg_feed b' (s' @ ext)"
    if c: "msg_inv c" "integer_ready (mb_size c)" and d: "msg_body c d = (None, b', s')" for c d
  proof -
    from c have "\<not> mb_ready c" by (simp add: msg_inv_def)
    from msg_body_more [OF d this nr] have *: "s' = []"
      "length d < sb_size (mb_msg c) - length (sb_buffer (mb_msg c))"
      "b' = c\<lparr>mb_msg := (mb_msg c)\<lparr>sb_buffer := sb_buffer (mb_msg c) @ d\<rparr>\<rparr>" by auto
    have "msg_inv b'" using msg_inv_body_state [OF c *(2)] *(3) by simp
    moreover have "integer_ready (mb_size b')" using c(2) *(3) by simp
    ultimately show ?thesis
      using msg_body_split [OF *(2)] * by (simp add: msg_feed_in_body)
  qed
  show ?thesis
  proof (cases "integer_ready (mb_size b)")
    case True
    with inv f show ?thesis using body [of b s] by (simp add: msg_feed_in_body)
  next
    case False
    note header = msg_feed_in_header [OF inv False]
    show ?thesis
    proof (cases "unpack s")
      case Unpack_more
      with f header inv show ?thesis by simp
    next
      case Unpack_undefined
      with f header show ?thesis by simp
    next
      case (Unpacked n got)
      with f header have le: "unat n \<le> mb_max b" and mb: "msg_body (msg_sized b n) (drop got s) = (None, b', s')"
        by (auto split: if_splits)
      have pos: "0 < unat n"
      proof (rule ccontr)
        assume "\<not> 0 < unat n"
        then have "mb_ready b'"
          using mb by (auto simp: msg_body_def msg_sized_def string_set_size_def Let_def)
        with nr show False by simp
      qed
      have "unpack (s @ ext) = Unpacked n got" and "drop got (s @ ext) = drop got s @ ext"
        using Unpacked unpack_append [of s ext] unpack_got [OF Unpacked] by auto
      with msg_sized_inv [OF inv False le pos] body [OF _ _ mb] header [of "s @ ext"] le show ?thesis
        by simp
    qed
  qed
qed

lemma msg_feed_done:
  assumes inv: "msg_inv b" and f: "msg_feed b s = (None, b', s')" and r: "mb_ready b'"
  shows "msg_feed b (s @ ext) = (None, b', s' @ ext) \<and> msg_inv (msg_reset b') \<and>
    (s \<noteq> [] \<longrightarrow> length s' < length s)"
proof -
  have nb: "\<not> mb_ready b" "u_nested (sb_unit (mb_msg b)) = []"
    using inv by (auto simp: msg_inv_def)
  show ?thesis
  proof (cases "integer_ready (mb_size b)")
    case True
    with inv f have mb: "msg_body b s = (None, b', s')" by (simp add: msg_feed_in_body)
    have "s \<noteq> [] \<longrightarrow> length s' < length s"
      using mb r nb inv True by (auto simp: msg_body_def msg_inv_def Let_def split: if_splits)
    with msg_body_grow_done [OF mb nb(1) r, of ext] msg_body_ready_inv [OF mb r nb]
    show ?thesis using inv True by (simp add: msg_feed_in_body)
  next
    case False
    note header = msg_feed_in_header [OF inv False]
    obtain n got where u: "unpack s = Unpacked n got" and le: "unat n \<le> mb_max b"
      and mb: "msg_body (msg_sized b n) (drop got s) = (None, b', s')"
      using f r nb by (cases "unpack s") (auto simp: header split: if_splits)
    have n': "\<not> mb_ready (msg_sized b n)" "u_nested (sb_unit (mb_msg (msg_sized b n))) = []"
      using nb by (simp_all add: msg_sized_def string_set_size_def)
    have u': "unpack (s @ ext) = Unpacked n got" and d: "drop got (s @ ext) = drop got s @ ext"
      and got: "0 < got" "got \<le> length s"
      using u unpack_append [of s ext] unpack_got [OF u] by auto
    have "length s' < length s" using msg_body_consumes [OF mb] got by simp
    with msg_body_grow_done [OF mb n'(1) r, of ext] msg_body_ready_inv [OF mb r n'] u' d le
    show ?thesis by (simp add: header)
  qed
qed

lemma msg_feed_error:
  assumes inv: "msg_inv b" and f: "msg_feed b s = (Some e, b', s')"
  shows "msg_feed b (s @ ext) = (Some e, b', s' @ ext)"
proof (cases "integer_ready (mb_size b)")
  case True
  with inv f show ?thesis by (simp add: msg_feed_in_body msg_body_no_error)
next
  case False
  note header = msg_feed_in_header [OF inv False]
  show ?thesis
    using f header [of s] header [of "s @ ext"] unpack_append [of s ext] unpack_got [of s]
    by (cases "unpack s") (simp_all add: msg_body_no_error split: if_splits)
qed

interpretation msg: streaming_protocol msg_protocol msg_inv
proof unfold_locales
  fix b b' s s'
  show "msg_inv b \<Longrightarrow> \<not> ub_ready msg_protocol b"
    by (simp add: msg_protocol_def msg_inv_def)
  show "msg_inv b \<Longrightarrow> ub_feed msg_protocol b s = (None, b', s') \<Longrightarrow>
      \<not> ub_ready msg_protocol b' \<Longrightarrow> msg_inv b'"
    using msg_feed_more by (simp add: msg_protocol_def)
  show "msg_inv b \<Longrightarrow> s \<noteq> [] \<Longrightarrow> ub_feed msg_protocol b s = (None, b', s') \<Longrightarrow>
      ub_ready msg_protocol b' \<Longrightarrow> length s' < length s"
    using msg_feed_done by (simp add: msg_protocol_def)
  show "msg_inv b \<Longrightarrow> ub_feed msg_protocol b s = (None, b', s') \<Longrightarrow>
      ub_ready msg_protocol b' \<Longrightarrow> msg_inv (ub_reset msg_protocol b')"
    using msg_feed_done by (simp add: msg_protocol_def)
qed (simp_all add: msg_protocol_def msg_feed_more msg_feed_done msg_feed_error)

subsection \<open>Delimited streams\<close>

definition dstream_inv :: "dstream_builder \<Rightarrow> bool" where
  "dstream_inv b \<longleftrightarrow> db_delimeter b \<noteq> [] \<and> \<not> dstream_ready b \<and> u_nested (db_unit b) = []"

lemma dstream_feed_cases:
  assumes "dstream_inv b"
  shows "dstream_feed b s =
    (case find_sub (db_delimeter b) s of
       None \<Rightarrow> (None, b, s)
     | Some i \<Rightarrow> (None, b\<lparr>db_unit := set_string (take i s) True (db_unit b)\<rparr>,
                  drop (i + length (db_delimeter b)) s))"
  using assms by (simp add: dstream_inv_def dstream_feed_def substr_def split: option.split)

interpretation dstream: streaming_protocol dstream_protocol dstream_inv
proof unfold_locales
  fix b b' :: dstream_builder and s s' ext :: string and e :: srv_error
  assume inv: "dstream_inv b"
  note cases = dstream_feed_cases [OF inv]
  show "\<not> ub_ready dstream_protocol b"
    using inv by (simp add: dstream_protocol_def dstream_inv_def)
  {
    assume f: "ub_feed dstream_protocol b s = (None, b', s')"
    {
      assume r: "\<not> ub_ready dstream_protocol b'"
      then have "b' = b \<and> s' = s"
        using f by (auto simp: dstream_protocol_def cases dstream_ready_def split: option.splits)
      then show "dstream_inv b'"
        and "ub_feed dstream_protocol b (s @ ext) = ub_feed dstream_protocol b' (s' @ ext)"
        using inv by auto
    }
    {
      assume r: "ub_ready dstream_protocol b'"
      then obtain i where i: "find_sub (db_delimeter b) s = Some i"
        and b': "b' = b\<lparr>db_unit := set_string (take i s) True (db_unit b)\<rparr>"
        and s': "s' = drop (i + length (db_delimeter b)) s"
        using f inv by (auto simp: dstream_protocol_def cases dstream_inv_def split: option.splits)
      have len: "i + length (db_delimeter b) \<le> length s" by (rule find_sub_Some_len [OF i])
      have ne: "db_delimeter b \<noteq> []" using inv by (simp add: dstream_inv_def)
      show "s \<noteq> [] \<Longrightarrow> length s' < length s"
        using s' len ne by (cases "db_delimeter b") auto
      show "dstream_inv (ub_reset dstream_protocol b')"
        using b' inv by (simp add: dstream_inv_def dstream_protocol_def dstream_reset_def dstream_ready_def)
      show "ub_feed dstream_protocol b (s @ ext) = (None, b', s' @ ext)"
        using len find_sub_append [OF i] b' s'
        by (simp add: dstream_protocol_def dstream_feed_cases [OF inv])
    }
  }
  show "ub_feed dstream_protocol b s = (Some e, b', s') \<Longrightarrow>
      ub_feed dstream_protocol b (s @ ext) = (Some e, b', s' @ ext)"
    by (simp add: dstream_protocol_def cases split: option.splits)
qed

subsection \<open>Raw chunks\<close>

definition raw_inv :: "raw_builder \<Rightarrow> bool" where
  "raw_inv b \<longleftrightarrow> rb_buffer b = []"

text \<open>Raw chunks are consumed, but their borders are those of the calls.\<close>

interpretation raw: consuming_protocol raw_protocol raw_inv
  by unfold_locales
    (auto simp: raw_protocol_def raw_inv_def raw_ready_def raw_feed_def raw_reset_def split: if_splits)

subsection \<open>Framing\<close>

text \<open>What a sender puts on the wire for one message, and the unit the receiver builds.\<close>

definition msg_encode :: "nat \<Rightarrow> string \<Rightarrow> string result" where
  "msg_encode mx s = rbind (msg_create (msg_builder_new mx) s) (\<lambda>u. Inr (to_network u))"

definition msg_unit :: "string \<Rightarrow> net_unit" where
  "msg_unit s = (if s = [] then unit_bool True else unit_string s True)"

definition msg_start :: "nat \<Rightarrow> msg_builder \<Rightarrow> bool" where
  "msg_start mx b \<longleftrightarrow> msg_inv b \<and> mb_max b = mx \<and> \<not> integer_ready (mb_size b)"

lemma msg_start_new [inv_intros]: "msg_start mx (msg_builder_new mx)"
  using msg_inv_new [of mx]
  by (simp add: msg_start_def msg_builder_new_def integer_builder_new_def integer_ready_def unit_simps)

lemma msg_encode_eq:
  "msg_encode mx s = Inr w \<longleftrightarrow>
   length s \<le> mx \<and> length s \<le> 2 ^ 32 - 1 \<and> w = pack (word_of_nat (length s)) @ s"
  by (auto simp: msg_encode_def msg_create_def msg_builder_new_def string_create_def to_network_append)

lemma msg_feed_wire:
  assumes st: "msg_start mx b" and w: "msg_encode mx s = Inr w"
  shows "\<exists>b'. msg_feed b (w @ rest) = (None, b', rest) \<and> mb_ready b' \<and> msg_get b' = msg_unit s \<and>
    msg_start mx (msg_reset b')"
proof -
  let ?n = "word_of_nat (length s) :: 32 word"
  let ?m = "string_set_size (length s) (mb_msg b)"
  let ?b = "msg_sized b ?n\<lparr>mb_ready := True, mb_msg := ?m\<lparr>sb_ready := True,
              sb_unit := deliver_string s (sb_unit ?m), sb_buffer := []\<rparr>\<rparr>"
  from st have inv: "msg_inv b" "\<not> integer_ready (mb_size b)" by (auto simp: msg_start_def)
  from w st have len: "length s \<le> mb_max b" and w': "w = pack ?n @ s" and "length s < 2 ^ 32"
    by (auto simp: msg_encode_eq msg_start_def)
  then have un: "unat ?n = length s"
    by (simp add: unat_of_nat take_bit_nat_eq_self)
  have nn: "u_nested (sb_unit (mb_msg b)) = []" "sb_buffer (mb_msg b) = []"
    using inv by (auto simp: msg_inv_def)
  have f: "msg_feed b (w @ rest) = (None, ?b, rest)"
    using len nn msg_feed_in_header [OF inv, of "w @ rest"]
    by (simp add: w' unpack_pack un msg_body_def msg_sized_def string_set_size_def Let_def)
  have "msg_get ?b = msg_unit s"
    using nn by (auto simp: msg_get_def string_get_def string_set_size_def deliver_string_def msg_unit_def
        unit_simps)
  moreover have "msg_inv (msg_reset ?b)"
    using msg_feed_done [OF inv(1) f] by simp
  then have "msg_start mx (msg_reset ?b)"
    using st by (simp add: msg_start_def msg_reset_def msg_sized_def)
  ultimately show ?thesis using f by auto
qed

interpretation msg_frames: framed_protocol msg_protocol msg_inv "msg_start mx" "msg_encode mx" msg_unit
  for mx
proof unfold_locales
  fix b x w rest
  show "msg_start mx b \<Longrightarrow> msg_inv b" by (simp add: msg_start_def)
  show "msg_start mx b \<Longrightarrow> msg_encode mx x = Inr w \<Longrightarrow> w \<noteq> []" by (simp add: msg_encode_eq)
  show "msg_start mx b \<Longrightarrow> msg_encode mx x = Inr w \<Longrightarrow>
    \<exists>b'. ub_feed msg_protocol b (w @ rest) = (None, b', rest) \<and> ub_ready msg_protocol b' \<and>
         ub_get msg_protocol b' = msg_unit x \<and> msg_start mx (ub_reset msg_protocol b')"
    using msg_feed_wire [of mx b x w rest] by (simp add: msg_protocol_def)
qed

text \<open>
  A line can be framed by a delimiter when the delimiter occurs in the line followed by it
  only at the end.
\<close>

definition dstream_encode :: "string \<Rightarrow> string \<Rightarrow> string result" where
  "dstream_encode d s =
     rbind (dstream_create (dstream_builder_new d) s)
       (\<lambda>u. if find_sub d (s @ d) = Some (length s) then Inr (to_network u)
            else Inl (Failure ''the delimiter occurs in the line''))"

definition dstream_start :: "string \<Rightarrow> dstream_builder \<Rightarrow> bool" where
  "dstream_start d b \<longleftrightarrow> dstream_inv b \<and> db_delimeter b = d \<and> d = takeWhile (\<lambda>c. c \<noteq> CHR 0x00) d"

lemma dstream_encode_eq:
  assumes "dstream_start d b"
  shows "dstream_encode d s = Inr w \<longleftrightarrow> find_sub d (s @ d) = Some (length s) \<and> w = s @ d"
  using assms by (auto simp: dstream_encode_def dstream_create_def dstream_builder_new_def dstream_start_def)

lemma dstream_feed_wire:
  assumes st: "dstream_start d b" and w: "dstream_encode d s = Inr w"
  shows "\<exists>b'. dstream_feed b (w @ rest) = (None, b', rest) \<and> dstream_ready b' \<and>
    dstream_get b' = unit_string s True \<and> dstream_start d (dstream_reset b')"
proof -
  from st have inv: "dstream_inv b" and d: "db_delimeter b = d" by (auto simp: dstream_start_def)
  have w': "w = s @ d" and "find_sub d (s @ d) = Some (length s)"
    using w dstream_encode_eq [OF st] by auto
  with find_sub_append have "find_sub d (w @ rest) = Some (length s)" by blast
  then have "dstream_feed b (w @ rest) = (None, b\<lparr>db_unit := set_string s True (db_unit b)\<rparr>, rest)"
    using dstream_feed_cases [OF inv, of "w @ rest"] by (simp add: d w')
  then show ?thesis
    using st inv
    by (auto simp: dstream_inv_def dstream_start_def dstream_ready_def dstream_get_def dstream_reset_def
        unit_simps)
qed

interpretation dstream_frames: framed_protocol dstream_protocol dstream_inv "dstream_start d"
    "dstream_encode d" "\<lambda>s. unit_string s True"
  for d
proof unfold_locales
  fix b x w rest
  show "dstream_start d b \<Longrightarrow> dstream_inv b" by (simp add: dstream_start_def)
  show "dstream_start d b \<Longrightarrow> dstream_encode d x = Inr w \<Longrightarrow> w \<noteq> []"
    using dstream_encode_eq [of d b x w] by (auto simp: dstream_start_def dstream_inv_def)
  show "dstream_start d b \<Longrightarrow> dstream_encode d x = Inr w \<Longrightarrow>
    \<exists>b'. ub_feed dstream_protocol b (w @ rest) = (None, b', rest) \<and> ub_ready dstream_protocol b' \<and>
         ub_get dstream_protocol b' = unit_string x True \<and>
         dstream_start d (ub_reset dstream_protocol b')"
    using dstream_feed_wire [of d b x w rest] by (simp add: dstream_protocol_def)
qed

end
