(* ===== verification/Unit_Builder_Manager.thy ===== *)
theory Unit_Builder_Manager
  imports Builders
begin

text \<open>
  \<open>unit_builder_manager\<close> (src/network/unit_builder_manager.cpp): the buffer of bytes
  received, the builder of the protocol and the queue of units built. The loop of
  \<open>operator<<\<close> ends only when the builder stops completing units, so it is a
  \<open>partial_function\<close>: \<open>None\<close> is a call that does not return. The contracts of
  \<open>Builder_Interface\<close> give that it returns, and that the way the stream is cut into
  calls does not matter.
\<close>

section \<open>State and operations\<close>

record 'b manager =
  um_buffer :: string
  um_builder :: "'b option"
  um_replies :: "net_unit list"

definition mgr_new :: "'b option \<Rightarrow> 'b manager" where
  "mgr_new b = \<lparr>um_buffer = [], um_builder = b, um_replies = []\<rparr>"

definition mgr_set_builder :: "'b option \<Rightarrow> 'b manager \<Rightarrow> 'b manager result" where
  "mgr_set_builder b m = srv_assert (b \<noteq> None) ''builder'' (Inr (m\<lparr>um_builder := b\<rparr>))"

definition mgr_builder :: "'b manager \<Rightarrow> 'b result" where
  "mgr_builder m = (case um_builder m of None \<Rightarrow> Inl (Logic_error ''_builder'') | Some b \<Rightarrow> Inr b)"

definition mgr_reset :: "'b manager \<Rightarrow> 'b manager" where
  "mgr_reset m = m\<lparr>um_buffer := []\<rparr>"

text \<open>\<open>build_unit\<close>: the exception if any, whether a unit was completed, and the state.\<close>

definition mgr_build_unit ::
    "'b unit_builder_i \<Rightarrow> 'b manager \<Rightarrow> srv_error option \<times> bool \<times> 'b manager" where
  "mgr_build_unit vt m =
     (if um_buffer m = [] then (None, False, m)
      else case um_builder m of
        None \<Rightarrow> (Some (Logic_error ''_builder''), False, m)
      | Some b \<Rightarrow>
          (case ub_feed vt b (um_buffer m) of
             (Some e, b1, buf) \<Rightarrow> (Some e, False, m\<lparr>um_builder := Some b1, um_buffer := buf\<rparr>)
           | (None, b1, buf) \<Rightarrow>
               if ub_ready vt b1 then
                 (None, True, m\<lparr>um_builder := Some (ub_reset vt b1), um_buffer := buf,
                                um_replies := um_replies m @ [ub_get vt b1]\<rparr>)
               else (None, False, m\<lparr>um_builder := Some b1, um_buffer := buf\<rparr>)))"

partial_function (option) mgr_drain ::
    "'b unit_builder_i \<Rightarrow> 'b manager \<Rightarrow> (srv_error option \<times> 'b manager) option" where
  "mgr_drain vt m =
     (case mgr_build_unit vt m of
        (Some e, again, m1) \<Rightarrow> Some (Some e, m1)
      | (None, again, m1) \<Rightarrow> if again then mgr_drain vt m1 else Some (None, m1))"

definition mgr_feed ::
    "'b unit_builder_i \<Rightarrow> string \<Rightarrow> 'b manager \<Rightarrow> (srv_error option \<times> 'b manager) option" where
  "mgr_feed vt data m = mgr_drain vt (m\<lparr>um_buffer := um_buffer m @ data\<rparr>)"

definition mgr_receive_available :: "'b manager \<Rightarrow> bool" where
  "mgr_receive_available m = (um_replies m \<noteq> [])"

definition mgr_get_front :: "'b manager \<Rightarrow> net_unit result" where
  "mgr_get_front m =
     srv_assert (mgr_receive_available m) ''No available unit'' (Inr (hd (um_replies m)))"

definition mgr_pop_front :: "'b manager \<Rightarrow> 'b manager result" where
  "mgr_pop_front m =
     srv_assert (mgr_receive_available m) ''No available unit''
       (Inr (m\<lparr>um_replies := tl (um_replies m)\<rparr>))"

text \<open>Several calls of \<open>operator<<\<close> in a row; the first that throws ends them.\<close>

fun mgr_feed_all ::
    "'b unit_builder_i \<Rightarrow> string list \<Rightarrow> 'b manager \<Rightarrow> (srv_error option \<times> 'b manager) option" where
  "mgr_feed_all vt [] m = Some (None, m)"
| "mgr_feed_all vt (d # ds) m =
     (case mgr_feed vt d m of
        None \<Rightarrow> None
      | Some (Some e, m1) \<Rightarrow> Some (Some e, m1)
      | Some (None, m1) \<Rightarrow> mgr_feed_all vt ds m1)"

section \<open>The loop under the contracts\<close>

lemma mgr_drain_Nil [simp]: "um_buffer m = [] \<Longrightarrow> mgr_drain vt m = Some (None, m)"
  by (subst mgr_drain.simps) (simp add: mgr_build_unit_def)

lemma mgr_drain_more:
  "mgr_build_unit vt m = (None, True, m1) \<Longrightarrow> mgr_drain vt m = mgr_drain vt m1"
  by (subst mgr_drain.simps) simp

lemma mgr_drain_stop:
  "mgr_build_unit vt m = (None, False, m1) \<Longrightarrow> mgr_drain vt m = Some (None, m1)"
  by (subst mgr_drain.simps) simp

lemma mgr_drain_error:
  "mgr_build_unit vt m = (Some e, x, m1) \<Longrightarrow> mgr_drain vt m = Some (Some e, m1)"
  by (subst mgr_drain.simps) simp

definition mgr_inv :: "('b \<Rightarrow> bool) \<Rightarrow> 'b manager \<Rightarrow> bool" where
  "mgr_inv P m = (case um_builder m of None \<Rightarrow> True | Some b \<Rightarrow> P b)"

lemma mgr_inv_buffer [simp]:
  "mgr_inv P (m\<lparr>um_buffer := s\<rparr>) = mgr_inv P m"
  "mgr_inv P (m\<lparr>um_replies := r\<rparr>) = mgr_inv P m"
  by (simp_all add: mgr_inv_def)

context consuming_protocol
begin

lemma build_unit_more:
  assumes "mgr_inv inv m" and "mgr_build_unit vt m = (None, True, m1)"
  shows "mgr_inv inv m1 \<and> length (um_buffer m1) < length (um_buffer m)"
  using assms done_consumes done_inv
  by (auto simp: mgr_build_unit_def mgr_inv_def split: if_splits option.splits prod.splits)

lemma build_unit_stop:
  assumes "mgr_inv inv m" and "mgr_build_unit vt m = (None, False, m1)"
  shows "mgr_inv inv m1"
  using assms more_inv
  by (auto simp: mgr_build_unit_def mgr_inv_def split: if_splits option.splits prod.splits)

lemma drain_returns:
  "mgr_inv inv m \<Longrightarrow> \<exists>eo m1. mgr_drain vt m = Some (eo, m1) \<and> (eo = None \<longrightarrow> mgr_inv inv m1)"
proof (induction "length (um_buffer m)" arbitrary: m rule: less_induct)
  case less
  obtain eo again m1 where b: "mgr_build_unit vt m = (eo, again, m1)" by (cases "mgr_build_unit vt m")
  show ?case
  proof (cases eo)
    case (Some e)
    with b show ?thesis by (simp add: mgr_drain_error)
  next
    case None
    with b less.hyps [of m1] less.prems show ?thesis
      using build_unit_more [of m m1] build_unit_stop [of m m1]
      by (cases again) (auto simp: mgr_drain_more mgr_drain_stop)
  qed
qed

lemma feed_returns:
  "mgr_inv inv m \<Longrightarrow>
   \<exists>eo m1. mgr_feed vt d m = Some (eo, m1) \<and> (eo = None \<longrightarrow> mgr_inv inv m1)"
  using drain_returns by (simp add: mgr_feed_def)

lemma feed_all_returns:
  "mgr_inv inv m \<Longrightarrow> \<exists>eo m1. mgr_feed_all vt ds m = Some (eo, m1)"
proof (induction ds arbitrary: m)
  case (Cons d ds)
  from feed_returns [OF Cons.prems, of d] obtain eo m1
    where "mgr_feed vt d m = Some (eo, m1)" "eo = None \<longrightarrow> mgr_inv inv m1" by blast
  with Cons.IH [of m1] show ?case by (cases eo) auto
qed simp

end

context streaming_protocol
begin

abbreviation longer :: "string \<Rightarrow> 'b manager \<Rightarrow> 'b manager" where
  "longer ext m \<equiv> m\<lparr>um_buffer := um_buffer m @ ext\<rparr>"

lemma build_unit_longer_more:
  assumes "mgr_inv inv m" and "mgr_build_unit vt m = (None, True, m1)"
  shows "mgr_build_unit vt (longer ext m) = (None, True, longer ext m1)"
  using assms grow_done
  by (auto simp: mgr_build_unit_def mgr_inv_def split: if_splits option.splits prod.splits)

lemma build_unit_longer_error:
  assumes "mgr_inv inv m" and "mgr_build_unit vt m = (Some e, x, m1)"
  shows "mgr_build_unit vt (longer ext m) = (Some e, x, longer ext m1)"
  using assms grow_error
  by (auto simp: mgr_build_unit_def mgr_inv_def split: if_splits option.splits prod.splits)

lemma build_unit_longer_stop:
  assumes "mgr_inv inv m" and "mgr_build_unit vt m = (None, False, m1)"
  shows "mgr_drain vt (longer ext m) = mgr_drain vt (longer ext m1)"
proof (cases "um_buffer m = [] \<or> ext = [] \<and> um_buffer m1 = []")
  case True
  with assms(2) show ?thesis
    by (auto simp: mgr_build_unit_def mgr_drain_stop)
next
  case False
  then obtain b b1 buf where b: "um_builder m = Some b" "um_buffer m \<noteq> []"
    and f: "ub_feed vt b (um_buffer m) = (None, b1, buf)" "\<not> ub_ready vt b1"
    and m1: "m1 = m\<lparr>um_builder := Some b1, um_buffer := buf\<rparr>"
    using assms(2) by (auto simp: mgr_build_unit_def split: if_splits option.splits prod.splits)
  have "ub_feed vt b (um_buffer m @ ext) = ub_feed vt b1 (buf @ ext)"
    using assms(1) b f grow_more by (simp add: mgr_inv_def)
  moreover have "\<not> (buf = [] \<and> ext = [])" using False b m1 by auto
  ultimately have "mgr_build_unit vt (longer ext m) = mgr_build_unit vt (longer ext m1)"
    using b
    by (cases m; cases "ub_feed vt b1 (buf @ ext)") (auto simp: mgr_build_unit_def m1 split: option.split)
  then show ?thesis
    by (simp add: mgr_drain.simps [of vt "longer ext m"] mgr_drain.simps [of vt "longer ext m1"])
qed

lemma drain_longer:
  "mgr_inv inv m \<Longrightarrow> mgr_drain vt m = Some (eo, m1) \<Longrightarrow>
   mgr_drain vt (longer ext m) =
     (if eo = None then mgr_drain vt (longer ext m1) else Some (eo, longer ext m1))"
proof (induction "length (um_buffer m)" arbitrary: m rule: less_induct)
  case less
  obtain eo' again m2 where b: "mgr_build_unit vt m = (eo', again, m2)" by (cases "mgr_build_unit vt m")
  show ?case
  proof (cases eo')
    case (Some e)
    with b less.prems build_unit_longer_error [of m e again m2] show ?thesis
      by (auto simp: mgr_drain_error)
  next
    case None
    show ?thesis
    proof (cases again)
      case True
      with b None less.prems build_unit_more [of m m2] build_unit_longer_more [of m m2]
        less.hyps [of m2]
      show ?thesis by (simp add: mgr_drain_more)
    next
      case False
      with b None less.prems build_unit_longer_stop [of m m2] show ?thesis
        by (auto simp: mgr_drain_stop)
    qed
  qed
qed

text \<open>Two calls do what one call with both pieces does; a failure keeps the rest unread.\<close>

lemma feed_feed:
  assumes "mgr_inv inv m" and "mgr_feed vt x m = Some (eo, m1)"
  shows "mgr_feed vt (x @ y) m =
    (if eo = None then mgr_feed vt y m1 else Some (eo, m1\<lparr>um_buffer := um_buffer m1 @ y\<rparr>))"
  using drain_longer [of "m\<lparr>um_buffer := um_buffer m @ x\<rparr>" eo m1 y] assms
  by (simp add: mgr_feed_def)

lemma feed_all_concat:
  "mgr_inv inv m \<Longrightarrow> mgr_feed vt (concat ds) m = Some (None, m1) \<Longrightarrow>
   ds \<noteq> [] \<Longrightarrow> mgr_feed_all vt ds m = Some (None, m1)"
proof (induction ds arbitrary: m)
  case (Cons d ds)
  from feed_returns [OF Cons.prems(1), of d] obtain eo m2
    where f: "mgr_feed vt d m = Some (eo, m2)" and inv2: "eo = None \<longrightarrow> mgr_inv inv m2" by blast
  from feed_feed [OF Cons.prems(1) f, of "concat ds"] Cons.prems(2)
  have "eo = None" and f2: "mgr_feed vt (concat ds) m2 = Some (None, m1)"
    by (auto split: if_splits)
  show ?case
  proof (cases "ds = []")
    case True
    have "mgr_feed vt [] m2 = mgr_feed vt d m"
      using feed_feed [OF Cons.prems(1) f, of "[]"] \<open>eo = None\<close> by simp
    with True f f2 \<open>eo = None\<close> show ?thesis by simp
  next
    case False
    with Cons.IH [OF _ f2] f inv2 \<open>eo = None\<close> show ?thesis by simp
  qed
qed simp

end

context framed_protocol
begin

definition mgr_between :: "'b manager \<Rightarrow> bool" where
  "mgr_between m \<longleftrightarrow> (\<exists>b. um_builder m = Some b \<and> start b)"

lemma mgr_between_inv: "mgr_between m \<Longrightarrow> mgr_inv inv m"
  by (auto simp: mgr_between_def mgr_inv_def start_inv)

lemma drain_frame:
  assumes "mgr_between m" and "encode x = Inr w" and "um_buffer m = w @ rest"
  shows "\<exists>m1. mgr_drain vt m = mgr_drain vt m1 \<and> mgr_between m1 \<and> um_buffer m1 = rest \<and>
    um_replies m1 = um_replies m @ [decode x]"
proof -
  obtain b where b: "um_builder m = Some b" "start b" using assms(1) by (auto simp: mgr_between_def)
  obtain b' where f: "ub_feed vt b (w @ rest) = (None, b', rest)" "ub_ready vt b'"
      "ub_get vt b' = decode x" "start (ub_reset vt b')"
    using delivers [OF b(2) assms(2)] by blast
  let ?m = "m\<lparr>um_builder := Some (ub_reset vt b'), um_buffer := rest,
              um_replies := um_replies m @ [decode x]\<rparr>"
  have "mgr_build_unit vt m = (None, True, ?m)"
    using b f assms(3) encode_nonempty [OF b(2) assms(2)] by (simp add: mgr_build_unit_def)
  then have "mgr_drain vt m = mgr_drain vt ?m" by (rule mgr_drain_more)
  moreover have "mgr_between ?m" using f by (simp add: mgr_between_def)
  ultimately show ?thesis by (intro exI [of _ ?m]) simp
qed

lemma drain_frames:
  "mgr_between m \<Longrightarrow> map encode xs = map Inr ws \<Longrightarrow> um_buffer m = concat ws \<Longrightarrow>
   \<exists>m1. mgr_drain vt m = Some (None, m1) \<and> mgr_between m1 \<and> um_buffer m1 = [] \<and>
     um_replies m1 = um_replies m @ map decode xs"
proof (induction xs arbitrary: m ws)
  case Nil
  then show ?case by auto
next
  case (Cons x xs)
  then obtain w ws' where ws: "ws = w # ws'" "encode x = Inr w" "map encode xs = map Inr ws'"
    by (cases ws) auto
  from drain_frame [OF Cons.prems(1) ws(2)] Cons.prems(3) ws(1)
  obtain m2 where "mgr_drain vt m = mgr_drain vt m2" "mgr_between m2" "um_buffer m2 = concat ws'"
    "um_replies m2 = um_replies m @ [decode x]" by auto
  with Cons.IH [OF _ ws(3), of m2] show ?case by auto
qed

text \<open>However the bytes of a sequence of frames are cut into reads, all of it arrives, in order.\<close>

lemma frames_arrive:
  assumes m: "mgr_between m" "um_buffer m = []" "um_replies m = []"
    and ws: "map encode xs = map Inr ws" and ds: "concat ds = concat ws"
  shows "\<exists>m1. mgr_feed_all vt ds m = Some (None, m1) \<and> um_buffer m1 = [] \<and> um_replies m1 = map decode xs"
proof (cases "ds = []")
  case True
  have "ws = []"
  proof (cases ws)
    case (Cons w ws')
    then obtain x where "encode x = Inr w" using ws by (cases xs) auto
    with Cons True ds m(1) encode_nonempty show ?thesis by (auto simp: mgr_between_def)
  qed
  with True ws m show ?thesis by simp
next
  case False
  obtain m1 where d: "mgr_feed vt (concat ds) m = Some (None, m1)" and r: "um_buffer m1 = []"
      "um_replies m1 = map decode xs"
    using drain_frames [of "m\<lparr>um_buffer := concat ws\<rparr>" xs ws] m ws ds
    by (auto simp: mgr_feed_def mgr_between_def)
  with feed_all_concat [OF mgr_between_inv [OF m(1)] d False] show ?thesis by blast
qed

end

section \<open>What the units delivered satisfy\<close>

text \<open>
  An invariant \<open>J\<close> of the builder that gives \<open>Q\<close> for each unit it completes gives \<open>Q\<close> for
  everything in the queue; this needs no termination.
\<close>

lemma mgr_build_unit_replies:
  assumes step: "\<And>b s b' s'. J b \<Longrightarrow> ub_feed vt b s = (None, b', s') \<Longrightarrow>
      (if ub_ready vt b' then Q (ub_get vt b') \<and> J (ub_reset vt b') else J b')"
    and "mgr_inv J m" and "\<forall>u \<in> set (um_replies m). Q u"
    and "mgr_build_unit vt m = (eo, c, m1)"
  shows "(\<forall>u \<in> set (um_replies m1). Q u) \<and> (eo = None \<longrightarrow> mgr_inv J m1)"
proof (cases "um_buffer m = [] \<or> um_builder m = None")
  case True
  with assms(2-4) show ?thesis by (auto simp: mgr_build_unit_def split: if_splits)
next
  case False
  then obtain b where b: "um_builder m = Some b" "um_buffer m \<noteq> []" by auto
  obtain eo' b' s' where f: "ub_feed vt b (um_buffer m) = (eo', b', s')"
    by (cases "ub_feed vt b (um_buffer m)")
  have "J b" using assms(2) b by (simp add: mgr_inv_def)
  with step [of b "um_buffer m" b' s'] assms(3,4) b f show ?thesis
    by (cases eo') (auto simp: mgr_build_unit_def mgr_inv_def split: if_splits)
qed

lemma mgr_drain_replies:
  assumes step: "\<And>b s b' s'. J b \<Longrightarrow> ub_feed vt b s = (None, b', s') \<Longrightarrow>
      (if ub_ready vt b' then Q (ub_get vt b') \<and> J (ub_reset vt b') else J b')"
    and "mgr_drain vt m = Some (eo, m1)" and "mgr_inv J m" and "\<forall>u \<in> set (um_replies m). Q u"
  shows "(\<forall>u \<in> set (um_replies m1). Q u) \<and> (eo = None \<longrightarrow> mgr_inv J m1)"
proof -
  have "(\<forall>u \<in> set (um_replies (snd r)). Q u) \<and> (fst r = None \<longrightarrow> mgr_inv J (snd r))"
    if "mgr_drain v m = Some r" "v = vt" "mgr_inv J m" "\<forall>u \<in> set (um_replies m). Q u" for v m r
    using that
  proof (induction v m r rule: mgr_drain.raw_induct [rotated, consumes 1, case_names 1])
    case (1 drain v m r)
    obtain eo c m2 where b: "mgr_build_unit vt m = (eo, c, m2)" by (cases "mgr_build_unit vt m")
    have "(\<forall>u \<in> set (um_replies m2). Q u) \<and> (eo = None \<longrightarrow> mgr_inv J m2)"
      by (rule mgr_build_unit_replies [of J vt Q m eo c m2, OF step "1.prems"(2,3) b])
    then show ?case
      using "1.IH" [of vt m2 r] "1.hyps" "1.prems" b
      by (cases eo) (auto split: if_splits)
  qed
  from this [OF assms(2) refl] assms(3,4) show ?thesis by simp
qed

lemma mgr_feed_all_replies:
  assumes step: "\<And>b s b' s'. J b \<Longrightarrow> ub_feed vt b s = (None, b', s') \<Longrightarrow>
      (if ub_ready vt b' then Q (ub_get vt b') \<and> J (ub_reset vt b') else J b')"
  shows "mgr_feed_all vt ds m = Some (eo, m1) \<Longrightarrow> mgr_inv J m \<Longrightarrow> \<forall>u \<in> set (um_replies m). Q u \<Longrightarrow>
    \<forall>u \<in> set (um_replies m1). Q u"
proof (induction ds arbitrary: m)
  case (Cons d ds)
  then obtain eo2 m2 where f: "mgr_feed vt d m = Some (eo2, m2)"
    by (auto split: option.splits prod.splits)
  from mgr_drain_replies [of J vt Q, OF step f [unfolded mgr_feed_def]] Cons.prems(2,3)
  have "\<forall>u \<in> set (um_replies m2). Q u" "eo2 = None \<longrightarrow> mgr_inv J m2" by auto
  with Cons f show ?case by (cases eo2) auto
qed simp

text \<open>Replies that wait already do not change what the manager does.\<close>

abbreviation prepend :: "net_unit list \<Rightarrow> 'b manager \<Rightarrow> 'b manager" where
  "prepend r m \<equiv> m\<lparr>um_replies := r @ um_replies m\<rparr>"

lemma build_unit_prepend:
  "mgr_build_unit vt m = (eo, c, m2) \<Longrightarrow> mgr_build_unit vt (prepend r m) = (eo, c, prepend r m2)"
  by (auto simp: mgr_build_unit_def split: if_splits option.splits prod.splits)

lemma drain_prepend:
  "mgr_drain vt m = Some res \<Longrightarrow> mgr_drain vt (prepend r m) = Some (fst res, prepend r (snd res))"
proof (induction vt m res rule: mgr_drain.raw_induct [rotated, consumes 1, case_names 1])
  case (1 drain vt m res)
  obtain eo c m2 where b: "mgr_build_unit vt m = (eo, c, m2)" by (cases "mgr_build_unit vt m")
  show ?case
    using build_unit_prepend [OF b, of r] "1.IH" [of vt m2 res] "1.hyps" b
    by (subst mgr_drain.simps) (cases eo; auto split: if_splits)
qed

lemma feed_prepend:
  "mgr_feed vt d m = Some (eo, m1) \<Longrightarrow> mgr_feed vt d (prepend r m) = Some (eo, prepend r m1)"
  using drain_prepend [of vt "m\<lparr>um_buffer := um_buffer m @ d\<rparr>" "(eo, m1)" r] by (cases m) (simp add: mgr_feed_def)

lemma feed_all_prepend:
  "mgr_feed_all vt ds m = Some (eo, m1) \<Longrightarrow> mgr_feed_all vt ds (prepend r m) = Some (eo, prepend r m1)"
proof (induction ds arbitrary: m)
  case (Cons d ds)
  then obtain eo2 m2 where f: "mgr_feed vt d m = Some (eo2, m2)"
    by (auto split: option.splits prod.splits)
  with Cons feed_prepend [OF f, of r] show ?case by (cases eo2) auto
qed simp

lemma drain_returns_prepend:
  "mgr_drain vt (prepend r m) = Some res \<Longrightarrow> mgr_drain vt m \<noteq> None"
proof -
  have "mgr_drain v n = Some res \<Longrightarrow> n = prepend r m \<Longrightarrow> mgr_drain v m \<noteq> None" for v n
  proof (induction v n res arbitrary: m rule: mgr_drain.raw_induct [rotated, consumes 1, case_names 1])
    case (1 drain v n res)
    obtain eo c m2 where b: "mgr_build_unit v m = (eo, c, m2)" by (cases "mgr_build_unit v m")
    show ?case
      using build_unit_prepend [OF b, of r] "1.IH" [of v "prepend r m2" res m2] "1.hyps" "1.prems" b
      by (subst mgr_drain.simps) (cases eo; auto split: if_splits)
  qed
  then show "mgr_drain vt (prepend r m) = Some res \<Longrightarrow> mgr_drain vt m \<noteq> None" by simp
qed

lemma feed_returns_prepend: "mgr_feed vt d (prepend r m) = Some res \<Longrightarrow> mgr_feed vt d m \<noteq> None"
  using drain_returns_prepend [of vt r "m\<lparr>um_buffer := um_buffer m @ d\<rparr>" res] by (cases m) (simp add: mgr_feed_def)

lemma feed_all_returns_prepend:
  "mgr_feed_all vt ds (prepend r m) = Some res \<Longrightarrow> mgr_feed_all vt ds m \<noteq> None"
proof (induction ds arbitrary: m)
  case (Cons d ds)
  then obtain eo m2 where f: "mgr_feed vt d m = Some (eo, m2)"
    using feed_returns_prepend [of vt d r m] by (auto split: option.splits prod.splits)
  with Cons feed_prepend [OF f, of r] show ?case by (cases eo) auto
qed simp

lemma msg_feed_limit:
  assumes "msg_inv b" and "msg_feed b s = (None, b', s')"
  shows "mb_max b' = mb_max b \<and>
    (mb_ready b' \<longrightarrow> (\<forall>t. as_string (msg_get b') = Inr t \<longrightarrow> length t \<le> mb_max b))"
proof -
  have body: "mb_max b' = mb_max c \<and>
      (mb_ready b' \<longrightarrow> (\<forall>t. as_string (msg_get b') = Inr t \<longrightarrow> length t \<le> mb_max c))"
    if "msg_body c d = (None, b', s')" "\<not> mb_ready c" "sb_size (mb_msg c) \<le> mb_max c"
      "length (sb_buffer (mb_msg c)) \<le> sb_size (mb_msg c)" for c d
    using that
    by (auto simp: msg_body_def Let_def msg_get_def string_get_def deliver_string_def as_string_def
        unit_simps split: if_splits)
  show ?thesis
  proof (cases "integer_ready (mb_size b)")
    case True
    with assms body [of b s] show ?thesis by (auto simp: msg_feed_in_body msg_inv_def)
  next
    case False
    show ?thesis
    proof (cases "unpack s")
      case (Unpacked n got)
      with assms False have le: "unat n \<le> mb_max b"
        and mb: "msg_body (msg_sized b n) (drop got s) = (None, b', s')"
        by (auto simp: msg_feed_in_header split: if_splits)
      have "sb_buffer (mb_msg b) = []" "\<not> mb_ready b" using assms(1) False by (auto simp: msg_inv_def)
      then show ?thesis
        using body [OF mb] le by (simp add: msg_sized_def string_set_size_def)
    qed (use assms False in \<open>auto simp: msg_feed_in_header msg_inv_def\<close>)
  qed
qed

lemma msg_step_limit:
  assumes "msg_inv b \<and> mb_max b = mx" and "ub_feed msg_protocol b s = (None, b', s')"
  shows "if ub_ready msg_protocol b'
    then (\<forall>t. as_string (ub_get msg_protocol b') = Inr t \<longrightarrow> length t \<le> mx) \<and>
         (msg_inv (ub_reset msg_protocol b') \<and> mb_max (ub_reset msg_protocol b') = mx)
    else msg_inv b' \<and> mb_max b' = mx"
  using assms msg_feed_limit [of b s b' s'] msg_feed_more [of b s b' s'] msg_feed_done [of b s b' s']
  by (auto simp: msg_protocol_def msg_reset_def)

section \<open>Properties\<close>

lemma mgr_new_simps [simp]:
  "um_buffer (mgr_new b) = []" "um_builder (mgr_new b) = b" "um_replies (mgr_new b) = []"
  by (simp_all add: mgr_new_def)

text \<open>C2: Message framing survives the transport: when every message respects the builder's
  limit, the receiver that is fed the senders' bytes in any pieces whatever returns from every
  call without an exception, has delivered exactly the messages in order, and keeps no byte.\<close>
theorem msg_stream_delivered:
  assumes "map (msg_encode mx) msgs = map Inr wires" and "concat chunks = concat wires"
  shows "\<exists>m. mgr_feed_all msg_protocol chunks (mgr_new (Some (msg_builder_new mx))) = Some (None, m) \<and>
    um_buffer m = [] \<and> um_replies m = map msg_unit msgs"
  by (rule msg_frames.frames_arrive)
    (use assms in \<open>auto simp: msg_frames.mgr_between_def msg_start_new\<close>)

theorem msg_stream_delivered_witness:
  "map (msg_encode 10) [''ab'', ''c''] = map Inr [pack 2 @ ''ab'', pack 1 @ ''c''] \<and>
   (\<exists>m. mgr_feed_all msg_protocol [pack 2, ''a'', ''b'' @ pack 1, ''c'']
          (mgr_new (Some (msg_builder_new 10))) = Some (None, m) \<and>
        um_buffer m = [] \<and> um_replies m = map msg_unit [''ab'', ''c''])"
proof
  show e: "map (msg_encode 10) [''ab'', ''c''] = map Inr [pack 2 @ ''ab'', pack 1 @ ''c'']"
    by (simp add: msg_encode_eq)
  show "\<exists>m. mgr_feed_all msg_protocol [pack 2, ''a'', ''b'' @ pack 1, ''c'']
          (mgr_new (Some (msg_builder_new 10))) = Some (None, m) \<and>
        um_buffer m = [] \<and> um_replies m = map msg_unit [''ab'', ''c'']"
    by (rule msg_stream_delivered [OF e]) simp
qed

text \<open>C4: The same for lines ended by a delimiter: lines in which the delimiter does not occur
  before their end arrive one by one, without the delimiter, however the bytes are cut.\<close>
theorem dstream_lines_delivered:
  assumes "d \<noteq> []" and "CHR 0x00 \<notin> set d"
    and "\<forall>l \<in> set ls. find_sub d (l @ d) = Some (length l)"
    and "concat chunks = concat (map (\<lambda>l. l @ d) ls)"
  shows "\<exists>m. mgr_feed_all dstream_protocol chunks (mgr_new (Some (dstream_builder_new d))) = Some (None, m) \<and>
    um_buffer m = [] \<and> um_replies m = map (\<lambda>l. unit_string l True) ls"
proof -
  have tw: "takeWhile (\<lambda>c. c \<noteq> CHR 0x00) d = d"
    using assms(2) by (auto simp: takeWhile_eq_all_conv)
  have st: "dstream_start d (dstream_builder_new d)"
    using assms(1) by (simp add: dstream_start_def dstream_builder_new_def tw dstream_inv_def
        dstream_ready_def unit_simps)
  have enc: "map (dstream_encode d) ls = map Inr (map (\<lambda>l. l @ d) ls)"
    using assms(3) dstream_encode_eq [OF st] by simp
  show ?thesis
    by (rule dstream_frames.frames_arrive [OF _ _ _ enc])
      (use st assms(4) in \<open>auto simp: dstream_frames.mgr_between_def\<close>)
qed

theorem dstream_lines_delivered_witness:
  "\<exists>m. mgr_feed_all dstream_protocol [''one'' @ [CR], NL # ''t'', ''wo'' @ [CR, NL]]
      (mgr_new (Some (dstream_builder_new [CR, NL]))) = Some (None, m) \<and>
    um_buffer m = [] \<and> um_replies m = map (\<lambda>l. unit_string l True) [''one'', ''two'']"
  by (rule dstream_lines_delivered) simp_all



text \<open>C5: operator<< returns (with or without an exception) for the message protocol, the raw
  protocol and every delimited protocol whose delimiter is not empty.\<close>
theorem manager_returns:
  assumes "d \<noteq> []" and "CHR 0x00 \<notin> set d"
  shows "mgr_feed_all msg_protocol chunks (mgr_new (Some (msg_builder_new mx))) \<noteq> None \<and>
    mgr_feed_all raw_protocol chunks (mgr_new (Some raw_builder_new)) \<noteq> None \<and>
    mgr_feed_all dstream_protocol chunks (mgr_new (Some (dstream_builder_new d))) \<noteq> None"
proof -
  have tw: "takeWhile (\<lambda>c. c \<noteq> CHR 0x00) d = d"
    using assms(2) by (auto simp: takeWhile_eq_all_conv)
  have "mgr_inv msg_inv (mgr_new (Some (msg_builder_new mx)))"
    by (simp add: mgr_inv_def msg_inv_new)
  moreover have "mgr_inv raw_inv (mgr_new (Some raw_builder_new))"
    by (simp add: mgr_inv_def raw_inv_def raw_builder_new_def)
  moreover have "mgr_inv dstream_inv (mgr_new (Some (dstream_builder_new d)))"
    using assms(1)
    by (simp add: mgr_inv_def dstream_inv_def dstream_builder_new_def tw dstream_ready_def unit_simps)
  ultimately show ?thesis
    using msg.feed_all_returns raw.feed_all_returns dstream.feed_all_returns by fastforce
qed

theorem manager_returns_witness:
  "mgr_feed_all dstream_protocol [''ab''] (mgr_new (Some (dstream_builder_new ''x''))) \<noteq> None"
  using manager_returns [of "''x''" "[''ab'']"] by simp

text \<open>C6: Whatever bytes a peer sends, and whether or not the stream ends in an exception, no unit
  that reaches the queue is longer than the limit the message builder was made with.\<close>
theorem msg_limit_enforced:
  assumes "mgr_feed_all msg_protocol chunks (mgr_new (Some (msg_builder_new mx))) = Some (eo, m)"
    and "u \<in> set (um_replies m)" and "as_string u = Inr t"
  shows "length t \<le> mx"
proof -
  have "\<forall>u \<in> set (um_replies m). \<forall>t. as_string u = Inr t \<longrightarrow> length t \<le> mx"
    by (rule mgr_feed_all_replies [of "\<lambda>b. msg_inv b \<and> mb_max b = mx" msg_protocol, OF msg_step_limit assms(1)])
      (auto simp: mgr_inv_def msg_inv_new, simp add: msg_builder_new_def)
  with assms(2,3) show ?thesis by blast
qed

theorem msg_limit_enforced_witness:
  "\<exists>m. mgr_feed_all msg_protocol [pack 2 @ ''ab''] (mgr_new (Some (msg_builder_new 10))) = Some (None, m) \<and>
    unit_string ''ab'' True \<in> set (um_replies m) \<and> length ''ab'' \<le> (10 :: nat)"
proof -
  have e: "map (msg_encode 10) [''ab''] = map Inr [pack 2 @ ''ab'']"
    by (simp add: msg_encode_eq)
  have "\<exists>m. mgr_feed_all msg_protocol [pack 2 @ ''ab''] (mgr_new (Some (msg_builder_new 10))) = Some (None, m) \<and>
      um_buffer m = [] \<and> um_replies m = map msg_unit [''ab'']"
    by (rule msg_frames.frames_arrive [OF _ _ _ e]) (simp_all add: msg_frames.mgr_between_def msg_start_new)
  then obtain m where
      f: "mgr_feed_all msg_protocol [pack 2 @ ''ab''] (mgr_new (Some (msg_builder_new 10))) = Some (None, m)"
    and r: "unit_string ''ab'' True \<in> set (um_replies m)" by (auto simp: msg_unit_def)
  have "as_string (unit_string ''ab'' True) = Inr ''ab''" by (simp add: as_string_def unit_simps)
  with msg_limit_enforced [OF f r] f r show ?thesis by blast
qed

text \<open>
  A size header above the limit stops the stream with the assertion of msg_builder before
  a byte of the body is looked at: nothing is delivered and the rest stays in the buffer.\<close>
lemma msg_oversized_rejected:
  assumes "mx < unat n"
  shows "\<exists>m. mgr_feed msg_protocol (pack n @ rest) (mgr_new (Some (msg_builder_new mx))) =
      Some (Some (Logic_error ''sz <= _msg_max_size''), m) \<and>
    um_replies m = [] \<and> um_buffer m = rest"
proof -
  have f: "ub_feed msg_protocol (msg_builder_new mx) (pack n @ rest) =
      (Some (Logic_error ''sz <= _msg_max_size''), msg_too_big (msg_builder_new mx) n, rest)"
    using assms msg_start_new [of mx] msg_feed_in_header [of "msg_builder_new mx" "pack n @ rest"]
    by (simp add: msg_protocol_def msg_start_def unpack_pack)
  show ?thesis
    by (simp add: mgr_feed_def mgr_drain.simps mgr_build_unit_def f)
qed

lemma msg_oversized_rejected_witness:
  "\<exists>m. mgr_feed msg_protocol (pack 11 @ ''abc'') (mgr_new (Some (msg_builder_new 10))) =
      Some (Some (Logic_error ''sz <= _msg_max_size''), m) \<and>
    um_replies m = [] \<and> um_buffer m = ''abc''"
  by (rule msg_oversized_rejected) simp

text \<open>
  With an empty delimiter dstream_builder completes a unit without consuming a byte, so
  operator<< never returns once a byte has been received.\<close>
lemma dstream_empty_delimiter_diverges:
  assumes "data \<noteq> []"
  shows "mgr_feed dstream_protocol data (mgr_new (Some (dstream_builder_new []))) = None"
proof -
  have False
    if "mgr_drain v m = Some r" "v = dstream_protocol" "um_buffer m \<noteq> []"
      "um_builder m = Some b" "db_delimeter b = []" "\<not> dstream_ready b" for v m r b
    using that
  proof (induction v m r arbitrary: b rule: mgr_drain.raw_induct [rotated, consumes 1, case_names 1])
    case (1 drain v m r)
    have "find_sub [] s = Some 0" for s by (cases s) auto
    then have "mgr_build_unit dstream_protocol m =
        (None, True, m\<lparr>um_builder := Some (b\<lparr>db_unit := set_bool False (db_unit b)\<rparr>),
                       um_replies := um_replies m @ [set_string [] True (db_unit b)]\<rparr>)"
      using "1.prems"
      by (simp add: mgr_build_unit_def dstream_protocol_def dstream_feed_def substr_def dstream_ready_def
          dstream_get_def dstream_reset_def set_bool_def set_string_def unit_ok_def is_error_def)
    then have "drain dstream_protocol
        (m\<lparr>um_builder := Some (b\<lparr>db_unit := set_bool False (db_unit b)\<rparr>),
           um_replies := um_replies m @ [set_string [] True (db_unit b)]\<rparr>) = Some r"
      using "1.hyps" "1.prems"(1) by simp
    from "1.IH" [OF this refl] "1.prems" show ?case
      by (simp add: dstream_ready_def)
  qed
  note never = this
  show ?thesis
  proof (rule ccontr)
    let ?m = "(mgr_new (Some (dstream_builder_new [])))\<lparr>um_buffer := data\<rparr>"
    assume "mgr_feed dstream_protocol data (mgr_new (Some (dstream_builder_new []))) \<noteq> None"
    then obtain r where "mgr_drain dstream_protocol ?m = Some r" by (auto simp: mgr_feed_def)
    from never [OF this refl] assms show False
      by (simp add: dstream_builder_new_def dstream_ready_def unit_simps)
  qed
qed

lemma dstream_empty_delimiter_diverges_witness:
  "mgr_feed dstream_protocol ''x'' (mgr_new (Some (dstream_builder_new []))) = None"
  by (rule dstream_empty_delimiter_diverges) simp

end
