(* ===== verification/Web_Entities.thy ===== *)
theory Web_Entities
  imports Prelude "HOL-Library.Char_ord"
begin

text \<open>
  include/server_lib/network/web/web_entities.h and src/network/web/web_entities.cpp: the
  case-insensitive multimap, percent coding, query strings, header fields, attribute lists
  and the HTTP methods. A multimap is the list of its pairs in the order of insertion; the
  code iterates it in the order of its hash table, so theorems about what is rendered from a
  map hold for every list. Looking up a key that occurs twice answers the pair inserted last,
  as libstdc++ does; the standard leaves the choice open.
\<close>

section \<open>Case-insensitive multimaps\<close>

type_synonym multimap = "(string \<times> string) list"

definition case_insensitive_equal :: "string \<Rightarrow> string \<Rightarrow> bool" where
  "case_insensitive_equal str1 str2 =
     (length str1 = length str2 \<and> list_all2 (\<lambda>a b. tolower a = tolower b) str1 str2)"

text \<open>The hash, for any \<open>std::hash<int>\<close>.\<close>

definition hash_step :: "(char \<Rightarrow> 64 word) \<Rightarrow> char \<Rightarrow> 64 word \<Rightarrow> 64 word" where
  "hash_step hash c h =
     xor h (hash (tolower c) + 0x9e3779b9 + push_bit 6 h + drop_bit 2 h)"

definition case_insensitive_hash :: "(char \<Rightarrow> 64 word) \<Rightarrow> string \<Rightarrow> 64 word" where
  "case_insensitive_hash hash str = fold (hash_step hash) str 0"

definition mm_emplace :: "string \<Rightarrow> string \<Rightarrow> multimap \<Rightarrow> multimap" where
  "mm_emplace k v m = m @ [(k, v)]"

definition mm_find :: "string \<Rightarrow> multimap \<Rightarrow> string option" where
  "mm_find k m = map_option snd (find (\<lambda>(k', _). case_insensitive_equal k' k) (rev m))"

definition mm_contains :: "string \<Rightarrow> multimap \<Rightarrow> bool" where
  "mm_contains k m = (mm_find k m \<noteq> None)"

lemma case_insensitive_equal_iff:
  "case_insensitive_equal s t \<longleftrightarrow> map tolower s = map tolower t"
proof -
  have "list_all2 (\<lambda>a b. tolower a = tolower b) s t \<longleftrightarrow> map tolower s = map tolower t"
    by (induction s t rule: list_induct2') auto
  then show ?thesis
    unfolding case_insensitive_equal_def by (auto dest: map_eq_imp_length_eq)
qed

lemma case_insensitive_equal_refl [simp]: "case_insensitive_equal s s"
  by (simp add: case_insensitive_equal_iff)

lemma case_insensitive_hash_lower:
  "map tolower s = map tolower t \<Longrightarrow>
   fold (hash_step hash) s h = fold (hash_step hash) t h"
proof (induction s arbitrary: t h)
  case (Cons a s)
  then obtain b t' where t: "t = b # t'" "tolower a = tolower b" "map tolower s = map tolower t'"
    by (cases t) auto
  then have "hash_step hash a = hash_step hash b" by (simp add: hash_step_def fun_eq_iff)
  with t Cons.IH [of t'] show ?case by simp
qed simp

lemma mm_find_snoc:
  "mm_find k (m @ [(k', v)]) = (if case_insensitive_equal k' k then Some v else mm_find k m)"
  by (simp add: mm_find_def)

lemma mm_find_Nil [simp]: "mm_find k [] = None"
  by (simp add: mm_find_def)

lemma mm_find_None: "mm_find k m = None \<longleftrightarrow> (\<forall>(k', v) \<in> set m. \<not> case_insensitive_equal k' k)"
  by (auto simp: mm_find_def find_None_iff)

section \<open>Percent coding\<close>

definition hex_chars :: string where
  "hex_chars = ''0123456789ABCDEF''"

definition unreserved :: "char \<Rightarrow> bool" where
  "unreserved chr =
     ((CHR ''0'' \<le> chr \<and> chr \<le> CHR ''9'') \<or> (CHR ''A'' \<le> chr \<and> chr \<le> CHR ''Z'') \<or>
      (CHR ''a'' \<le> chr \<and> chr \<le> CHR ''z'') \<or>
      chr = CHR ''-'' \<or> chr = CHR ''.'' \<or> chr = CHR ''_'' \<or> chr = CHR 0x7E)"

fun percent_encode :: "string \<Rightarrow> string" where
  "percent_encode [] = []"
| "percent_encode (chr # r) =
     (if \<not> unreserved chr
      then CHR ''%'' # hex_chars ! (of_char chr div 16) # hex_chars ! (of_char chr mod 16) # percent_encode r
      else chr # percent_encode r)"

text \<open>\<open>static_cast<char>(std::strtol(hex, nullptr, 16))\<close>.\<close>

definition hex_char :: "string \<Rightarrow> char" where
  "hex_char hex =
     (case strto_parts 16 hex of
        None \<Rightarrow> CHR 0x00
      | Some (neg, m) \<Rightarrow> char_of (nat ((if neg then - int m else int m) mod 256)))"

function percent_decode :: "string \<Rightarrow> string" where
  "percent_decode [] = []"
| "percent_decode (chr # r) =
     (if chr = CHR ''%'' \<and> 2 \<le> length r then hex_char (take 2 r) # percent_decode (drop 2 r)
      else if chr = CHR ''+'' then CHR '' '' # percent_decode r
      else chr # percent_decode r)"
  by pat_completeness auto
termination by (relation "measure length") auto

lemma less_16_cases:
  "n < 16 \<longleftrightarrow> n \<in> {0, 1, 2, 3, 4, 5, 6, 7, 8, 9, 10, 11, 12, 13, 14, 15 :: nat}"
  by (simp only: insert_iff empty_iff) presburger

lemma hex_chars_facts:
  assumes "n < 16"
  shows "digit_val 16 (hex_chars ! n) = Some n \<and> \<not> is_space (hex_chars ! n) \<and>
    hex_chars ! n \<noteq> CHR ''-'' \<and> hex_chars ! n \<noteq> CHR ''+'' \<and> tolower (hex_chars ! n) \<noteq> CHR ''x'' \<and>
    unreserved (hex_chars ! n)"
  using assms unfolding less_16_cases
  by (elim insertE emptyE)
    (simp_all add: hex_chars_def digit_val_def is_space_def tolower_def unreserved_def less_eq_char_def
      char_of_eq_iff)

lemma hex_char_hex_chars:
  assumes "n < 256"
  shows "hex_char [hex_chars ! (n div 16), hex_chars ! (n mod 16)] = char_of n"
proof -
  have d: "n div 16 < 16" "n mod 16 < 16" using assms by (simp_all add: less_mult_imp_div_less)
  note f = hex_chars_facts [OF d(1)] hex_chars_facts [OF d(2)]
  have "strto_parts 16 [hex_chars ! (n div 16), hex_chars ! (n mod 16)] =
      Some (False, n div 16 * 16 + n mod 16)"
    using f by (simp add: strto_parts_def split_sign_def split_hex_prefix_def nat_of_digits_def numeral_2_eq_2)
  then show ?thesis using assms by (simp add: hex_char_def)
qed

lemma percent_decode_other:
  "chr \<noteq> CHR ''%'' \<Longrightarrow> chr \<noteq> CHR ''+'' \<Longrightarrow> percent_decode (chr # r) = chr # percent_decode r"
  by simp

lemma percent_decode_encode: "percent_decode (percent_encode s) = s"
proof (induction s)
  case (Cons chr r)
  show ?case
  proof (cases "unreserved chr")
    case True
    then have "chr \<noteq> CHR ''%''" "chr \<noteq> CHR ''+''" by (auto simp: unreserved_def less_eq_char_def)
    with True Cons show ?thesis by simp
  next
    case False
    have "hex_char [hex_chars ! (of_char chr div 16), hex_chars ! (of_char chr mod 16)] = chr"
      using hex_char_hex_chars [of "of_char chr"] by simp
    with False Cons show ?thesis by (simp add: numeral_2_eq_2)
  qed
qed simp

text \<open>The characters of an encoded string are unreserved or the percent sign.\<close>

lemma percent_encode_chars:
  "c \<in> set (percent_encode s) \<Longrightarrow> unreserved c \<or> c = CHR ''%''"
proof (induction s)
  case (Cons chr r)
  have "of_char chr div 16 < (16 :: nat)" by (simp add: less_mult_imp_div_less)
  then show ?case
    using Cons hex_chars_facts [of "of_char chr div 16"] hex_chars_facts [of "of_char chr mod 16"]
    by (auto split: if_splits)
qed simp

section \<open>Query strings\<close>

fun query_create_loop :: "bool \<Rightarrow> multimap \<Rightarrow> string" where
  "query_create_loop first [] = []"
| "query_create_loop first ((name, value) # fs) =
     (if \<not> first then ''&'' else []) @ name @ ''='' @ percent_encode value @ query_create_loop False fs"

definition query_create :: "multimap \<Rightarrow> string" where
  "query_create fs = query_create_loop True fs"

text \<open>The locals of \<open>query_string::parse\<close>; \<open>None\<close> is \<open>npos\<close>.\<close>

record query_locals =
  q_name_pos :: nat
  q_name_end :: "nat option"
  q_value_pos :: "nat option"
  q_result :: multimap

definition query_emplace :: "string \<Rightarrow> string \<Rightarrow> multimap \<Rightarrow> multimap" where
  "query_emplace name value m = (if name \<noteq> [] then mm_emplace name (percent_decode value) m else m)"

definition query_step :: "string \<Rightarrow> nat \<Rightarrow> query_locals \<Rightarrow> query_locals" where
  "query_step q c st =
     (if q ! c = CHR ''&'' then
        let name = substr q (q_name_pos st)
                     ((case q_name_end st of None \<Rightarrow> c | Some e \<Rightarrow> e) - q_name_pos st);
            value = (case q_value_pos st of None \<Rightarrow> [] | Some v \<Rightarrow> substr q v (c - v))
        in \<lparr>q_name_pos = c + 1, q_name_end = None, q_value_pos = None,
            q_result = query_emplace name value (q_result st)\<rparr>
      else if q ! c = CHR ''='' then st\<lparr>q_name_end := Some c, q_value_pos := Some (c + 1)\<rparr>
      else st)"

definition query_init :: query_locals where
  "query_init = \<lparr>q_name_pos = 0, q_name_end = None, q_value_pos = None, q_result = []\<rparr>"

definition query_parse :: "string \<Rightarrow> multimap" where
  "query_parse q =
     (if q = [] then []
      else
        let st = fold (query_step q) [0..<length q] query_init in
        if q_name_pos st < length q then
          let name = (case q_name_end st of
                        None \<Rightarrow> drop (q_name_pos st) q
                      | Some e \<Rightarrow> substr q (q_name_pos st) (e - q_name_pos st));
              value = (case q_value_pos st of
                         None \<Rightarrow> []
                       | Some v \<Rightarrow> if v \<ge> length q then [] else drop v q)
          in query_emplace name value (q_result st)
        else q_result st)"

text \<open>
  The meaning of a query string: the fields between the ampersands; a field is cut at its
  last equals sign, and dropped when its name is empty.
\<close>

fun split_on :: "char \<Rightarrow> string \<Rightarrow> string list" where
  "split_on d [] = [[]]"
| "split_on d (c # cs) = (if c = d then [] # split_on d cs else (c # hd (split_on d cs)) # tl (split_on d cs))"

fun last_pos :: "char \<Rightarrow> string \<Rightarrow> nat option" where
  "last_pos d [] = None"
| "last_pos d (c # cs) =
     (case last_pos d cs of Some i \<Rightarrow> Some (Suc i) | None \<Rightarrow> if c = d then Some 0 else None)"

definition query_field :: "string \<Rightarrow> multimap" where
  "query_field f =
     (case last_pos CHR ''='' f of
        None \<Rightarrow> query_emplace f [] []
      | Some i \<Rightarrow> query_emplace (take i f) (drop (i + 1) f) [])"

lemma split_on_nonempty [simp]: "split_on d s \<noteq> []"
  by (cases s) auto

lemma split_on_snoc:
  "split_on d (s @ [c]) =
     (if c = d then split_on d s @ [[]]
      else butlast (split_on d s) @ [last (split_on d s) @ [c]])"
proof (induction s)
  case (Cons a s)
  obtain x xs where "split_on d s = x # xs" by (cases "split_on d s") auto
  with Cons show ?case by (cases xs) auto
qed simp

lemma last_pos_snoc:
  "last_pos d (s @ [c]) = (if c = d then Some (length s) else last_pos d s)"
  by (induction s) auto

lemma last_pos_less: "last_pos d s = Some i \<Longrightarrow> i < length s"
  by (induction s arbitrary: i) (auto split: option.splits if_splits)

lemma last_pos_None: "last_pos d s = None \<longleftrightarrow> d \<notin> set s"
  by (induction s) (auto split: option.splits)

lemma last_pos_append:
  "d \<notin> set t \<Longrightarrow> last_pos d (s @ d # t) = Some (length s)"
proof (induction s)
  case Nil
  then show ?case using last_pos_None [of d t] by simp
qed simp

text \<open>The last piece is a suffix.\<close>

lemma split_on_last_suffix: "\<exists>p. s = p @ last (split_on d s)"
proof (induction s rule: rev_induct)
  case (snoc c s)
  then obtain p where "s = p @ last (split_on d s)" by blast
  then show ?case by (cases "c = d") (auto simp: split_on_snoc)
qed simp

lemma query_emplace_append:
  "query_emplace n v m = m @ query_emplace n v []"
  by (simp add: query_emplace_def mm_emplace_def)

text \<open>What the scan knows after the first \<open>n\<close> characters.\<close>

definition query_state :: "string \<Rightarrow> nat \<Rightarrow> query_locals" where
  "query_state q n =
     (let segs = split_on CHR ''&'' (take n q); cur = last segs; pos = n - length cur;
          eq = last_pos CHR ''='' cur
      in \<lparr>q_name_pos = pos, q_name_end = map_option (\<lambda>i. pos + i) eq,
          q_value_pos = map_option (\<lambda>i. pos + i + 1) eq,
          q_result = concat (map query_field (butlast segs))\<rparr>)"

lemma concat_butlast_last:
  "xs \<noteq> [] \<Longrightarrow> concat (map f (butlast xs)) @ f (last xs) = concat (map f xs)"
  by (induction xs) auto

lemma query_scan:
  "n \<le> length q \<Longrightarrow> fold (query_step q) [0..<n] query_init = query_state q n"
proof (induction n)
  case 0
  show ?case by (simp add: query_init_def query_state_def)
next
  case (Suc n)
  let ?segs = "split_on CHR ''&'' (take n q)"
  let ?cur = "last ?segs"
  from Suc have IH: "fold (query_step q) [0..<n] query_init = query_state q n" and n: "n < length q"
    by simp_all
  have tk: "take (Suc n) q = take n q @ [q ! n]" using n by (simp add: take_Suc_conv_app_nth)
  obtain p where p: "take n q = p @ ?cur" using split_on_last_suffix by blast
  then have len: "n = length p + length ?cur"
    using n by (metis length_append length_take min.absorb2 less_imp_le)
  have q: "q = p @ ?cur @ drop n q" using p by (metis append_assoc append_take_drop_id)
  have part: "substr q (length p + i) k = take k (drop i ?cur)" if "i + k \<le> length ?cur" for i k
    using that by (subst q) (simp add: substr_def)
  have "query_step q n (query_state q n) = query_state q (Suc n)"
  proof (cases "q ! n = CHR ''&''")
    case True
    have pos: "n - length ?cur = length p" using len by simp
    have "q_result (query_step q n (query_state q n)) =
        concat (map query_field (butlast ?segs)) @ query_field ?cur"
    proof (cases "last_pos CHR ''='' ?cur")
      case None
      have "n - length p = length ?cur" using len by simp
      with None True pos part [of 0 "length ?cur"] show ?thesis
        by (simp add: query_step_def query_state_def Let_def query_field_def
            query_emplace_append [of _ _ "concat _"])
    next
      case (Some i)
      then have i: "i < length ?cur" by (rule last_pos_less)
      from i part [of 0 i] have nm: "substr q (length p) i = take i ?cur" by simp
      have "n - Suc (length p + i) = length ?cur - Suc i" using len by simp
      with i part [of "Suc i" "length ?cur - Suc i"]
      have val: "substr q (Suc (length p + i)) (n - Suc (length p + i)) = drop (Suc i) ?cur"
        by simp
      from True pos Some nm val show ?thesis
        by (simp add: query_step_def query_state_def Let_def query_field_def
            query_emplace_append [of _ _ "concat _"])
    qed
    then have r: "q_result (query_step q n (query_state q n)) = concat (map query_field ?segs)"
      by (simp add: concat_butlast_last)
    have "query_step q n (query_state q n) =
        \<lparr>q_name_pos = n + 1, q_name_end = None, q_value_pos = None,
         q_result = q_result (query_step q n (query_state q n))\<rparr>"
      using True by (simp add: query_step_def Let_def)
    also have "\<dots> = query_state q (Suc n)"
      unfolding r using True tk by (simp add: query_state_def split_on_snoc butlast_append)
    finally show ?thesis .
  next
    case False
    show ?thesis
    proof (cases "q ! n = CHR ''=''")
      case True
      with False tk len show ?thesis
        by (simp add: query_step_def query_state_def Let_def split_on_snoc last_pos_snoc butlast_append)
    next
      case neq: False
      with False tk len show ?thesis
        by (simp add: query_step_def query_state_def Let_def split_on_snoc last_pos_snoc butlast_append)
    qed
  qed
  with IH show ?case by simp
qed

lemma query_parse_eq: "query_parse q = concat (map query_field (split_on CHR ''&'' q))"
proof (cases "q = []")
  case True
  then show ?thesis by (simp add: query_parse_def query_field_def query_emplace_def)
next
  case False
  let ?segs = "split_on CHR ''&'' q"
  let ?cur = "last ?segs"
  obtain p where p: "q = p @ ?cur" using split_on_last_suffix by blast
  then have len: "length q - length ?cur = length p" by (metis add_diff_cancel_right' length_append)
  have st: "fold (query_step q) [0..<length q] query_init = query_state q (length q)"
    by (rule query_scan) simp
  have dp: "drop (length p + k) q = drop k ?cur" for k
    by (subst p) simp
  have "query_parse q = concat (map query_field (butlast ?segs)) @ query_field ?cur"
  proof (cases "?cur = []")
    case True
    then have "query_field ?cur = []" by (simp add: query_field_def query_emplace_def)
    with True False show ?thesis
      by (simp add: query_parse_def st query_state_def Let_def)
  next
    case cur: False
    then have lt: "length p < length q" by (subst p) simp
    show ?thesis
    proof (cases "last_pos CHR ''='' ?cur")
      case None
      with False lt len dp [of 0] show ?thesis
        by (simp add: query_parse_def st query_state_def Let_def query_field_def
            query_emplace_append [of _ _ "concat _"])
    next
      case (Some i)
      have nm: "substr q (length p) i = take i ?cur"
        using dp [of 0] by (simp add: substr_def)
      have "(if length q \<le> Suc (length p + i) then [] else drop (Suc (length p + i)) q) = drop (Suc i) ?cur"
        using dp [of "Suc i"] by auto
      with False lt len Some nm show ?thesis
        by (simp add: query_parse_def st query_state_def Let_def query_field_def
            query_emplace_append [of _ _ "concat _"])
    qed
  qed
  then show ?thesis by (simp add: concat_butlast_last)
qed

lemma split_on_join:
  "d \<notin> set x \<Longrightarrow> split_on d (x @ d # r) = x # split_on d r"
  "d \<notin> set x \<Longrightarrow> split_on d x = [x]"
  by (induction x) auto

lemma percent_encode_no_separator:
  "CHR ''&'' \<notin> set (percent_encode s)" "CHR ''='' \<notin> set (percent_encode s)"
  using percent_encode_chars [of "CHR ''&''" s] percent_encode_chars [of "CHR ''=''" s]
  by (auto simp: unreserved_def less_eq_char_def)

lemma query_field_render:
  "n \<noteq> [] \<Longrightarrow> CHR ''='' \<notin> set n \<Longrightarrow> query_field (n @ ''='' @ percent_encode v) = [(n, v)]"
  using percent_encode_no_separator(2) [of v]
  by (simp add: query_field_def last_pos_append query_emplace_def mm_emplace_def percent_decode_encode)

definition query_name_ok :: "string \<Rightarrow> bool" where
  "query_name_ok n \<longleftrightarrow> n \<noteq> [] \<and> CHR ''='' \<notin> set n \<and> CHR ''&'' \<notin> set n"

lemma query_pieces:
  "\<forall>(n, v) \<in> set fs. query_name_ok n \<Longrightarrow> fs \<noteq> [] \<Longrightarrow>
   split_on CHR ''&'' (query_create_loop True fs) = map (\<lambda>(n, v). n @ ''='' @ percent_encode v) fs"
proof (induction fs)
  case (Cons f fs)
  obtain n v where f: "f = (n, v)" by (cases f)
  let ?t = "n @ ''='' @ percent_encode v"
  have no: "CHR ''&'' \<notin> set ?t"
    using Cons.prems f percent_encode_no_separator(1) [of v] by (simp add: query_name_ok_def)
  show ?case
  proof (cases fs)
    case Nil
    with no f show ?thesis by (simp add: split_on_join)
  next
    case (Cons g gs)
    have "query_create_loop False fs = CHR ''&'' # query_create_loop True fs"
      using Cons by (cases g) simp
    then have "query_create_loop True (f # fs) = ?t @ CHR ''&'' # query_create_loop True fs"
      using f by simp
    moreover have "split_on CHR ''&'' (query_create_loop True fs) =
        map (\<lambda>(n, v). n @ ''='' @ percent_encode v) fs"
      using Cons.IH Cons.prems Cons by simp
    ultimately show ?thesis using split_on_join(1) [OF no] f by simp
  qed
qed simp

lemma query_round_trip:
  "\<forall>(n, v) \<in> set fs. query_name_ok n \<Longrightarrow> query_parse (query_create fs) = fs"
proof (cases "fs = []")
  case True
  then show ?thesis by (simp add: query_create_def query_parse_def)
next
  case False
  assume ok: "\<forall>(n, v) \<in> set fs. query_name_ok n"
  have "concat (map query_field (map (\<lambda>(n, v). n @ ''='' @ percent_encode v) fs)) = fs"
    using ok
  proof (induction fs)
    case (Cons f fs)
    then show ?case using query_field_render by (cases f) (auto simp: query_name_ok_def)
  qed simp
  with query_pieces [OF ok False] show ?thesis by (simp add: query_parse_eq query_create_def)
qed

section \<open>Header fields\<close>

function skip_spaces :: "string \<Rightarrow> nat \<Rightarrow> nat" where
  "skip_spaces line v = (if v + 1 < length line \<and> line ! v = CHR '' '' then skip_spaces line (v + 1) else v)"
  by pat_completeness auto
termination by (relation "measure (\<lambda>(line, v). length line - v)") auto

declare skip_spaces.simps [simp del]

text \<open>The field of one line; its last character, the carriage return, is dropped.\<close>

definition header_field :: "string \<Rightarrow> nat \<Rightarrow> multimap \<Rightarrow> multimap" where
  "header_field line param_end result =
     (let value_start = skip_spaces line (param_end + 1) in
      if value_start < length line
      then mm_emplace (take param_end line)
             (substr line value_start (length line - value_start - 1)) result
      else result)"

partial_function (option) header_loop ::
    "istream \<Rightarrow> string \<Rightarrow> multimap \<Rightarrow> (multimap \<times> istream) option" where
  "header_loop stream line result =
     (case find_char CHR '':'' line of
        None \<Rightarrow> Some (result, stream)
      | Some param_end \<Rightarrow>
          header_loop (snd (getline stream line)) (fst (getline stream line))
            (header_field line param_end result))"

definition header_parse :: "istream \<Rightarrow> (multimap \<times> istream) option" where
  "header_parse stream = header_loop (snd (getline stream [])) (fst (getline stream [])) []"

definition header_line :: "string \<times> string \<Rightarrow> string" where
  "header_line f = fst f @ '': '' @ snd f @ [CR, NL]"

definition header_text :: "multimap \<Rightarrow> string" where
  "header_text fs = concat (map header_line fs)"

definition header_name_ok :: "string \<Rightarrow> bool" where
  "header_name_ok n \<longleftrightarrow> CHR '':'' \<notin> set n \<and> NL \<notin> set n"

definition header_value_ok :: "string \<Rightarrow> bool" where
  "header_value_ok v \<longleftrightarrow> NL \<notin> set v \<and> (v = [] \<or> hd v \<noteq> CHR '' '')"

lemma header_field_line:
  assumes "header_name_ok n" and "header_value_ok v"
  shows "header_field (n @ '': '' @ v @ [CR]) (length n) r = r @ [(n, v)]"
proof -
  let ?l = "n @ '': '' @ v @ [CR]"
  have at: "?l ! (length n + 1) = CHR '' ''" by (simp add: nth_append)
  have "skip_spaces ?l (length n + 2) = length n + 2"
    using assms(2) by (subst skip_spaces.simps) (auto simp: nth_append header_value_ok_def hd_conv_nth)
  then have sk: "skip_spaces ?l (length n + 1) = length n + 2"
    using at by (subst skip_spaces.simps) simp
  show ?thesis
    using sk by (simp add: header_field_def Let_def substr_def mm_emplace_def)
qed

lemma header_loop_text:
  "\<forall>(n, v) \<in> set fs. header_name_ok n \<and> header_value_ok v \<Longrightarrow> CHR '':'' \<notin> set e \<Longrightarrow> NL \<notin> set e \<Longrightarrow>
   header_name_ok n \<Longrightarrow> header_value_ok v \<Longrightarrow>
   header_loop (open_istream (header_text fs @ e @ NL # body)) (n @ '': '' @ v @ [CR]) r =
     Some (r @ (n, v) # fs, open_istream body)"
proof (induction fs arbitrary: n v r)
  case Nil
  have f: "find_char CHR '':'' (n @ '': '' @ v @ [CR]) = Some (length n)"
    using Nil find_char_append [of "CHR '':''" n "CHR '' '' # v @ [CR]"] by (simp add: header_name_ok_def)
  have "find_char CHR '':'' e = None" using Nil by (simp add: find_char_None)
  then have "header_loop (open_istream body) e (r @ [(n, v)]) = Some (r @ [(n, v)], open_istream body)"
    by (subst header_loop.simps) simp
  moreover have "getline (open_istream (header_text [] @ e @ NL # body)) (n @ '': '' @ v @ [CR]) =
      (e, open_istream body)"
    using getline_line [OF Nil.prems(3)] by (simp add: header_text_def)
  ultimately show ?case
    using Nil header_field_line [of n v r] by (subst header_loop.simps) (simp add: f [simplified])
next
  case (Cons g fs)
  obtain n' v' where g: "g = (n', v')" by (cases g)
  have f: "find_char CHR '':'' (n @ '': '' @ v @ [CR]) = Some (length n)"
    using Cons find_char_append [of "CHR '':''" n "CHR '' '' # v @ [CR]"] by (simp add: header_name_ok_def)
  have nl: "NL \<notin> set (n' @ '': '' @ v' @ [CR])"
    using Cons.prems g by (auto simp: header_name_ok_def header_value_ok_def)
  have tx: "header_text (g # fs) @ e @ NL # body =
      (n' @ '': '' @ v' @ [CR]) @ NL # header_text fs @ e @ NL # body"
    by (simp add: header_text_def header_line_def g)
  have IH: "header_loop (open_istream (header_text fs @ e @ NL # body)) (n' @ '': '' @ v' @ [CR])
      (r @ [(n, v)]) = Some ((r @ [(n, v)]) @ (n', v') # fs, open_istream body)"
    using Cons.prems g by (intro Cons.IH) auto
  have "getline (open_istream (header_text (g # fs) @ e @ NL # body)) (n @ '': '' @ v @ [CR]) =
      (n' @ '': '' @ v' @ [CR], open_istream (header_text fs @ e @ NL # body))"
    unfolding tx by (rule getline_line [OF nl])
  then show ?case
    using Cons.prems IH header_field_line [of n v r] g
    by (subst header_loop.simps) (simp add: f [simplified])
qed

lemma header_parse_text:
  assumes "\<forall>(n, v) \<in> set fs. header_name_ok n \<and> header_value_ok v"
  shows "header_parse (open_istream (header_text fs @ CR # NL # body)) = Some (fs, open_istream body)"
proof (cases fs)
  case Nil
  have "header_loop (open_istream body) [CR] [] = Some ([], open_istream body)"
    by (subst header_loop.simps) simp
  with Nil getline_line [of "[CR]" body "[]"] show ?thesis
    by (simp add: header_parse_def header_text_def)
next
  case (Cons g gs)
  obtain n v where g: "g = (n, v)" by (cases g)
  have nl: "NL \<notin> set (n @ '': '' @ v @ [CR])"
    using assms Cons g by (auto simp: header_name_ok_def header_value_ok_def)
  have tx: "header_text fs @ CR # NL # body =
      (n @ '': '' @ v @ [CR]) @ NL # header_text gs @ [CR] @ NL # body"
    by (simp add: Cons header_text_def header_line_def g)
  have "header_loop (open_istream (header_text gs @ [CR] @ NL # body)) (n @ '': '' @ v @ [CR]) [] =
      Some ([] @ (n, v) # gs, open_istream body)"
    using assms Cons g by (intro header_loop_text) auto
  then show ?thesis
    unfolding header_parse_def tx getline_line [OF nl] using Cons g by simp
qed

text \<open>
  The loop reads a line after each field without looking whether there was one: at the end of
  the stream \<open>getline\<close> leaves the line as it is.
\<close>

lemma split_on_NL_cases:
  obtains l r where "s = l @ NL # r" "NL \<notin> set l" "split_on NL s = l # split_on NL r"
  | "NL \<notin> set s" "split_on NL s = [s]"
proof (cases "NL \<in> set s")
  case True
  then obtain l r where "s = l @ NL # r" "NL \<notin> set l" by (metis split_list_first)
  with split_on_join(1) [of NL l r] that(1) show ?thesis by blast
next
  case False
  with split_on_join(2) [of NL s] that(2) show ?thesis by blast
qed

lemma getline_last:
  "NL \<notin> set s \<Longrightarrow> getline (open_istream s) old = (s, \<lparr>i_data = [], i_eof = True, i_fail = (s = [])\<rparr>)"
proof -
  assume "NL \<notin> set s"
  then have "\<forall>c \<in> set s. c \<noteq> NL" by auto
  then have tw: "takeWhile (\<lambda>c. c \<noteq> NL) s = s" and dw: "dropWhile (\<lambda>c. c \<noteq> NL) s = []"
    by (simp_all add: takeWhile_eq_all_conv dropWhile_eq_Nil_conv)
  show ?thesis by (simp add: getline_def open_istream_def tw dw)
qed

lemma header_loop_returns:
  "CHR '':'' \<notin> set line \<or> (\<exists>p \<in> set (split_on NL s). CHR '':'' \<notin> set p) \<Longrightarrow>
   header_loop (open_istream s) line r \<noteq> None"
proof (induction "length s" arbitrary: s line r rule: less_induct)
  case less
  show ?case
  proof (cases "CHR '':'' \<in> set line")
    case False
    then show ?thesis by (subst header_loop.simps) (simp add: find_char_None [THEN iffD2])
  next
    case True
    then obtain i where i: "find_char CHR '':'' line = Some i" using find_char_None by (cases "find_char CHR '':'' line") auto
    from split_on_NL_cases [of s] show ?thesis
    proof cases
      case (1 l q)
      with less.hyps [of q l] less.prems True show ?thesis
        by (subst header_loop.simps) (auto simp: i getline_line)
    next
      case 2
      with less.prems True have "CHR '':'' \<notin> set s" by auto
      then have "header_loop st s q \<noteq> None" for st q
        by (subst header_loop.simps) (simp add: find_char_None [THEN iffD2])
      with 2 show ?thesis by (subst header_loop.simps) (simp add: i getline_last)
    qed
  qed
qed

lemma header_loop_never:
  assumes "header_loop st line r = Some x" and "CHR '':'' \<in> set line"
    and "i_eof st \<or> (\<exists>s. st = open_istream s \<and> (\<forall>p \<in> set (split_on NL s). CHR '':'' \<in> set p))"
  shows False
  using assms
proof (induction st line r x rule: header_loop.raw_induct [rotated, consumes 1, case_names 1])
  case (1 loop st line r x)
  from 1 obtain i where i: "find_char CHR '':'' line = Some i"
    using find_char_None by (cases "find_char CHR '':'' line") auto
  obtain line' st' where g: "getline st line = (line', st')" by (cases "getline st line")
  have "CHR '':'' \<in> set line' \<and>
    (i_eof st' \<or> (\<exists>s. st' = open_istream s \<and> (\<forall>p \<in> set (split_on NL s). CHR '':'' \<in> set p)))"
  proof (cases "i_eof st")
    case True
    with g "1.prems"(1) show ?thesis by (auto simp: getline_def)
  next
    case False
    with "1.prems" obtain s where s: "st = open_istream s" "\<forall>p \<in> set (split_on NL s). CHR '':'' \<in> set p"
      by auto
    from split_on_NL_cases [of s] show ?thesis
    proof cases
      case (1 l q)
      with s g getline_line [of l q line] show ?thesis by auto
    next
      case 2
      with s g show ?thesis by (auto simp: getline_last)
    qed
  qed
  with "1.IH" [of st' line' "header_field line i r" x] "1.hyps" i g show False by simp
qed

lemma header_parse_None:
  "header_parse (open_istream s) = None \<longleftrightarrow> (\<forall>p \<in> set (split_on NL s). CHR '':'' \<in> set p)"
proof (rule split_on_NL_cases [of s])
  fix l q assume s: "s = l @ NL # q" "NL \<notin> set l" "split_on NL s = l # split_on NL q"
  then have h: "header_parse (open_istream s) = header_loop (open_istream q) l []"
    by (simp add: header_parse_def getline_line)
  show ?thesis
    using header_loop_returns [of l q "[]"] header_loop_never [of "open_istream q" l "[]"] s(3)
    by (cases "header_loop (open_istream q) l []") (auto simp: h)
next
  assume s: "NL \<notin> set s" "split_on NL s = [s]"
  let ?st = "\<lparr>i_data = [], i_eof = True, i_fail = (s = [])\<rparr>"
  have h: "header_parse (open_istream s) = header_loop ?st s []"
    using s by (simp add: header_parse_def getline_last)
  show ?thesis
  proof (cases "CHR '':'' \<in> set s")
    case True
    with header_loop_never [of ?st s "[]"] s h show ?thesis
      by (cases "header_loop ?st s []") auto
  next
    case False
    then have "header_loop ?st s [] = Some ([], ?st)"
      by (subst header_loop.simps) (simp add: find_char_None [THEN iffD2])
    with False s h show ?thesis by simp
  qed
qed

section \<open>Attribute lists\<close>

record attr_locals =
  sa_name_start :: "nat option"
  sa_name_end :: "nat option"
  sa_value_start :: "nat option"
  sa_result :: multimap

definition attr_init :: attr_locals where
  "attr_init = \<lparr>sa_name_start = None, sa_name_end = None, sa_value_start = None, sa_result = []\<rparr>"

definition attr_step :: "string \<Rightarrow> nat \<Rightarrow> attr_locals \<Rightarrow> attr_locals" where
  "attr_step str c st =
     (case sa_name_start st of
        None \<Rightarrow>
          if str ! c \<noteq> CHR '' '' \<and> str ! c \<noteq> CHR '';'' then st\<lparr>sa_name_start := Some c\<rparr> else st
      | Some ns \<Rightarrow>
          (case sa_name_end st of
             None \<Rightarrow>
               if str ! c = CHR '';'' then
                 st\<lparr>sa_result := mm_emplace (substr str ns (c - ns)) [] (sa_result st), sa_name_start := None\<rparr>
               else if str ! c = CHR ''='' then st\<lparr>sa_name_end := Some c\<rparr>
               else st
           | Some ne \<Rightarrow>
               (case sa_value_start st of
                  None \<Rightarrow>
                    if str ! c = CHR 0x22 \<and> c + 1 < length str then st\<lparr>sa_value_start := Some (c + 1)\<rparr>
                    else st\<lparr>sa_value_start := Some c\<rparr>
                | Some vs \<Rightarrow>
                    if str ! c = CHR 0x22 \<or> str ! c = CHR '';'' then
                      \<lparr>sa_name_start = None, sa_name_end = None, sa_value_start = None,
                       sa_result = mm_emplace (substr str ns (ne - ns))
                         (percent_decode (substr str vs (c - vs))) (sa_result st)\<rparr>
                    else st)))"

definition attr_finish :: "string \<Rightarrow> attr_locals \<Rightarrow> multimap" where
  "attr_finish str st =
     (case sa_name_start st of
        None \<Rightarrow> sa_result st
      | Some ns \<Rightarrow>
          (case sa_name_end st of
             None \<Rightarrow> mm_emplace (drop ns str) [] (sa_result st)
           | Some ne \<Rightarrow>
               (case sa_value_start st of
                  None \<Rightarrow> sa_result st
                | Some vs \<Rightarrow>
                    mm_emplace (substr str ns (ne - ns))
                      (percent_decode
                         (if last str = CHR 0x22 then substr str vs (length str - 1) else drop vs str))
                      (sa_result st))))"

definition attributes_parse :: "string \<Rightarrow> multimap" where
  "attributes_parse str = attr_finish str (fold (attr_step str) [0..<length str] attr_init)"

section \<open>Methods\<close>

datatype http_method = POST | GET | HEAD | PUT | DELETE

definition method_to_string :: "http_method \<Rightarrow> string" where
  "method_to_string m =
     (case m of POST \<Rightarrow> ''POST'' | GET \<Rightarrow> ''GET'' | HEAD \<Rightarrow> ''HEAD'' | PUT \<Rightarrow> ''PUT'' | DELETE \<Rightarrow> ''DELETE'')"

lemma method_no_space: "CHR '' '' \<notin> set (method_to_string m)" "NL \<notin> set (method_to_string m)"
  by (cases m; simp add: method_to_string_def)+

section \<open>Properties\<close>

text \<open>C24: A query string made from any fields whose names are not empty and hold no ampersand and
  no equals sign parses back to the same fields, whatever bytes the values hold.\<close>
theorem query_string_round_trip:
  assumes "\<forall>(n, v) \<in> set fs. query_name_ok n"
  shows "query_parse (query_create fs) = fs"
  using assms by (rule query_round_trip)

theorem query_string_round_trip_witness:
  "query_parse (query_create [(''a'', ''x&=% '' @ [NL]), (''b'', [])]) =
   [(''a'', ''x&=% '' @ [NL]), (''b'', [])]"
  by (rule query_string_round_trip) (simp add: query_name_ok_def)

text \<open>
  The scan of query_string::parse, with its positions into the string, computes the fields
  between the ampersands, each cut at its last equals sign and dropped when its name is empty;
  it never takes a piece of another field.\<close>
lemma query_parse_fields: "query_parse q = concat (map query_field (split_on CHR ''&'' q))"
  by (rule query_parse_eq)

text \<open>
  Decoding inverts percent encoding for every byte string, and the encoding holds only
  unreserved characters and percent signs.\<close>
lemma percent_coding:
  "percent_decode (percent_encode s) = s \<and>
   list_all (\<lambda>c. unreserved c \<or> c = CHR ''%'') (percent_encode s)"
  using percent_decode_encode percent_encode_chars by (simp add: list_all_iff)

text \<open>
  Keys that the multimaps hold equal have the same hash, whatever the hash of an int is,
  as the standard asks of an unordered container.\<close>
lemma case_insensitive_hash_consistent:
  assumes "case_insensitive_equal s t"
  shows "case_insensitive_hash hash s = case_insensitive_hash hash t"
  unfolding case_insensitive_hash_def
  using assms by (intro case_insensitive_hash_lower) (simp add: case_insensitive_equal_iff)

lemma case_insensitive_hash_consistent_witness:
  "case_insensitive_hash (\<lambda>c. ucast (byte_of c)) ''Content-Length'' =
   case_insensitive_hash (\<lambda>c. ucast (byte_of c)) ''content-length''"
  by (rule case_insensitive_hash_consistent)
    (simp add: case_insensitive_equal_iff tolower_def char_of_eq_iff)

text \<open>C25: http_header::parse returns exactly when some line of the stream, the piece after the last
  line feed included, has no colon: a stream that ends inside a header field makes it read the
  same line for ever.\<close>
theorem header_parse_returns_iff:
  "header_parse (open_istream s) \<noteq> None \<longleftrightarrow> (\<exists>p \<in> set (split_on NL s). CHR '':'' \<notin> set p)"
  using header_parse_None [of s] by auto

end
