(* ===== verification/Status_Codes.thy ===== *)
theory Status_Codes
  imports Prelude
begin

text \<open>
  The status codes of include/server_lib/network/web/status_code.h: the enumeration with the
  values C++ gives it, the table of their texts, and the two conversions. The table from texts
  to codes is a hash map filled from the first; a text that two codes shared would keep one of
  them only, so that the conversions are inverse is a property of the table.
\<close>

datatype (plugins only: code) http_status_code =
    unknown
  | information_continue
  | information_switching_protocols
  | information_processing
  | success_ok
  | success_created
  | success_accepted
  | success_non_authoritative_information
  | success_no_content
  | success_reset_content
  | success_partial_content
  | success_multi_status
  | success_already_reported
  | success_im_used
  | redirection_multiple_choices
  | redirection_moved_permanently
  | redirection_found
  | redirection_see_other
  | redirection_not_modified
  | redirection_use_proxy
  | redirection_switch_proxy
  | redirection_temporary_redirect
  | redirection_permanent_redirect
  | client_error_bad_request
  | client_error_unauthorized
  | client_error_payment_required
  | client_error_forbidden
  | client_error_not_found
  | client_error_method_not_allowed
  | client_error_not_acceptable
  | client_error_proxy_authentication_required
  | client_error_request_timeout
  | client_error_conflict
  | client_error_gone
  | client_error_length_required
  | client_error_precondition_failed
  | client_error_payload_too_large
  | client_error_uri_too_long
  | client_error_unsupported_media_type
  | client_error_range_not_satisfiable
  | client_error_expectation_failed
  | client_error_im_a_teapot
  | client_error_misdirection_required
  | client_error_unprocessable_entity
  | client_error_locked
  | client_error_failed_dependency
  | client_error_upgrade_required
  | client_error_precondition_required
  | client_error_too_many_requests
  | client_error_request_header_fields_too_large
  | client_error_unavailable_for_legal_reasons
  | server_error_internal_server_error
  | server_error_not_implemented
  | server_error_bad_gateway
  | server_error_service_unavailable
  | server_error_gateway_timeout
  | server_error_http_version_not_supported
  | server_error_variant_also_negotiates
  | server_error_insufficient_storage
  | server_error_loop_detected
  | server_error_not_extended
  | server_error_network_authentication_required

text \<open>The value of the enumerator (\<open>size_t(status)\<close>, \<open>static_cast\<close>).\<close>

primrec status_code_value :: "http_status_code \<Rightarrow> nat" where
    "status_code_value unknown = 0"
  | "status_code_value information_continue = 100"
  | "status_code_value information_switching_protocols = 101"
  | "status_code_value information_processing = 102"
  | "status_code_value success_ok = 200"
  | "status_code_value success_created = 201"
  | "status_code_value success_accepted = 202"
  | "status_code_value success_non_authoritative_information = 203"
  | "status_code_value success_no_content = 204"
  | "status_code_value success_reset_content = 205"
  | "status_code_value success_partial_content = 206"
  | "status_code_value success_multi_status = 207"
  | "status_code_value success_already_reported = 208"
  | "status_code_value success_im_used = 226"
  | "status_code_value redirection_multiple_choices = 300"
  | "status_code_value redirection_moved_permanently = 301"
  | "status_code_value redirection_found = 302"
  | "status_code_value redirection_see_other = 303"
  | "status_code_value redirection_not_modified = 304"
  | "status_code_value redirection_use_proxy = 305"
  | "status_code_value redirection_switch_proxy = 306"
  | "status_code_value redirection_temporary_redirect = 307"
  | "status_code_value redirection_permanent_redirect = 308"
  | "status_code_value client_error_bad_request = 400"
  | "status_code_value client_error_unauthorized = 401"
  | "status_code_value client_error_payment_required = 402"
  | "status_code_value client_error_forbidden = 403"
  | "status_code_value client_error_not_found = 404"
  | "status_code_value client_error_method_not_allowed = 405"
  | "status_code_value client_error_not_acceptable = 406"
  | "status_code_value client_error_proxy_authentication_required = 407"
  | "status_code_value client_error_request_timeout = 408"
  | "status_code_value client_error_conflict = 409"
  | "status_code_value client_error_gone = 410"
  | "status_code_value client_error_length_required = 411"
  | "status_code_value client_error_precondition_failed = 412"
  | "status_code_value client_error_payload_too_large = 413"
  | "status_code_value client_error_uri_too_long = 414"
  | "status_code_value client_error_unsupported_media_type = 415"
  | "status_code_value client_error_range_not_satisfiable = 416"
  | "status_code_value client_error_expectation_failed = 417"
  | "status_code_value client_error_im_a_teapot = 418"
  | "status_code_value client_error_misdirection_required = 421"
  | "status_code_value client_error_unprocessable_entity = 422"
  | "status_code_value client_error_locked = 423"
  | "status_code_value client_error_failed_dependency = 424"
  | "status_code_value client_error_upgrade_required = 426"
  | "status_code_value client_error_precondition_required = 428"
  | "status_code_value client_error_too_many_requests = 429"
  | "status_code_value client_error_request_header_fields_too_large = 431"
  | "status_code_value client_error_unavailable_for_legal_reasons = 451"
  | "status_code_value server_error_internal_server_error = 500"
  | "status_code_value server_error_not_implemented = 501"
  | "status_code_value server_error_bad_gateway = 502"
  | "status_code_value server_error_service_unavailable = 503"
  | "status_code_value server_error_gateway_timeout = 504"
  | "status_code_value server_error_http_version_not_supported = 505"
  | "status_code_value server_error_variant_also_negotiates = 506"
  | "status_code_value server_error_insufficient_storage = 507"
  | "status_code_value server_error_loop_detected = 508"
  | "status_code_value server_error_not_extended = 510"
  | "status_code_value server_error_network_authentication_required = 511"

definition status_code_strings :: "(http_status_code \<times> string) list" where
  "status_code_strings =
    [(unknown, ''''),
     (information_continue, ''100 Continue''),
     (information_switching_protocols, ''101 Switching Protocols''),
     (information_processing, ''102 Processing''),
     (success_ok, ''200 OK''),
     (success_created, ''201 Created''),
     (success_accepted, ''202 Accepted''),
     (success_non_authoritative_information, ''203 Non-Authoritative Information''),
     (success_no_content, ''204 No Content''),
     (success_reset_content, ''205 Reset Content''),
     (success_partial_content, ''206 Partial Content''),
     (success_multi_status, ''207 Multi-Status''),
     (success_already_reported, ''208 Already Reported''),
     (success_im_used, ''226 IM Used''),
     (redirection_multiple_choices, ''300 Multiple Choices''),
     (redirection_moved_permanently, ''301 Moved Permanently''),
     (redirection_found, ''302 Found''),
     (redirection_see_other, ''303 See Other''),
     (redirection_not_modified, ''304 Not Modified''),
     (redirection_use_proxy, ''305 Use Proxy''),
     (redirection_switch_proxy, ''306 Switch Proxy''),
     (redirection_temporary_redirect, ''307 Temporary Redirect''),
     (redirection_permanent_redirect, ''308 Permanent Redirect''),
     (client_error_bad_request, ''400 Bad Request''),
     (client_error_unauthorized, ''401 Unauthorized''),
     (client_error_payment_required, ''402 Payment Required''),
     (client_error_forbidden, ''403 Forbidden''),
     (client_error_not_found, ''404 Not Found''),
     (client_error_method_not_allowed, ''405 Method Not Allowed''),
     (client_error_not_acceptable, ''406 Not Acceptable''),
     (client_error_proxy_authentication_required, ''407 Proxy Authentication Required''),
     (client_error_request_timeout, ''408 Request Timeout''),
     (client_error_conflict, ''409 Conflict''),
     (client_error_gone, ''410 Gone''),
     (client_error_length_required, ''411 Length Required''),
     (client_error_precondition_failed, ''412 Precondition Failed''),
     (client_error_payload_too_large, ''413 Payload Too Large''),
     (client_error_uri_too_long, ''414 URI Too Long''),
     (client_error_unsupported_media_type, ''415 Unsupported Media Type''),
     (client_error_range_not_satisfiable, ''416 Range Not Satisfiable''),
     (client_error_expectation_failed, ''417 Expectation Failed''),
     (client_error_im_a_teapot, ''418 I'm a teapot''),
     (client_error_misdirection_required, ''421 Misdirected Request''),
     (client_error_unprocessable_entity, ''422 Unprocessable Entity''),
     (client_error_locked, ''423 Locked''),
     (client_error_failed_dependency, ''424 Failed Dependency''),
     (client_error_upgrade_required, ''426 Upgrade Required''),
     (client_error_precondition_required, ''428 Precondition Required''),
     (client_error_too_many_requests, ''429 Too Many Requests''),
     (client_error_request_header_fields_too_large, ''431 Request Header Fields Too Large''),
     (client_error_unavailable_for_legal_reasons, ''451 Unavailable For Legal Reasons''),
     (server_error_internal_server_error, ''500 Internal Server Error''),
     (server_error_not_implemented, ''501 Not Implemented''),
     (server_error_bad_gateway, ''502 Bad Gateway''),
     (server_error_service_unavailable, ''503 Service Unavailable''),
     (server_error_gateway_timeout, ''504 Gateway Timeout''),
     (server_error_http_version_not_supported, ''505 HTTP Version Not Supported''),
     (server_error_variant_also_negotiates, ''506 Variant Also Negotiates''),
     (server_error_insufficient_storage, ''507 Insufficient Storage''),
     (server_error_loop_detected, ''508 Loop Detected''),
     (server_error_not_extended, ''510 Not Extended''),
     (server_error_network_authentication_required, ''511 Network Authentication Required'')]"

text \<open>\<open>status_code(const std::string&)\<close>, over the table turned around.\<close>

definition string_to_status_code :: "(string \<times> http_status_code) list" where
  "string_to_status_code = map (\<lambda>(c, s). (s, c)) status_code_strings"

definition status_code_of_string :: "string \<Rightarrow> http_status_code" where
  "status_code_of_string s =
     (case map_of string_to_status_code s of None \<Rightarrow> unknown | Some c \<Rightarrow> c)"

definition status_code_string :: "http_status_code \<Rightarrow> string" where
  "status_code_string c =
     (case map_of status_code_strings c of None \<Rightarrow> [] | Some s \<Rightarrow> s)"

text \<open>The table names every code once, with a text of its own.\<close>

lemma status_codes_distinct:
  "distinct (map fst status_code_strings)" "distinct (map fst string_to_status_code)"
  by code_simp+

lemma status_codes_complete: "c \<in> set (map fst status_code_strings)"
  by (induct c; unfold status_code_strings_def list.map fst_conv list.set; (rule insertI1 | rule insertI2)+)

lemma status_code_string_entry: "(c, status_code_string c) \<in> set status_code_strings"
proof -
  obtain s where s: "(c, s) \<in> set status_code_strings"
    using status_codes_complete [of c] by auto
  then have "map_of status_code_strings c = Some s"
    using status_codes_distinct(1) by (rule map_of_is_SomeI [rotated])
  with s show ?thesis by (simp add: status_code_string_def)
qed

lemma status_code_inverse: "status_code_of_string (status_code_string c) = c"
proof -
  have "(status_code_string c, c) \<in> set string_to_status_code"
    using status_code_string_entry [of c] by (force simp: string_to_status_code_def)
  then have "map_of string_to_status_code (status_code_string c) = Some c"
    using status_codes_distinct(2) by (rule map_of_is_SomeI [rotated])
  then show ?thesis by (simp add: status_code_of_string_def)
qed

end
