(* ===== verification/Http_Message.thy ===== *)
theory Http_Message
  imports Web_Entities Status_Codes
begin

text \<open>
  HTTP messages as text: parsing a request and a response
  (src/network/web/http_utility.h), rendering a request in the client
  (src/network/web/http_client_impl.h) and a response in the server
  (src/network/web/http_server_impl.h). The lemmas are the two round trips between the
  peers. The header parser may not return, so the message parsers answer an option.
\<close>

section \<open>Parsing requests\<close>

record request_fields =
  rf_method :: string
  rf_path :: string
  rf_query :: string
  rf_version :: string
  rf_header :: multimap

definition request_fields_new :: request_fields where
  "request_fields_new =
     \<lparr>rf_method = [], rf_path = [], rf_query = [], rf_version = [], rf_header = []\<rparr>"

text \<open>The loop over the request line: where the query starts and where the target ends.\<close>

function path_scan :: "string \<Rightarrow> nat \<Rightarrow> nat option \<Rightarrow> nat option \<times> nat option" where
  "path_scan line i query_start =
     (if i < length line then
        if line ! i = CHR ''?'' \<and> i + 1 < length line then path_scan line (i + 1) (Some (i + 1))
        else if line ! i = CHR '' '' then (query_start, Some i)
        else path_scan line (i + 1) query_start
      else (query_start, None))"
  by pat_completeness auto
termination by (relation "measure (\<lambda>(line, i, _). length line - i)") auto

declare path_scan.simps [simp del]

text \<open>The target, once its end is known; without a query the old query string stays.\<close>

definition request_target :: "string \<Rightarrow> nat \<Rightarrow> nat option \<Rightarrow> nat \<Rightarrow> request_fields \<Rightarrow> request_fields" where
  "request_target line method_end query_start target_end f =
     (case query_start of
        Some qs \<Rightarrow> f\<lparr>rf_path := substr line (method_end + 1) (qs - method_end - 2),
                     rf_query := substr line qs (target_end - qs)\<rparr>
      | None \<Rightarrow> f\<lparr>rf_path := substr line (method_end + 1) (target_end - method_end - 1)\<rparr>)"

definition request_parse :: "istream \<Rightarrow> request_fields \<Rightarrow> (bool \<times> request_fields \<times> istream) option" where
  "request_parse stream f0 =
     (let f = f0\<lparr>rf_header := []\<rparr>; (line, st) = getline stream [] in
      case find_char CHR '' '' line of
        None \<Rightarrow> Some (False, f, st)
      | Some method_end \<Rightarrow>
          let f1 = f\<lparr>rf_method := take method_end line\<rparr> in
          (case path_scan line (method_end + 1) None of
             (_, None) \<Rightarrow> Some (False, f1, st)
           | (query_start, Some target_end) \<Rightarrow>
               let f2 = request_target line method_end query_start target_end f1 in
               (case find_char_from CHR ''/'' (target_end + 1) line of
                  None \<Rightarrow> Some (False, f2, st)
                | Some protocol_end \<Rightarrow>
                    if substr line (target_end + 1) (protocol_end - target_end - 1) \<noteq> ''HTTP''
                    then Some (False, f2, st)
                    else
                      let f3 = f2\<lparr>rf_version :=
                            (if length line < protocol_end + 2 then drop (protocol_end + 1) line
                             else substr line (protocol_end + 1) (length line - protocol_end - 2))\<rparr> in
                      map_option (\<lambda>(h, st'). (True, f3\<lparr>rf_header := h\<rparr>, st')) (header_parse st))))"

section \<open>Parsing responses\<close>

record response_fields =
  sf_version :: string
  sf_status_code :: string
  sf_header :: multimap

definition response_parse ::
    "istream \<Rightarrow> response_fields \<Rightarrow> (bool \<times> response_fields \<times> istream) option" where
  "response_parse stream f0 =
     (let f = f0\<lparr>sf_header := []\<rparr>; (line, st) = getline stream [] in
      case find_char CHR '' '' line of
        None \<Rightarrow> Some (False, f, st)
      | Some version_end \<Rightarrow>
          if 5 < length line then
            let f1 = f\<lparr>sf_version := (if version_end < 5 then drop 5 line else substr line 5 (version_end - 5))\<rparr> in
            if version_end + 1 < length line then
              let f2 = f1\<lparr>sf_status_code := substr line (version_end + 1) (length line - (version_end + 1) - 1)\<rparr>
              in map_option (\<lambda>(h, st'). (True, f2\<lparr>sf_header := h\<rparr>, st')) (header_parse st)
            else Some (False, f1, st)
          else Some (False, f, st))"

section \<open>The client's side of a request\<close>

text \<open>
  \<open>parse_host_port\<close>; \<open>stoul\<close> may throw, and the port is cut to 16 bits.
\<close>

definition parse_host_port :: "string \<Rightarrow> 16 word \<Rightarrow> (string \<times> 16 word) result" where
  "parse_host_port host_port default_port =
     (case find_char CHR '':'' host_port of
        None \<Rightarrow> Inr (host_port, default_port)
      | Some host_end \<Rightarrow>
          rbind (stoul 10 (drop (host_end + 1) host_port))
            (\<lambda>p. Inr (take host_end host_port, ucast p)))"

text \<open>What the constructor derives from the configuration, and which socket it is for.\<close>

record client_endpoint =
  ce_host :: string
  ce_port :: "16 word"
  ce_default_port :: "16 word"
  ce_proxy_server :: string
  ce_plain :: bool

definition client_endpoint_new :: "string \<Rightarrow> 16 word \<Rightarrow> string \<Rightarrow> bool \<Rightarrow> client_endpoint result" where
  "client_endpoint_new host port proxy plain =
     rbind (parse_host_port host port)
       (\<lambda>(h, p). Inr \<lparr>ce_host = h, ce_port = p, ce_default_port = port, ce_proxy_server = proxy,
                       ce_plain = plain\<rparr>)"

definition host_value :: "client_endpoint \<Rightarrow> string" where
  "host_value ep =
     ce_host ep @ (if ce_port ep \<noteq> ce_default_port ep then '':'' @ to_dec (unat (ce_port ep)) else [])"

definition correct_path :: "client_endpoint \<Rightarrow> string \<Rightarrow> string" where
  "correct_path ep path =
     (let p = (if path = [] then ''/'' else path) in
      if ce_proxy_server ep \<noteq> [] \<and> ce_plain ep
      then ''http://'' @ ce_host ep @ '':'' @ to_dec (unat (ce_port ep)) @ p else p)"

definition create_request_header :: "client_endpoint \<Rightarrow> string \<Rightarrow> string \<Rightarrow> multimap \<Rightarrow> string" where
  "create_request_header ep mtd path header =
     mtd @ '' '' @ correct_path ep path @ '' HTTP/1.1'' @ [CR, NL] @
     ''Host: '' @ host_value ep @ [CR, NL] @ header_text header"

definition needs_content_length :: "string \<Rightarrow> multimap \<Rightarrow> bool" where
  "needs_content_length content header =
     (content \<noteq> [] \<and> mm_find ''Content-Length'' header = None \<and>
      (case mm_find ''Transfer-Encoding'' header of None \<Rightarrow> True | Some v \<Rightarrow> v \<noteq> ''chunked''))"

definition client_request_text :: "client_endpoint \<Rightarrow> string \<Rightarrow> string \<Rightarrow> string \<Rightarrow> multimap \<Rightarrow> string" where
  "client_request_text ep mtd path content header =
     create_request_header ep mtd path header @
     (if needs_content_length content header
      then ''Content-Length: '' @ to_dec (length content) @ [CR, NL] else []) @
     [CR, NL] @ content"

section \<open>The server's side of a response\<close>

record http_response =
  sr_out :: string
  sr_close :: bool

definition http_response_new :: http_response where
  "http_response_new = \<lparr>sr_out = [], sr_close = False\<rparr>"

definition close_connection_after_response :: "http_response \<Rightarrow> http_response" where
  "close_connection_after_response r = r\<lparr>sr_close := True\<rparr>"

definition put :: "string \<Rightarrow> http_response \<Rightarrow> http_response" where
  "put s r = r\<lparr>sr_out := sr_out r @ s\<rparr>"

text \<open>The loop of \<open>write_header\<close>, with its flags for the two headers that frame the content.\<close>

fun write_fields :: "bool \<Rightarrow> bool \<Rightarrow> multimap \<Rightarrow> http_response \<Rightarrow> bool \<times> bool \<times> http_response" where
  "write_fields cl ch [] r = (cl, ch, r)"
| "write_fields cl ch ((k, v) # fs) r =
     (let cl' = (cl \<or> case_insensitive_equal k ''content-length'');
          ch' = (if \<not> cl \<and> case_insensitive_equal k ''content-length'' then ch
                 else ch \<or> (case_insensitive_equal k ''transfer-encoding'' \<and> case_insensitive_equal v ''chunked''))
      in write_fields cl' ch' fs (put (k @ '': '' @ v @ [CR, NL]) r))"

definition write_header :: "multimap \<Rightarrow> nat \<Rightarrow> http_response \<Rightarrow> http_response" where
  "write_header header n r =
     (let (cl, ch, r1) = write_fields False False header r in
      if \<not> cl \<and> \<not> ch \<and> \<not> sr_close r1
      then put (''Content-Length: '' @ to_dec n @ [CR, NL, CR, NL]) r1
      else put [CR, NL] r1)"

definition post_status :: "http_status_code \<Rightarrow> multimap \<Rightarrow> http_response \<Rightarrow> http_response" where
  "post_status code header r =
     write_header header 0 (put (''HTTP/1.1 '' @ status_code_string code @ [CR, NL]) r)"

definition post_content :: "http_status_code \<Rightarrow> string \<Rightarrow> multimap \<Rightarrow> http_response \<Rightarrow> http_response" where
  "post_content code content header r =
     (let r1 = write_header header (length content)
                 (put (''HTTP/1.1 '' @ status_code_string code @ [CR, NL]) r)
      in if content \<noteq> [] then put content r1 else r1)"

section \<open>Facts about the request line\<close>

lemma path_scan_plain:
  "CHR '' '' \<notin> set b \<Longrightarrow> CHR ''?'' \<notin> set b \<Longrightarrow>
   path_scan (a @ b @ r) (length a) qs = path_scan (a @ b @ r) (length (a @ b)) qs"
proof (induction b arbitrary: a)
  case (Cons c b)
  have "path_scan (a @ (c # b) @ r) (length a) qs = path_scan ((a @ [c]) @ b @ r) (length (a @ [c])) qs"
    using Cons.prems by (subst path_scan.simps) (auto simp: nth_append)
  also have "\<dots> = path_scan ((a @ [c]) @ b @ r) (length ((a @ [c]) @ b)) qs"
    using Cons.prems by (intro Cons.IH) auto
  finally show ?case by simp
qed simp

lemma path_scan_space:
  "path_scan (a @ CHR '' '' # r) (length a) qs = (qs, Some (length a))"
  by (subst path_scan.simps) (simp add: nth_append)

lemma path_scan_query:
  "r \<noteq> [] \<Longrightarrow> path_scan (a @ CHR ''?'' # r) (length a) qs = path_scan (a @ CHR ''?'' # r) (length a + 1) (Some (length a + 1))"
  by (subst path_scan.simps) (simp add: nth_append)

text \<open>A target of the request: a path and, when it is not empty, a query.\<close>

definition target_text :: "string \<Rightarrow> string \<Rightarrow> string" where
  "target_text path q = path @ (if q = [] then [] else ''?'' @ q)"

definition target_ok :: "string \<Rightarrow> bool" where
  "target_ok s \<longleftrightarrow> CHR '' '' \<notin> set s \<and> CHR ''?'' \<notin> set s \<and> NL \<notin> set s"

lemma path_scan_target:
  assumes "target_ok path" and "target_ok q"
  shows "path_scan (a @ target_text path q @ CHR '' '' # r) (length a) None =
    ((if q = [] then None else Some (length a + length path + 1)),
     Some (length a + length (target_text path q)))"
proof (cases "q = []")
  case True
  have "path_scan (a @ path @ CHR '' '' # r) (length a) None =
      path_scan (a @ path @ CHR '' '' # r) (length (a @ path)) None"
    using assms by (intro path_scan_plain) (auto simp: target_ok_def)
  with True show ?thesis
    using path_scan_space [of "a @ path" r None] by (simp add: target_text_def)
next
  case False
  have "path_scan (a @ path @ CHR ''?'' # q @ CHR '' '' # r) (length a) None =
      path_scan (a @ path @ CHR ''?'' # q @ CHR '' '' # r) (length (a @ path)) None"
    using assms by (intro path_scan_plain) (auto simp: target_ok_def)
  also have "\<dots> = path_scan ((a @ path @ ''?'') @ q @ CHR '' '' # r) (length (a @ path @ ''?''))
      (Some (length a + length path + 1))"
    using path_scan_query [of "q @ CHR '' '' # r" "a @ path" None] by simp
  also have "\<dots> = path_scan ((a @ path @ ''?'') @ q @ CHR '' '' # r) (length ((a @ path @ ''?'') @ q))
      (Some (length a + length path + 1))"
    using assms by (intro path_scan_plain) (auto simp: target_ok_def)
  also have "\<dots> = (Some (length a + length path + 1), Some (length a + length (target_text path q)))"
    using path_scan_space [of "a @ path @ ''?'' @ q" r "Some (length a + length path + 1)"] False
    by (simp add: target_text_def)
  finally show ?thesis using False by (simp add: target_text_def)
qed

lemma request_line_parse:
  assumes m: "CHR '' '' \<notin> set mtd" "NL \<notin> set mtd"
    and t: "target_ok path" "target_ok q" and v: "NL \<notin> set ver"
    and h: "header_parse (open_istream rest) = Some (hs, st)"
    and f: "rf_query f0 = []"
  shows "request_parse (open_istream (mtd @ '' '' @ target_text path q @ '' HTTP/'' @ ver @ [CR, NL] @ rest)) f0 =
    Some (True, \<lparr>rf_method = mtd, rf_path = path, rf_query = q, rf_version = ver, rf_header = hs\<rparr>, st)"
proof -
  let ?line = "mtd @ '' '' @ target_text path q @ '' HTTP/'' @ ver @ [CR]"
  let ?t = "length mtd + 1 + length (target_text path q)"
  have nl: "NL \<notin> set ?line"
    using m t v by (auto simp: target_text_def target_ok_def)
  have g: "getline (open_istream (mtd @ '' '' @ target_text path q @ '' HTTP/'' @ ver @ [CR, NL] @ rest)) [] =
      (?line, open_istream rest)"
    using getline_line [OF nl, of rest "[]"] by simp
  have me: "find_char CHR '' '' ?line = Some (length mtd)"
    using find_char_append [OF m(1), of "target_text path q @ '' HTTP/'' @ ver @ [CR]"] by simp
  have ps: "path_scan ?line (length mtd + 1) None =
      ((if q = [] then None else Some (length mtd + 1 + length path + 1)), Some ?t)"
    using path_scan_target [OF t, of "mtd @ '' ''" "''HTTP/'' @ ver @ [CR]"] by simp
  have dr: "drop (Suc ?t) ?line = ''HTTP/'' @ ver @ [CR]"
    by simp
  have pe: "find_char_from CHR ''/'' (?t + 1) ?line = Some (?t + 5)"
    using dr by (simp add: find_char_from_def)
  have proto: "substr ?line (?t + 1) (?t + 5 - ?t - 1) = ''HTTP''"
    using dr by (simp add: substr_def)
  have "drop (?t + 5 + 1) ?line = drop 5 (drop (Suc ?t) ?line)"
    by (simp only: drop_drop) (simp add: add.commute add.left_commute)
  then have "drop (?t + 5 + 1) ?line = ver @ [CR]"
    unfolding dr by simp
  then have ver: "substr ?line (?t + 5 + 1) (length ?line - (?t + 5) - 2) = ver"
    unfolding substr_def by simp
  have tgt: "request_target ?line (length mtd) (if q = [] then None else Some (length mtd + 1 + length path + 1)) ?t f =
      f\<lparr>rf_path := path, rf_query := (if q = [] then rf_query f else q)\<rparr>" for f
    by (auto simp: request_target_def substr_def target_text_def)
  show ?thesis
    unfolding request_parse_def g Let_def prod.case me option.case ps tgt pe proto
    using ver f by (simp add: h)
qed

section \<open>Round trips\<close>

definition header_ok :: "multimap \<Rightarrow> bool" where
  "header_ok fs \<longleftrightarrow> (\<forall>(n, v) \<in> set fs. header_name_ok n \<and> header_value_ok v)"

lemma header_text_append: "header_text (fs @ gs) = header_text fs @ header_text gs"
  by (simp add: header_text_def)

lemma to_dec_header_value [simp]: "header_value_ok (to_dec n)"
proof -
  have "c \<noteq> NL \<and> c \<noteq> CHR '' ''" if "c \<in> set (to_dec n)" for c
    using to_dec_digits [of n] that by (auto simp: is_digit_def)
  then show ?thesis using hd_in_set [of "to_dec n"] by (auto simp: header_value_ok_def)
qed

lemma header_text_Nil [simp]: "header_text [] = []"
  by (simp add: header_text_def)

definition content_length_field :: "nat \<Rightarrow> multimap" where
  "content_length_field n = [(''Content-Length'', to_dec n)]"

lemma header_ok_content_length [simp]: "header_ok (content_length_field n)"
  by (simp add: header_ok_def content_length_field_def header_name_ok_def)

lemma header_ok_append [simp]: "header_ok (fs @ gs) \<longleftrightarrow> header_ok fs \<and> header_ok gs"
  by (auto simp: header_ok_def)

lemma header_ok_Nil [simp]: "header_ok []"
  by (simp add: header_ok_def)

lemma header_text_content_length:
  "header_text (content_length_field n) = ''Content-Length: '' @ to_dec n @ [CR, NL]"
  by (simp add: header_text_def header_line_def content_length_field_def)

text \<open>The header a server sees for a request of the client.\<close>

definition request_header_seen :: "client_endpoint \<Rightarrow> string \<Rightarrow> multimap \<Rightarrow> multimap" where
  "request_header_seen ep content header =
     (''Host'', host_value ep) # header @
     (if needs_content_length content header then content_length_field (length content) else [])"

lemma client_request_text_eq:
  "client_request_text ep mtd path content header =
   mtd @ '' '' @ correct_path ep path @ '' HTTP/'' @ ''1.1'' @ [CR, NL] @
   header_text (request_header_seen ep content header) @ CR # NL # content"
proof -
  have host: "header_text (h # hs) = header_line h @ header_text hs" for h hs
    by (simp add: header_text_def)
  show ?thesis
    by (simp add: client_request_text_def create_request_header_def request_header_seen_def host
        header_text_append header_text_content_length header_line_def)
qed

lemma request_header_ok:
  "header_ok header \<Longrightarrow> header_value_ok (host_value ep) \<Longrightarrow> header_ok (request_header_seen ep content header)"
  by (auto simp: request_header_seen_def header_ok_def content_length_field_def header_name_ok_def)

text \<open>The two flags of \<open>write_header\<close>.\<close>

definition has_content_length :: "multimap \<Rightarrow> bool" where
  "has_content_length fs \<longleftrightarrow> (\<exists>(k, v) \<in> set fs. case_insensitive_equal k ''content-length'')"

definition is_chunked :: "multimap \<Rightarrow> bool" where
  "is_chunked fs \<longleftrightarrow>
     (\<exists>(k, v) \<in> set fs. case_insensitive_equal k ''transfer-encoding'' \<and> case_insensitive_equal v ''chunked'')"

lemma not_both_framings:
  "case_insensitive_equal k ''content-length'' \<Longrightarrow> \<not> case_insensitive_equal k ''transfer-encoding''"
  by (auto simp: case_insensitive_equal_def)

lemma write_fields_eq:
  "write_fields cl ch fs r = (cl \<or> has_content_length fs, ch \<or> is_chunked fs, put (header_text fs) r)"
proof (induction fs arbitrary: cl ch r)
  case Nil
  then show ?case by (simp add: has_content_length_def is_chunked_def put_def header_text_def)
next
  case (Cons f fs)
  then show ?case
    using not_both_framings [of "fst f"]
    by (cases f) (auto simp: has_content_length_def is_chunked_def put_def header_text_def header_line_def)
qed

text \<open>The header a client sees for a response of the server.\<close>

definition response_header_seen :: "bool \<Rightarrow> nat \<Rightarrow> multimap \<Rightarrow> multimap" where
  "response_header_seen close n header =
     header @ (if \<not> has_content_length header \<and> \<not> is_chunked header \<and> \<not> close
               then content_length_field n else [])"

lemma write_header_eq:
  "write_header header n r =
   put (header_text (response_header_seen (sr_close r) n header) @ [CR, NL]) r"
  by (simp add: write_header_def write_fields_eq put_def response_header_seen_def header_text_append
      header_text_content_length)

lemma post_content_eq:
  "sr_out (post_content code content header r) =
   sr_out r @ ''HTTP/1.1 '' @ status_code_string code @ [CR, NL] @
   header_text (response_header_seen (sr_close r) (length content) header) @ CR # NL # content"
  by (simp add: post_content_def write_header_eq put_def Let_def)

lemma post_status_content: "post_status code header r = post_content code [] header r"
  by (simp add: post_status_def post_content_def)

lemma status_text_plain: "NL \<notin> set (status_code_string c)"
proof -
  have "\<forall>(c, s) \<in> set status_code_strings. NL \<notin> set s"
    by (simp add: status_code_strings_def)
  with status_code_string_entry [of c] show ?thesis by blast
qed

lemma response_line_parse:
  assumes "header_parse (open_istream rest) = Some (hs, st)"
  shows "response_parse (open_istream (''HTTP/1.1 '' @ status_code_string c @ [CR, NL] @ rest)) f0 =
    Some (True, \<lparr>sf_version = ''1.1'', sf_status_code = status_code_string c, sf_header = hs\<rparr>, st)"
proof -
  have nl: "NL \<notin> set (''HTTP/1.1 '' @ status_code_string c @ [CR])"
    using status_text_plain [of c] by simp
  have g: "getline (open_istream (''HTTP/1.1 '' @ status_code_string c @ [CR, NL] @ rest)) [] =
      (''HTTP/1.1 '' @ status_code_string c @ [CR], open_istream rest)"
    using getline_line [OF nl, of rest "[]"] by simp
  show ?thesis
    unfolding response_parse_def g Let_def prod.case
    using assms by (simp add: substr_def)
qed

section \<open>Properties\<close>

text \<open>C23: What the client writes for a request is what the server's parser reads: the method, the path
  and the query, version 1.1, the Host field, the caller's fields in their order and the
  Content-Length the client adds, and the stream is left at the first byte of the content.\<close>
theorem request_round_trip:
  assumes "CHR '' '' \<notin> set mtd" and "NL \<notin> set mtd"
    and "correct_path ep path = target_text p q" and "target_ok p" and "target_ok q"
    and "header_ok header" and "header_value_ok (host_value ep)"
  shows "request_parse (open_istream (client_request_text ep mtd path content header)) request_fields_new =
    Some (True, \<lparr>rf_method = mtd, rf_path = p, rf_query = q, rf_version = ''1.1'',
                 rf_header = request_header_seen ep content header\<rparr>, open_istream content)"
proof -
  have "header_parse (open_istream (header_text (request_header_seen ep content header) @ CR # NL # content)) =
      Some (request_header_seen ep content header, open_istream content)"
    using request_header_ok [OF assms(6,7), of content] header_parse_text by (simp add: header_ok_def)
  note h = this
  show ?thesis
    unfolding client_request_text_eq assms(3)
    by (rule request_line_parse [OF assms(1,2,4,5) _ h]) (simp_all add: request_fields_new_def)
qed

definition example_endpoint :: client_endpoint where
  "example_endpoint =
     \<lparr>ce_host = ''localhost'', ce_port = 8080, ce_default_port = 80, ce_proxy_server = [], ce_plain = True\<rparr>"

theorem request_round_trip_witness:
  "request_parse (open_istream (client_request_text example_endpoint ''GET'' ''/a?x=1'' ''hi'' [(''K'', ''v'')]))
     request_fields_new =
   Some (True, \<lparr>rf_method = ''GET'', rf_path = ''/a'', rf_query = ''x=1'', rf_version = ''1.1'',
                rf_header = request_header_seen example_endpoint ''hi'' [(''K'', ''v'')]\<rparr>, open_istream ''hi'')"
proof (rule request_round_trip)
  show "header_value_ok (host_value example_endpoint)"
    using to_dec_header_value [of 8080]
    by (simp add: header_value_ok_def host_value_def example_endpoint_def)
qed (simp_all add: correct_path_def example_endpoint_def target_text_def target_ok_def header_ok_def
      header_name_ok_def header_value_ok_def)

text \<open>
  What the server writes for a response is what the client's parser reads: version 1.1, the
  status text, the handler's fields in their order and the Content-Length the server adds, and
  the stream is left at the first byte of the content; the length parses back to the size.\<close>
lemma response_round_trip:
  assumes "header_ok header"
  shows "response_parse (open_istream (sr_out (post_content code content header http_response_new))) f0 =
    Some (True, \<lparr>sf_version = ''1.1'', sf_status_code = status_code_string code,
                 sf_header = response_header_seen False (length content) header\<rparr>, open_istream content) \<and>
    (\<not> has_content_length header \<and> \<not> is_chunked header \<and> length content < 2 ^ 64 \<longrightarrow>
     (\<exists>v. mm_find ''Content-Length'' (response_header_seen False (length content) header) = Some v \<and>
          stoul 10 v = Inr (word_of_nat (length content))))"
proof
  have "header_ok (response_header_seen False (length content) header)"
    using assms by (simp add: response_header_seen_def)
  then have "header_parse (open_istream
        (header_text (response_header_seen False (length content) header) @ CR # NL # content)) =
      Some (response_header_seen False (length content) header, open_istream content)"
    using header_parse_text by (simp add: header_ok_def)
  note h = this
  have "sr_out (post_content code content header http_response_new) =
      ''HTTP/1.1 '' @ status_code_string code @ [CR, NL] @
      header_text (response_header_seen False (length content) header) @ CR # NL # content"
    unfolding post_content_eq by (simp add: http_response_new_def)
  then show "response_parse (open_istream (sr_out (post_content code content header http_response_new))) f0 =
    Some (True, \<lparr>sf_version = ''1.1'', sf_status_code = status_code_string code,
                 sf_header = response_header_seen False (length content) header\<rparr>, open_istream content)"
    using response_line_parse [OF h, of code f0] by simp
next
  show "\<not> has_content_length header \<and> \<not> is_chunked header \<and> length content < 2 ^ 64 \<longrightarrow>
     (\<exists>v. mm_find ''Content-Length'' (response_header_seen False (length content) header) = Some v \<and>
          stoul 10 v = Inr (word_of_nat (length content)))"
    using stoul_to_dec [of "[]" "length content"]
    by (simp add: response_header_seen_def content_length_field_def mm_find_snoc)
qed

lemma response_round_trip_witness:
  "response_parse (open_istream (sr_out (post_content success_ok ''hi'' [(''K'', ''v'')] http_response_new)))
     \<lparr>sf_version = [], sf_status_code = [], sf_header = []\<rparr> =
    Some (True, \<lparr>sf_version = ''1.1'', sf_status_code = status_code_string success_ok,
                 sf_header = response_header_seen False 2 [(''K'', ''v'')]\<rparr>, open_istream ''hi'')"
  using response_round_trip [of "[(''K'', ''v'')]" success_ok "''hi''" "\<lparr>sf_version = [], sf_status_code = [], sf_header = []\<rparr>"]
  by (simp add: header_ok_def header_name_ok_def header_value_ok_def numeral_2_eq_2)

text \<open>
  Every status code is written with a text from which status_code finds the same code again.\<close>
lemma status_code_round_trip: "status_code_of_string (status_code_string c) = c"
  by (rule status_code_inverse)

end
