(* ===== verification/Http_Server.thy ===== *)
theory Http_Server
  imports Http_Message
begin

text \<open>
  The server's session (src/network/web/http_server_impl.h): reading a request from a socket,
  by content length or in chunks, the limits on what is buffered, choosing the handler, and
  the decision to keep the connection. The socket is boost.asio's: the two composed reads are
  parameters, gathered in a record, and what the code relies on of them is \<open>socket_law\<close>.
  Matching a path against a regular expression is a parameter as well.
\<close>

section \<open>The socket\<close>

datatype ecode =
    Ec_none | Ec_not_found | Ec_eof | Ec_operation_aborted
  | Ec_message_size | Ec_protocol_error | Ec_operation_canceled | Ec_other nat

text \<open>
  \<open>async_read_until\<close> gets the limit of the buffer, the delimiter, the buffer and the state of
  the network, and answers the error, the bytes up to the end of the delimiter, the buffer and
  the network; \<open>async_read\<close> with \<open>transfer_exactly\<close> gets the number of bytes. \<open>so_running\<close> is
  whether \<open>continue_lock\<close> still gives a lock when the handler runs.
\<close>

record 'n socket_ops =
  so_read_until :: "nat \<Rightarrow> string \<Rightarrow> string \<Rightarrow> 'n \<Rightarrow> ecode \<times> nat \<times> string \<times> 'n"
  so_read_exactly :: "nat \<Rightarrow> nat \<Rightarrow> string \<Rightarrow> 'n \<Rightarrow> ecode \<times> string \<times> 'n"
  so_running :: "'n \<Rightarrow> bool"

text \<open>
  What asio documents, for a peer whose bytes to come are \<open>pending n\<close> and reads that stay
  below the limit: \<open>async_read_until\<close> completes when the delimiter is in the buffer, at the
  first occurrence, having read some bytes more or not; \<open>async_read\<close> reads what it is asked.
\<close>

definition socket_law :: "'n socket_ops \<Rightarrow> ('n \<Rightarrow> string) \<Rightarrow> bool" where
  "socket_law ops pending \<longleftrightarrow>
     (\<forall>mx d buf n i. find_sub d (buf @ pending n) = Some i \<longrightarrow> length buf + length (pending n) < mx \<longrightarrow>
        (\<exists>x n'. so_read_until ops mx d buf n = (Ec_none, i + length d, buf @ take x (pending n), n') \<and>
           pending n' = drop x (pending n) \<and> i + length d \<le> length (buf @ take x (pending n)) \<and>
           so_running ops n')) \<and>
     (\<forall>mx k buf n. k \<le> length (pending n) \<longrightarrow> length buf + length (pending n) < mx \<longrightarrow>
        (\<exists>n'. so_read_exactly ops mx k buf n = (Ec_none, buf @ take k (pending n), n') \<and>
           pending n' = drop k (pending n) \<and> so_running ops n'))"

section \<open>The session\<close>

text \<open>\<open>hs_content\<close> is the input stream over the stream buffer of the request.\<close>

record http_session =
  hs_id :: "64 word"
  hs_content :: istream
  hs_request :: request_fields

definition http_session_new :: "64 word \<Rightarrow> http_session \<times> 64 word" where
  "http_session_new next_id =
     (\<lparr>hs_id = next_id, hs_content = open_istream [], hs_request = request_fields_new\<rparr>, next_id + 1)"

abbreviation buffer :: "http_session \<Rightarrow> string" where
  "buffer s \<equiv> i_data (hs_content s)"

definition set_buffer :: "string \<Rightarrow> http_session \<Rightarrow> http_session" where
  "set_buffer b s = s\<lparr>hs_content := (hs_content s)\<lparr>i_data := b\<rparr>\<rparr>"

text \<open>
  How reading a request ends: with a request for a handler, silently because the server
  stops, with \<open>on_error\<close>, with the answer 413 and \<open>on_error(message_size)\<close>, or with an exception
  that the callback logs.
\<close>

datatype read_outcome =
    Read_done
  | Read_cancelled
  | Read_failed ecode
  | Read_too_large
  | Read_threw srv_error

section \<open>Reading the header\<close>

datatype header_next = Header_stop read_outcome | Header_read_exactly nat | Header_chunked

definition header_framing :: "nat \<Rightarrow> multimap \<Rightarrow> header_next" where
  "header_framing num_additional_bytes header =
     (case mm_find ''Content-Length'' header of
        Some v \<Rightarrow>
          (case stoul 10 v of
             Inl e \<Rightarrow> Header_stop (Read_failed Ec_protocol_error)
           | Inr content_length \<Rightarrow>
               if unat content_length > num_additional_bytes
               then Header_read_exactly (unat content_length - num_additional_bytes)
               else Header_stop Read_done)
      | None \<Rightarrow>
          if mm_find ''Transfer-Encoding'' header = Some ''chunked'' then Header_chunked
          else Header_stop Read_done)"

text \<open>The handler of the first read; \<open>None\<close> is a header parser that does not return.\<close>

definition on_header_read ::
    "nat \<Rightarrow> ecode \<Rightarrow> nat \<Rightarrow> http_session \<Rightarrow> (header_next \<times> http_session) option" where
  "on_header_read mx ec bytes_transferred s =
     (if (ec = Ec_none \<or> ec = Ec_not_found) \<and> length (buffer s) = mx then Some (Header_stop Read_too_large, s)
      else if ec = Ec_none then
        let num_additional_bytes = length (buffer s) - bytes_transferred in
        map_option (\<lambda>(ok, f, st).
            let s1 = s\<lparr>hs_request := f, hs_content := st\<rparr> in
            if \<not> ok then (Header_stop (Read_failed Ec_protocol_error), s1)
            else (header_framing num_additional_bytes (rf_header f), s1))
          (request_parse (hs_content s) (hs_request s))
      else Some (Header_stop (Read_failed ec), s))"

section \<open>Chunked content\<close>

datatype chunk_next = Chunk_stop read_outcome | Chunk_read_exactly nat "64 word" | Chunk_take "64 word"

text \<open>
  The handler of the read of a size line. Dropping the last character of an empty line is
  undefined, and the sum with the two bytes after the chunk wraps.
\<close>

definition on_chunk_line :: "nat \<Rightarrow> ecode \<Rightarrow> nat \<Rightarrow> http_session \<Rightarrow> chunk_next \<times> http_session" where
  "on_chunk_line mx ec bytes_transferred s =
     (if (ec = Ec_none \<or> ec = Ec_not_found) \<and> length (buffer s) = mx then (Chunk_stop Read_too_large, s)
      else if ec = Ec_none then
        let (line, st) = getline (hs_content s) [];
            s1 = s\<lparr>hs_content := st\<rparr>;
            bytes = bytes_transferred - (length line + 1)
        in if line = [] then (Chunk_stop (Read_threw (Undefined ''pop_back of an empty string'')), s1)
           else
             (case stoul 16 (butlast line) of
                Inl e \<Rightarrow> (Chunk_stop (Read_failed Ec_protocol_error), s1)
              | Inr len \<Rightarrow>
                  let num_additional_bytes = length (buffer s1) - bytes in
                  if unat (2 + len) > num_additional_bytes
                  then (Chunk_read_exactly (unat (2 + len) - num_additional_bytes) len, s1)
                  else (Chunk_take len, s1))
      else (Chunk_stop (Read_failed ec), s))"

text \<open>
  \<open>read_chunked_transfer_encoded_chunk\<close>: the bytes of the chunk go to a second buffer with the
  same limit, two characters are dropped, and after the chunk of length zero the second buffer
  is appended to what is left of the first. \<open>None\<close> in the first component asks for the next
  chunk.
\<close>

definition take_chunk ::
    "nat \<Rightarrow> 64 word \<Rightarrow> http_session \<Rightarrow> string \<Rightarrow> read_outcome option \<times> http_session \<times> string" where
  "take_chunk mx len s chunks =
     (let n = unat len in
      if n \<ge> 2 ^ 63 then (Some (Read_threw (Failure ''bad_array_new_length'')), s, chunks)
      else
        let chunks1 = (if n > 0 then take mx (chunks @ take n (buffer s)) else chunks);
            s1 = (if n > 0 then set_buffer (drop n (buffer s)) s else s)
        in if n > 0 \<and> length chunks1 = mx then (Some Read_too_large, s1, chunks1)
           else
             let s2 = set_buffer (drop 2 (buffer s1)) s1 in
             if n > 0 then (None, s2, chunks1)
             else (Some Read_done,
                   (if chunks1 \<noteq> [] then set_buffer (take mx (buffer s2 @ chunks1)) s2 else s2), chunks1))"

partial_function (option) read_chunked ::
    "'n socket_ops \<Rightarrow> nat \<Rightarrow> http_session \<Rightarrow> string \<Rightarrow> 'n \<Rightarrow> (read_outcome \<times> http_session \<times> 'n) option" where
  "read_chunked ops mx s chunks n =
     (case so_read_until ops mx [CR, NL] (buffer s) n of
        (ec, bytes, b, n1) \<Rightarrow>
          if \<not> so_running ops n1 then Some (Read_cancelled, set_buffer b s, n1)
          else
            (case on_chunk_line mx ec bytes (set_buffer b s) of
               (Chunk_stop r, s1) \<Rightarrow> Some (r, s1, n1)
             | (Chunk_take len, s1) \<Rightarrow>
                 (case take_chunk mx len s1 chunks of
                    (Some r, s2, _) \<Rightarrow> Some (r, s2, n1)
                  | (None, s2, chunks2) \<Rightarrow> read_chunked ops mx s2 chunks2 n1)
             | (Chunk_read_exactly k len, s1) \<Rightarrow>
                 (case so_read_exactly ops mx k (buffer s1) n1 of
                    (ec2, b2, n2) \<Rightarrow>
                      if \<not> so_running ops n2 then Some (Read_cancelled, set_buffer b2 s1, n2)
                      else if ec2 \<noteq> Ec_none then Some (Read_failed ec2, set_buffer b2 s1, n2)
                      else if length b2 = mx then Some (Read_too_large, set_buffer b2 s1, n2)
                      else
                        (case take_chunk mx len (set_buffer b2 s1) chunks of
                           (Some r, s2, _) \<Rightarrow> Some (r, s2, n2)
                         | (None, s2, chunks2) \<Rightarrow> read_chunked ops mx s2 chunks2 n2))))"

section \<open>Reading a request\<close>

definition server_read ::
    "'n socket_ops \<Rightarrow> nat \<Rightarrow> http_session \<Rightarrow> 'n \<Rightarrow> (read_outcome \<times> http_session \<times> 'n) option" where
  "server_read ops mx s n =
     (case so_read_until ops mx [CR, NL, CR, NL] (buffer s) n of
        (ec, bytes, b, n1) \<Rightarrow>
          if \<not> so_running ops n1 then Some (Read_cancelled, set_buffer b s, n1)
          else
            (case on_header_read mx ec bytes (set_buffer b s) of
               None \<Rightarrow> None
             | Some (Header_stop r, s1) \<Rightarrow> Some (r, s1, n1)
             | Some (Header_chunked, s1) \<Rightarrow> read_chunked ops mx s1 [] n1
             | Some (Header_read_exactly k, s1) \<Rightarrow>
                 (case so_read_exactly ops mx k (buffer s1) n1 of
                    (ec2, b2, n2) \<Rightarrow>
                      if \<not> so_running ops n2 then Some (Read_cancelled, set_buffer b2 s1, n2)
                      else if ec2 \<noteq> Ec_none then Some (Read_failed ec2, set_buffer b2 s1, n2)
                      else if length b2 = mx then Some (Read_too_large, set_buffer b2 s1, n2)
                      else Some (Read_done, set_buffer b2 s1, n2))))"

section \<open>Choosing the handler\<close>

text \<open>
  The resources in the order of their map: by the text of the regular expression, each with
  its handlers by method. A handler is a number.
\<close>

record resources =
  rs_resource :: "(string \<times> (string \<times> nat) list) list"
  rs_default :: "(string \<times> nat) list"
  rs_has_upgrade :: bool

datatype route = Route_upgrade | Route_match string nat | Route_default nat | Route_none

fun find_regex ::
    "(string \<Rightarrow> string \<Rightarrow> bool) \<Rightarrow> string \<Rightarrow> string \<Rightarrow> (string \<times> (string \<times> nat) list) list \<Rightarrow>
     (string \<times> nat) option" where
  "find_regex regex_match mtd path [] = None"
| "find_regex regex_match mtd path ((rx, methods) # rs) =
     (case map_of methods mtd of
        None \<Rightarrow> find_regex regex_match mtd path rs
      | Some h \<Rightarrow>
          if regex_match rx path then Some (rx, h) else find_regex regex_match mtd path rs)"

definition find_resource :: "(string \<Rightarrow> string \<Rightarrow> bool) \<Rightarrow> resources \<Rightarrow> request_fields \<Rightarrow> route" where
  "find_resource regex_match rs f =
     (if rs_has_upgrade rs \<and> mm_contains ''Upgrade'' (rf_header f) then Route_upgrade
      else
        (case find_regex regex_match (rf_method f) (rf_path f) (rs_resource rs) of
           Some (rx, h) \<Rightarrow> Route_match rx h
         | None \<Rightarrow>
             (case map_of (rs_default rs) (rf_method f) of
                Some h \<Rightarrow> Route_default h
              | None \<Rightarrow> Route_none)))"

section \<open>After the response\<close>

text \<open>\<open>operator>=\<close> on strings: bytes compared as unsigned, then the lengths.\<close>

fun string_less :: "string \<Rightarrow> string \<Rightarrow> bool" where
  "string_less [] [] = False"
| "string_less [] (_ # _) = True"
| "string_less (_ # _) [] = False"
| "string_less (a # s) (b # t) = (if a = b then string_less s t else a < b)"

text \<open>\<open>equal_range(key)\<close>: the values of the key.\<close>

definition equal_range :: "string \<Rightarrow> multimap \<Rightarrow> string list" where
  "equal_range k m = map snd (filter (\<lambda>(k', _). case_insensitive_equal k' k) m)"

fun connection_decision :: "string list \<Rightarrow> bool option" where
  "connection_decision [] = None"
| "connection_decision (v # vs) =
     (if case_insensitive_equal v ''close'' then Some False
      else if case_insensitive_equal v ''keep-alive'' then Some True
      else connection_decision vs)"

text \<open>Whether the callback of \<open>send\<close> starts to read the next request on the connection.\<close>

datatype after_send = Next_request | Close_connection | After_send_error ecode

definition on_response_sent :: "ecode \<Rightarrow> bool \<Rightarrow> request_fields \<Rightarrow> after_send" where
  "on_response_sent ec close_after f =
     (if ec = Ec_none then
        if close_after then Close_connection
        else
          (case connection_decision (equal_range ''Connection'' (rf_header f)) of
             Some b \<Rightarrow> if b then Next_request else Close_connection
           | None \<Rightarrow> if \<not> string_less (rf_version f) ''1.1'' then Next_request else Close_connection)
      else After_send_error ec)"

section \<open>Reading content by its length\<close>

lemma buffer_set_buffer [simp]:
  "buffer (set_buffer b s) = b" "hs_request (set_buffer b s) = hs_request s" "hs_id (set_buffer b s) = hs_id s"
  by (simp_all add: set_buffer_def)

lemma set_buffer_open:
  "hs_content s = open_istream b \<Longrightarrow> hs_content (set_buffer b' s) = open_istream b'"
  by (simp add: set_buffer_def open_istream_def)

lemma open_istream_update [simp]: "(open_istream a)\<lparr>i_data := b\<rparr> = open_istream b"
  by (simp add: open_istream_def)

lemma set_buffer_twice [simp]: "set_buffer a (set_buffer b s) = set_buffer a s"
  by (simp add: set_buffer_def)

text \<open>The first read ends at the empty line after the header, the first place of two line ends.\<close>

lemma find_sub_at:
  "(\<forall>i < length a. take (length p) (drop i (a @ p @ r)) \<noteq> p) \<Longrightarrow> find_sub p (a @ p @ r) = Some (length a)"
proof (induction a)
  case Nil
  have "take (length p) (p @ r) = p" by simp
  then show ?case by (cases "p @ r") (auto simp del: take_append)
next
  case (Cons c a)
  have "take (length p) ((c # a) @ p @ r) \<noteq> p" using Cons.prems by (metis drop_0 length_greater_0_conv list.distinct(1))
  moreover have "\<forall>i < length a. take (length p) (drop i (a @ p @ r)) \<noteq> p"
    using Cons.prems by (metis Suc_less_eq append_Cons drop_Suc_Cons length_Cons)
  ultimately show ?case using Cons.IH by simp
qed

lemma find_sub_crlf:
  assumes "CR \<notin> set h"
  shows "find_sub [CR, NL] (h @ CR # NL # r) = Some (length h)"
proof -
  have "take 2 (drop i (h @ CR # NL # r)) \<noteq> [CR, NL]" if "i < length h" for i
  proof -
    have "h ! i \<noteq> CR" using assms that nth_mem by metis
    then have "(h @ CR # NL # r) ! i \<noteq> CR" using that by (simp add: nth_append)
    moreover have "i < length (h @ CR # NL # r)" using that by simp
    ultimately show ?thesis by (cases "drop i (h @ CR # NL # r)") (auto simp: nth_via_drop)
  qed
  then have "\<forall>i < length h. take (length [CR, NL]) (drop i (h @ [CR, NL] @ r)) \<noteq> [CR, NL]"
    by (simp add: numeral_2_eq_2 del: take_append drop_append)
  from find_sub_at [OF this] show ?thesis by simp
qed

text \<open>
  One read of a chunk, wherever the network cuts the bytes: the size line in hexadecimal, the
  chunk and its line end are consumed, and exactly the chunk is kept.
\<close>

definition chunk_text :: "string \<times> string \<Rightarrow> string" where
  "chunk_text hc = fst hc @ [CR, NL] @ snd hc @ [CR, NL]"

definition size_line_ok :: "string \<times> string \<Rightarrow> bool" where
  "size_line_ok hc \<longleftrightarrow>
     CR \<notin> set (fst hc) \<and> NL \<notin> set (fst hc) \<and> length (snd hc) < 2 ^ 63 \<and>
     stoul 16 (fst hc) = Inr (word_of_nat (length (snd hc)))"

lemma on_chunk_line_size:
  assumes ok: "size_line_ok hc" and st: "hs_content s = open_istream (fst hc @ [CR, NL] @ b)"
    and mx: "length (buffer s) < mx"
  shows "on_chunk_line mx Ec_none (length (fst hc) + 2) s =
    ((if length (snd hc) + 2 > length b
      then Chunk_read_exactly (length (snd hc) + 2 - length b) (word_of_nat (length (snd hc)))
      else Chunk_take (word_of_nat (length (snd hc)))), s\<lparr>hs_content := open_istream b\<rparr>)"
proof -
  have nl: "NL \<notin> set (fst hc @ [CR])" using ok by (simp add: size_line_ok_def)
  have g: "getline (hs_content s) [] = (fst hc @ [CR], open_istream b)"
    using getline_line [OF nl, of b "[]"] st by simp
  have "unat (2 + word_of_nat (length (snd hc)) :: 64 word) = length (snd hc) + 2"
  proof -
    have "(2 + word_of_nat (length (snd hc)) :: 64 word) = word_of_nat (length (snd hc) + 2)" by simp
    moreover have "length (snd hc) + 2 < 2 ^ 64" using ok by (simp add: size_line_ok_def)
    ultimately show ?thesis by (simp only: unat_of_nat) simp
  qed
  then show ?thesis
    using mx ok by (simp add: on_chunk_line_def g Let_def size_line_ok_def)
qed

lemma take_chunk_some:
  assumes len: "0 < length c" "length c < 2 ^ 63" and st: "hs_content s = open_istream (c @ [CR, NL] @ b)"
    and mx: "length (chunks @ c) < mx"
  shows "take_chunk mx (word_of_nat (length c)) s chunks = (None, s\<lparr>hs_content := open_istream b\<rparr>, chunks @ c)"
proof -
  have "unat (word_of_nat (length c) :: 64 word) = length c"
    using len(2) by (simp only: unat_of_nat) simp
  then show ?thesis
    using assms by (simp add: take_chunk_def Let_def set_buffer_def open_istream_def)
qed

lemma take_chunk_last:
  assumes st: "hs_content s = open_istream ([CR, NL] @ b)" and mx: "length (b @ chunks) \<le> mx"
  shows "take_chunk mx 0 s chunks = (Some Read_done, s\<lparr>hs_content := open_istream (b @ chunks)\<rparr>, chunks)"
  using assms by (simp add: take_chunk_def Let_def set_buffer_def open_istream_def)

lemma prefix_split:
  "B @ P = X @ Y \<Longrightarrow> length X \<le> length B \<Longrightarrow> \<exists>b. B = X @ b \<and> b @ P = Y"
  by (auto simp: append_eq_append_conv2)

lemma socket_law_until:
  assumes "socket_law ops pending" and "find_sub d (buf @ pending n) = Some i"
    and "length buf + length (pending n) < mx"
  obtains B n' where "so_read_until ops mx d buf n = (Ec_none, i + length d, B, n')"
    and "B @ pending n' = buf @ pending n" and "i + length d \<le> length B" and "so_running ops n'"
proof -
  obtain x n' where *: "so_read_until ops mx d buf n = (Ec_none, i + length d, buf @ take x (pending n), n')"
    "pending n' = drop x (pending n)" "i + length d \<le> length (buf @ take x (pending n))" "so_running ops n'"
    using assms unfolding socket_law_def by blast
  with that [of "buf @ take x (pending n)" n'] show ?thesis by simp
qed

lemma socket_law_exactly:
  assumes "socket_law ops pending" and "k \<le> length (pending n)"
    and "length buf + length (pending n) < mx"
  obtains n' where "so_read_exactly ops mx k buf n = (Ec_none, buf @ take k (pending n), n')"
    and "pending n' = drop k (pending n)" and "so_running ops n'"
  using assms unfolding socket_law_def by blast

lemma read_chunk_step:
  assumes law: "socket_law ops pending" and st: "hs_content s = open_istream D"
    and all: "D @ pending n = h @ [CR, NL] @ c @ [CR, NL] @ rest"
    and ok: "size_line_ok (h, c)" and mx: "length D + length (pending n) < mx"
  shows "\<exists>n2 b2. read_chunked ops mx s chunks n =
      (case take_chunk mx (word_of_nat (length c)) (s\<lparr>hs_content := open_istream (c @ [CR, NL] @ b2)\<rparr>) chunks of
         (Some r, s3, _) \<Rightarrow> Some (r, s3, n2)
       | (None, s3, chunks3) \<Rightarrow> read_chunked ops mx s3 chunks3 n2) \<and>
    b2 @ pending n2 = rest"
proof -
  have cr: "CR \<notin> set h" using ok by (simp add: size_line_ok_def)
  have "find_sub [CR, NL] (D @ pending n) = Some (length h)"
    using find_sub_crlf [OF cr] all by simp
  from socket_law_until [OF law this mx] obtain B n1 where
    r: "so_read_until ops mx [CR, NL] D n = (Ec_none, length h + length [CR, NL], B, n1)"
    and B: "B @ pending n1 = D @ pending n" "length h + length [CR, NL] \<le> length B" and run: "so_running ops n1"
    by blast
  have "B @ pending n1 = (h @ [CR, NL]) @ c @ [CR, NL] @ rest" using B(1) all by simp
  from prefix_split [OF this] B(2) obtain b1 where b1: "B = (h @ [CR, NL]) @ b1"
    "b1 @ pending n1 = c @ [CR, NL] @ rest" by auto
  have len: "length B + length (pending n1) < mx"
    using B(1) mx by (metis length_append)
  let ?s1 = "s\<lparr>hs_content := open_istream b1\<rparr>"
  have bs: "buffer s = D" using st by simp
  have line: "on_chunk_line mx Ec_none (length h + 2) (set_buffer B s) =
      ((if length c + 2 > length b1 then Chunk_read_exactly (length c + 2 - length b1) (word_of_nat (length c))
        else Chunk_take (word_of_nat (length c))), ?s1)"
    using on_chunk_line_size [OF ok, of "set_buffer B s" b1 mx] set_buffer_open [OF st, of B] b1(1) len
    by (simp add: set_buffer_def)
  show ?thesis
  proof (cases "length c + 2 > length b1")
    case True
    have "length c + 2 + length rest = length b1 + length (pending n1)"
      using arg_cong [OF b1(2), of length] by simp
    then have k: "length c + 2 - length b1 \<le> length (pending n1)" using True by linarith
    have b1mx: "length b1 + length (pending n1) < mx" using len b1(1) by simp
    from socket_law_exactly [OF law k this] obtain n2 where
      r2: "so_read_exactly ops mx (length c + 2 - length b1) b1 n1 =
          (Ec_none, b1 @ take (length c + 2 - length b1) (pending n1), n2)"
      and p2: "pending n2 = drop (length c + 2 - length b1) (pending n1)" and run2: "so_running ops n2"
      by blast
    have "take (length c + 2) (b1 @ pending n1) = c @ [CR, NL]" using b1(2) by simp
    then have t: "b1 @ take (length c + 2 - length b1) (pending n1) = c @ [CR, NL]" using True by simp
    have "drop (length c + 2) (b1 @ pending n1) = rest" using b1(2) by simp
    then have d: "pending n2 = rest" using True p2 by simp
    have "length (c @ [CR, NL]) \<noteq> mx" using b1mx k True by simp
    then show ?thesis
      using True line r run r2 run2 t d bs
      by (intro exI [of _ n2] exI [of _ "[]"], subst read_chunked.simps) (simp add: set_buffer_def open_istream_def)
  next
    case False
    then obtain b2 where b2: "b1 = (c @ [CR, NL]) @ b2" "b2 @ pending n1 = rest"
      using prefix_split [of b1 "pending n1" "c @ [CR, NL]" rest] b1(2) by auto
    with False line r run bs show ?thesis
      by (intro exI [of _ n1] exI [of _ b2], subst read_chunked.simps) simp
  qed
qed

lemma read_chunked_all:
  assumes law: "socket_law ops pending"
    and z: "CR \<notin> set z" "NL \<notin> set z" "stoul 16 z = Inr 0"
  shows "\<forall>hc \<in> set cs. size_line_ok hc \<and> snd hc \<noteq> [] \<Longrightarrow> hs_content s = open_istream D \<Longrightarrow>
    D @ pending n = concat (map chunk_text cs) @ z @ [CR, NL, CR, NL] \<Longrightarrow>
    length D + length (pending n) + length chunks < mx \<Longrightarrow>
    \<exists>n'. read_chunked ops mx s chunks n =
        Some (Read_done, s\<lparr>hs_content := open_istream (chunks @ concat (map snd cs))\<rparr>, n') \<and> pending n' = []"
proof (induction cs arbitrary: s D n chunks)
  case Nil
  have ok: "size_line_ok (z, [])" using z by (simp add: size_line_ok_def)
  have all: "D @ pending n = z @ [CR, NL] @ [] @ [CR, NL] @ []" using Nil.prems by simp
  have mx: "length D + length (pending n) < mx" using Nil.prems by simp
  obtain n2 b2 where r: "read_chunked ops mx s chunks n =
      (case take_chunk mx (word_of_nat 0) (s\<lparr>hs_content := open_istream ([CR, NL] @ b2)\<rparr>) chunks of
         (Some r, s3, _) \<Rightarrow> Some (r, s3, n2)
       | (None, s3, chunks3) \<Rightarrow> read_chunked ops mx s3 chunks3 n2)" and b2: "b2 @ pending n2 = []"
    using read_chunk_step [OF law Nil.prems(2) all ok mx, of chunks] by auto
  have "length (b2 @ chunks) \<le> mx" using b2 Nil.prems by simp
  from take_chunk_last [of "s\<lparr>hs_content := open_istream ([CR, NL] @ b2)\<rparr>" b2 chunks mx, OF _ this] r b2
  show ?case by simp
next
  case (Cons hc cs)
  obtain h c where hc: "hc = (h, c)" by (cases hc)
  have ok: "size_line_ok (h, c)" and c: "c \<noteq> []" using Cons.prems(1) hc by auto
  let ?rest = "concat (map chunk_text cs) @ z @ [CR, NL, CR, NL]"
  have all: "D @ pending n = h @ [CR, NL] @ c @ [CR, NL] @ ?rest"
    using Cons.prems(3) hc by (simp add: chunk_text_def [of "(h, c)"])
  have mx: "length D + length (pending n) < mx" using Cons.prems by simp
  obtain n2 b2 where r: "read_chunked ops mx s chunks n =
      (case take_chunk mx (word_of_nat (length c)) (s\<lparr>hs_content := open_istream (c @ [CR, NL] @ b2)\<rparr>) chunks of
         (Some r, s3, _) \<Rightarrow> Some (r, s3, n2)
       | (None, s3, chunks3) \<Rightarrow> read_chunked ops mx s3 chunks3 n2)" and b2: "b2 @ pending n2 = ?rest"
    using read_chunk_step [OF law Cons.prems(2) all ok mx, of chunks] by auto
  have total: "length D + length (pending n) = length h + length c + length b2 + length (pending n2) + 4"
    using arg_cong [OF all, of length] arg_cong [OF b2, of length] by simp
  let ?s2 = "s\<lparr>hs_content := open_istream b2\<rparr>"
  have "length (chunks @ c) < mx" using total Cons.prems(4) by simp
  then have "take_chunk mx (word_of_nat (length c)) (s\<lparr>hs_content := open_istream (c @ [CR, NL] @ b2)\<rparr>) chunks =
      (None, ?s2, chunks @ c)"
    using take_chunk_some [of c "s\<lparr>hs_content := open_istream (c @ [CR, NL] @ b2)\<rparr>" b2 chunks mx] c ok
    by (simp add: size_line_ok_def)
  with r have r2: "read_chunked ops mx s chunks n = read_chunked ops mx ?s2 (chunks @ c) n2" by simp
  have "\<exists>n'. read_chunked ops mx ?s2 (chunks @ c) n2 =
      Some (Read_done, ?s2\<lparr>hs_content := open_istream ((chunks @ c) @ concat (map snd cs))\<rparr>, n') \<and> pending n' = []"
    by (rule Cons.IH [where D = b2]) (use Cons.prems b2 total in auto)
  with r2 hc show ?case by simp
qed

section \<open>Reading the header\<close>

lemma find_sub_skip:
  "CR \<notin> set l \<Longrightarrow> find_sub (CR # p) (l @ s) = map_option (\<lambda>i. length l + i) (find_sub (CR # p) s)"
proof (induction l)
  case (Cons c l)
  then show ?case by (auto simp: option.map_comp comp_def)
next
  case Nil
  show ?case by (cases "find_sub (CR # p) s") simp_all
qed

lemma find_sub_crlf_skip:
  "c \<noteq> CR \<Longrightarrow> find_sub [CR, NL, CR, NL] (CR # NL # c # s) =
     map_option (\<lambda>i. i + 2) (find_sub [CR, NL, CR, NL] (c # s))"
  by (simp add: option.map_comp comp_def)

definition lines_text :: "string list \<Rightarrow> string" where
  "lines_text ls = concat (map (\<lambda>l. l @ [CR, NL]) ls)"

lemma find_blank_line:
  "ls \<noteq> [] \<Longrightarrow> \<forall>l \<in> set ls. l \<noteq> [] \<and> CR \<notin> set l \<Longrightarrow>
   find_sub [CR, NL, CR, NL] (lines_text ls @ [CR, NL] @ rest) = Some (length (lines_text ls) - 2)"
proof (induction ls)
  case (Cons l ls)
  show ?case
  proof (cases ls)
    case Nil
    then show ?thesis
      using Cons.prems find_sub_skip [of l "[NL, CR, NL]" "CR # NL # CR # NL # rest"]
      by (simp add: lines_text_def)
  next
    case (Cons l2 ls2)
    obtain c l2' where l2: "l2 = c # l2'" "c \<noteq> CR" using Cons.prems Cons by (cases l2) auto
    have tail: "lines_text ls @ [CR, NL] @ rest = c # (l2' @ [CR, NL] @ lines_text ls2 @ [CR, NL] @ rest)"
      using Cons l2 by (simp add: lines_text_def)
    have IH: "find_sub [CR, NL, CR, NL] (lines_text ls @ [CR, NL] @ rest) = Some (length (lines_text ls) - 2)"
      using Cons.IH Cons.prems Cons by simp
    have big: "2 \<le> length (lines_text ls)" using Cons by (simp add: lines_text_def)
    have "lines_text (l # ls) @ [CR, NL] @ rest = l @ CR # NL # (lines_text ls @ [CR, NL] @ rest)"
      by (simp add: lines_text_def)
    then have "find_sub [CR, NL, CR, NL] (lines_text (l # ls) @ [CR, NL] @ rest) =
        map_option (\<lambda>i. length l + i)
          (find_sub [CR, NL, CR, NL] (CR # NL # (lines_text ls @ [CR, NL] @ rest)))"
      using Cons.prems find_sub_skip [of l "[NL, CR, NL]" "CR # NL # (lines_text ls @ [CR, NL] @ rest)"] by simp
    also have "\<dots> = map_option (\<lambda>i. length l + i) (map_option (\<lambda>i. i + 2)
          (find_sub [CR, NL, CR, NL] (lines_text ls @ [CR, NL] @ rest)))"
      unfolding tail find_sub_crlf_skip [OF l2(2)] by (rule refl)
    finally show ?thesis using IH big by (simp add: lines_text_def)
  qed
qed simp

text \<open>A request as it stands on the wire, up to the empty line.\<close>

definition request_head :: "request_fields \<Rightarrow> string" where
  "request_head f =
     rf_method f @ '' '' @ target_text (rf_path f) (rf_query f) @ '' HTTP/'' @ rf_version f @ [CR, NL] @
     header_text (rf_header f) @ [CR, NL]"

definition no_cr :: "string \<Rightarrow> bool" where
  "no_cr s \<longleftrightarrow> CR \<notin> set s"

definition request_ok :: "request_fields \<Rightarrow> bool" where
  "request_ok f \<longleftrightarrow>
     CHR '' '' \<notin> set (rf_method f) \<and> NL \<notin> set (rf_method f) \<and> no_cr (rf_method f) \<and>
     target_ok (rf_path f) \<and> no_cr (rf_path f) \<and> target_ok (rf_query f) \<and> no_cr (rf_query f) \<and>
     NL \<notin> set (rf_version f) \<and> no_cr (rf_version f) \<and>
     header_ok (rf_header f) \<and> (\<forall>(k, v) \<in> set (rf_header f). no_cr k \<and> no_cr v)"

lemma request_head_lines:
  "request_head f = lines_text
     ((rf_method f @ '' '' @ target_text (rf_path f) (rf_query f) @ '' HTTP/'' @ rf_version f) #
      map (\<lambda>(k, v). k @ '': '' @ v) (rf_header f)) @ [CR, NL]"
proof -
  have "header_text fs = lines_text (map (\<lambda>(k, v). k @ '': '' @ v) fs)" for fs
    by (induction fs) (auto simp: header_text_def header_line_def lines_text_def)
  then show ?thesis by (simp add: request_head_def lines_text_def)
qed

lemma request_head_end:
  assumes "request_ok f"
  shows "find_sub [CR, NL, CR, NL] (request_head f @ rest) = Some (length (request_head f) - 4)"
proof -
  let ?ls = "(rf_method f @ '' '' @ target_text (rf_path f) (rf_query f) @ '' HTTP/'' @ rf_version f) #
      map (\<lambda>(k, v). k @ '': '' @ v) (rf_header f)"
  have "\<forall>l \<in> set ?ls. l \<noteq> [] \<and> CR \<notin> set l"
    using assms by (auto simp: request_ok_def no_cr_def target_text_def)
  from find_blank_line [OF _ this, of rest] show ?thesis
    by (simp add: request_head_lines)
qed

lemma request_head_parse:
  assumes "request_ok f"
  shows "request_parse (open_istream (request_head f @ rest)) request_fields_new = Some (True, f, open_istream rest)"
proof -
  have h: "header_parse (open_istream (header_text (rf_header f) @ CR # NL # rest)) =
      Some (rf_header f, open_istream rest)"
    using assms header_parse_text by (simp add: request_ok_def header_ok_def)
  have "request_parse (open_istream (rf_method f @ '' '' @ target_text (rf_path f) (rf_query f) @ '' HTTP/'' @
      rf_version f @ [CR, NL] @ (header_text (rf_header f) @ CR # NL # rest))) request_fields_new =
    Some (True, \<lparr>rf_method = rf_method f, rf_path = rf_path f, rf_query = rf_query f,
                 rf_version = rf_version f, rf_header = rf_header f\<rparr>, open_istream rest)"
    using assms by (intro request_line_parse [OF _ _ _ _ _ h]) (auto simp: request_ok_def request_fields_new_def)
  then show ?thesis by (simp add: request_head_def)
qed

lemma server_read_header:
  assumes law: "socket_law ops pending" and f: "request_ok f"
    and s: "hs_content s = open_istream []" "hs_request s = request_fields_new"
    and n: "pending n = request_head f @ body" and mx: "length (pending n) < mx"
  obtains b1 n1 where "b1 @ pending n1 = body" and "so_running ops n1" and
    "so_read_until ops mx [CR, NL, CR, NL] (buffer s) n =
       (Ec_none, length (request_head f), request_head f @ b1, n1)" and
    "on_header_read mx Ec_none (length (request_head f)) (set_buffer (request_head f @ b1) s) =
       Some (header_framing (length b1) (rf_header f), s\<lparr>hs_request := f, hs_content := open_istream b1\<rparr>)"
proof -
  have big: "4 \<le> length (request_head f)"
    by (simp add: request_head_def)
  have "find_sub [CR, NL, CR, NL] ([] @ pending n) = Some (length (request_head f) - 4)"
    using request_head_end [OF f] n by simp
  from socket_law_until [OF law this] mx obtain B n1 where
    r: "so_read_until ops mx [CR, NL, CR, NL] [] n = (Ec_none, length (request_head f) - 4 + length [CR, NL, CR, NL], B, n1)"
    and B: "B @ pending n1 = request_head f @ body"
      "length (request_head f) - 4 + length [CR, NL, CR, NL] \<le> length B"
    and run: "so_running ops n1"
    by (metis append_Nil list.size(3) add_0 n)
  have "length (request_head f) \<le> length B" using B(2) big by simp
  from prefix_split [OF B(1) this] obtain b1 where b1: "B = request_head f @ b1" "b1 @ pending n1 = body"
    by blast
  have "length B < mx"
    using B(1) n mx by (metis add_lessD1 length_append)
  then have h: "on_header_read mx Ec_none (length (request_head f)) (set_buffer (request_head f @ b1) s) =
       Some (header_framing (length b1) (rf_header f), s\<lparr>hs_request := f, hs_content := open_istream b1\<rparr>)"
    using request_head_parse [OF f, of b1] b1(1) s set_buffer_open [OF s(1), of "request_head f @ b1"]
    by (simp add: on_header_read_def Let_def set_buffer_def)
  show ?thesis
    by (rule that [OF b1(2) run _ h]) (use r b1(1) s big in simp)
qed

section \<open>Properties\<close>

text \<open>
  Whatever pieces the network delivers, a request with a Content-Length is read to its end and no further: the session
  holds the fields of the request, and the content is the body, byte for byte.
\<close>

lemma content_length_read:
  assumes "socket_law ops pending" and "request_ok f"
    and "hs_content s = open_istream []" and "hs_request s = request_fields_new"
    and "pending n = request_head f @ body" and "length (pending n) < mx" and "mx < 2 ^ 64"
    and "mm_find ''Content-Length'' (rf_header f) = Some v"
    and "stoul 10 v = Inr (word_of_nat (length body))"
  shows "\<exists>n'. server_read ops mx s n =
      Some (Read_done, s\<lparr>hs_request := f, hs_content := open_istream body\<rparr>, n') \<and> pending n' = []"
proof -
  obtain b1 n1 where b1: "b1 @ pending n1 = body" and run: "so_running ops n1" and
    r: "so_read_until ops mx [CR, NL, CR, NL] (buffer s) n =
       (Ec_none, length (request_head f), request_head f @ b1, n1)" and
    h: "on_header_read mx Ec_none (length (request_head f)) (set_buffer (request_head f @ b1) s) =
       Some (header_framing (length b1) (rf_header f), s\<lparr>hs_request := f, hs_content := open_istream b1\<rparr>)"
    using server_read_header [OF assms(1-6)] by blast
  have len: "length body < 2 ^ 64" and lmx: "length b1 + length (pending n1) < mx" and bmx: "length body \<noteq> mx"
    using assms(5,6,7) arg_cong [OF b1, of length] by auto
  have cl: "unat (word_of_nat (length body) :: 64 word) = length body"
    using len by (simp only: unat_of_nat) simp
  show ?thesis
  proof (cases "length body > length b1")
    case True
    have k: "length body - length b1 \<le> length (pending n1)" using arg_cong [OF b1, of length] by simp
    from socket_law_exactly [OF assms(1) k lmx] obtain n2 where
      r2: "so_read_exactly ops mx (length body - length b1) b1 n1 =
          (Ec_none, b1 @ take (length body - length b1) (pending n1), n2)"
      and p2: "pending n2 = drop (length body - length b1) (pending n1)" and run2: "so_running ops n2" by blast
    have all: "length body - length b1 = length (pending n1)" using arg_cong [OF b1, of length] by simp
    have "header_framing (length b1) (rf_header f) = Header_read_exactly (length body - length b1)"
      using True assms(8,9) cl by (simp add: header_framing_def)
    then show ?thesis
      using r run h r2 p2 run2 b1 bmx all
      by (simp add: server_read_def set_buffer_def open_istream_def)
  next
    case False
    then have "b1 = body" "pending n1 = []" using arg_cong [OF b1, of length] b1 by auto
    moreover have "header_framing (length b1) (rf_header f) = Header_stop Read_done"
      using False assms(8,9) cl by (simp add: header_framing_def)
    ultimately show ?thesis using r run h by (simp add: server_read_def)
  qed
qed

text \<open>A request without content ends with its header.\<close>

lemma plain_request_read:
  assumes "socket_law ops pending" and "request_ok f"
    and "hs_content s = open_istream []" and "hs_request s = request_fields_new"
    and "pending n = request_head f" and "length (pending n) < mx"
    and "mm_find ''Content-Length'' (rf_header f) = None"
    and "mm_find ''Transfer-Encoding'' (rf_header f) \<noteq> Some ''chunked''"
  shows "\<exists>n'. server_read ops mx s n =
      Some (Read_done, s\<lparr>hs_request := f, hs_content := open_istream []\<rparr>, n') \<and> pending n' = []"
proof -
  have p: "pending n = request_head f @ []" using assms(5) by simp
  obtain b1 n1 where b1: "b1 @ pending n1 = []" and run: "so_running ops n1" and
    r: "so_read_until ops mx [CR, NL, CR, NL] (buffer s) n =
       (Ec_none, length (request_head f), request_head f @ b1, n1)" and
    h: "on_header_read mx Ec_none (length (request_head f)) (set_buffer (request_head f @ b1) s) =
       Some (header_framing (length b1) (rf_header f), s\<lparr>hs_request := f, hs_content := open_istream b1\<rparr>)"
    using server_read_header [OF assms(1-4) p assms(6)] by blast
  then show ?thesis using r run h assms(7,8) by (simp add: server_read_def header_framing_def)
qed

text \<open>A network that delivers everything at once.\<close>

definition burst_ops :: "string socket_ops" where
  "burst_ops =
     \<lparr>so_read_until = (\<lambda>mx d buf n.
        case find_sub d (buf @ n) of
          None \<Rightarrow> (Ec_eof, 0, buf @ n, []) | Some i \<Rightarrow> (Ec_none, i + length d, buf @ n, [])),
      so_read_exactly = (\<lambda>mx k buf n. (Ec_none, buf @ take k n, drop k n)),
      so_running = (\<lambda>n. True)\<rparr>"

lemma burst_ops_law: "socket_law burst_ops (\<lambda>n. n)"
  unfolding socket_law_def
proof (intro conjI allI impI)
  fix mx :: nat and d buf n :: string and i
  assume i: "find_sub d (buf @ n) = Some i"
  show "\<exists>x n'. so_read_until burst_ops mx d buf n = (Ec_none, i + length d, buf @ take x n, n') \<and>
      n' = drop x n \<and> i + length d \<le> length (buf @ take x n) \<and> so_running burst_ops n'"
    by (rule exI [of _ "length n"]) (use i find_sub_Some_len [OF i] in \<open>simp add: burst_ops_def\<close>)
qed (simp add: burst_ops_def)

definition example_request :: request_fields where
  "example_request =
     \<lparr>rf_method = ''POST'', rf_path = ''/a'', rf_query = [], rf_version = ''1.1'',
      rf_header = [(''Content-Length'', ''2'')]\<rparr>"

lemma example_request_ok: "request_ok example_request"
  by (simp add: request_ok_def example_request_def target_ok_def no_cr_def header_ok_def header_name_ok_def
      header_value_ok_def)

text \<open>C18: Whatever pieces the network delivers, chunked content is decoded to the concatenation of its
  chunks, from size lines in any hexadecimal form, and the handler is reached at the last chunk.\<close>
theorem chunked_request_read:
  assumes "socket_law ops pending" and "request_ok f"
    and "hs_content s = open_istream []" and "hs_request s = request_fields_new"
    and "mm_find ''Content-Length'' (rf_header f) = None"
    and "mm_find ''Transfer-Encoding'' (rf_header f) = Some ''chunked''"
    and "\<forall>hc \<in> set cs. size_line_ok hc \<and> snd hc \<noteq> []"
    and "CR \<notin> set z" and "NL \<notin> set z" and "stoul 16 z = Inr 0"
    and "pending n = request_head f @ concat (map chunk_text cs) @ z @ [CR, NL, CR, NL]"
    and "length (pending n) < mx"
  shows "\<exists>n'. server_read ops mx s n =
      Some (Read_done, s\<lparr>hs_request := f, hs_content := open_istream (concat (map snd cs))\<rparr>, n') \<and> pending n' = []"
proof -
  let ?body = "concat (map chunk_text cs) @ z @ [CR, NL, CR, NL]"
  obtain b1 n1 where b1: "b1 @ pending n1 = ?body" and run: "so_running ops n1" and
    r: "so_read_until ops mx [CR, NL, CR, NL] (buffer s) n =
       (Ec_none, length (request_head f), request_head f @ b1, n1)" and
    h: "on_header_read mx Ec_none (length (request_head f)) (set_buffer (request_head f @ b1) s) =
       Some (header_framing (length b1) (rf_header f), s\<lparr>hs_request := f, hs_content := open_istream b1\<rparr>)"
    using server_read_header [OF assms(1-4,11,12)] by blast
  have "length b1 + length (pending n1) < mx"
    using assms(11,12) arg_cong [OF b1, of length] by simp
  then have "\<exists>n'. read_chunked ops mx (s\<lparr>hs_request := f, hs_content := open_istream b1\<rparr>) [] n1 =
      Some (Read_done, s\<lparr>hs_request := f, hs_content := open_istream b1\<rparr>
                       \<lparr>hs_content := open_istream ([] @ concat (map snd cs))\<rparr>, n') \<and> pending n' = []"
    by (intro read_chunked_all [OF assms(1,8,9,10,7) _ b1]) simp_all
  then show ?thesis
    using r run h assms(5,6) by (simp add: server_read_def header_framing_def)
qed

theorem chunked_request_read_witness:
  "\<exists>n'. server_read burst_ops 1000 (fst (http_session_new 1))
      (request_head (example_request\<lparr>rf_header := [(''Transfer-Encoding'', ''chunked'')]\<rparr>) @
       concat (map chunk_text [(''2'', ''ab''), (''1'', ''c'')]) @ ''0'' @ [CR, NL, CR, NL]) =
    Some (Read_done, (fst (http_session_new 1))
      \<lparr>hs_request := example_request\<lparr>rf_header := [(''Transfer-Encoding'', ''chunked'')]\<rparr>,
       hs_content := open_istream (concat (map snd [(''2'', ''ab''), (''1'', ''c'')]))\<rparr>, n') \<and> n' = []"
proof (rule chunked_request_read [OF burst_ops_law])
  show "request_ok (example_request\<lparr>rf_header := [(''Transfer-Encoding'', ''chunked'')]\<rparr>)"
    by (simp add: request_ok_def example_request_def target_ok_def no_cr_def header_ok_def header_name_ok_def
        header_value_ok_def)
  show "mm_find ''Content-Length'' (rf_header (example_request\<lparr>rf_header := [(''Transfer-Encoding'', ''chunked'')]\<rparr>)) = None"
    by (simp add: mm_find_def case_insensitive_equal_def)
  show "mm_find ''Transfer-Encoding'' (rf_header (example_request\<lparr>rf_header := [(''Transfer-Encoding'', ''chunked'')]\<rparr>)) =
      Some ''chunked''"
    by (simp add: mm_find_def)
qed (simp_all add: http_session_new_def request_head_def example_request_def target_text_def
    header_text_def header_line_def chunk_text_def size_line_ok_def stoul_def strto_parts_def split_sign_def
    split_hex_prefix_def is_space_def digit_val_def nat_of_digits_def tolower_def)

text \<open>
  Bytes that the first read delivers beyond the content length are not left for the next
  request: the handler sees all of them as content, and the next session starts with an empty
  buffer. A client that pipelines requests has its second request taken for content.\<close>
lemma pipelined_bytes_become_content:
  assumes "request_ok f" and "hs_content s = open_istream (request_head f @ body @ extra)"
    and "hs_request s = request_fields_new"
    and "mm_find ''Content-Length'' (rf_header f) = Some v"
    and "stoul 10 v = Inr (word_of_nat (length body))" and "length body < 2 ^ 64"
    and "length (request_head f @ body @ extra) < mx"
  shows "on_header_read mx Ec_none (length (request_head f)) s =
      Some (Header_stop Read_done, s\<lparr>hs_request := f, hs_content := open_istream (body @ extra)\<rparr>) \<and>
    buffer (fst (http_session_new next_id)) = []"
proof -
  have cl: "unat (word_of_nat (length body) :: 64 word) = length body"
    using assms(6) by (simp only: unat_of_nat) simp
  show ?thesis
    using assms request_head_parse [OF assms(1), of "body @ extra"] cl
    by (simp add: on_header_read_def Let_def header_framing_def http_session_new_def)
qed

lemma pipelined_bytes_become_content_witness:
  "on_header_read 1000 Ec_none (length (request_head example_request))
      ((fst (http_session_new 1))\<lparr>hs_content := open_istream (request_head example_request @ ''hi'' @ ''GET / HTTP/1.1'')\<rparr>) =
    Some (Header_stop Read_done, (fst (http_session_new 1))
      \<lparr>hs_content := open_istream (request_head example_request @ ''hi'' @ ''GET / HTTP/1.1''),
       hs_request := example_request, hs_content := open_istream (''hi'' @ ''GET / HTTP/1.1'')\<rparr>) \<and>
   buffer (fst (http_session_new 2)) = []"
proof (rule pipelined_bytes_become_content [OF example_request_ok])
  show "mm_find ''Content-Length'' (rf_header example_request) = Some ''2''"
    by (simp add: example_request_def mm_find_def)
  show "stoul 10 ''2'' = Inr (word_of_nat (length ''hi''))"
    by (simp add: stoul_def strto_parts_def split_sign_def split_hex_prefix_def is_space_def digit_val_def
        nat_of_digits_def)
qed (simp_all add: http_session_new_def request_head_def example_request_def target_text_def
    header_text_def header_line_def)

text \<open>
  A size line that starts with a line feed makes the server drop the last character of an
  empty string, which is undefined, whatever follows and before anything is answered.\<close>
lemma chunk_size_line_undefined:
  assumes "hs_content s = open_istream (NL # rest)" and "length (NL # rest) < mx"
  shows "fst (on_chunk_line mx Ec_none bytes s) = Chunk_stop (Read_threw (Undefined ''pop_back of an empty string''))"
  using assms getline_line [of "[]" rest "[]"] by (simp add: on_chunk_line_def Let_def)

lemma chunk_size_line_undefined_witness:
  "fst (on_chunk_line 100 Ec_none 3 ((fst (http_session_new 1))\<lparr>hs_content := open_istream (NL # [CR, NL])\<rparr>)) =
   Chunk_stop (Read_threw (Undefined ''pop_back of an empty string''))"
proof (rule chunk_size_line_undefined)
  show "length (NL # [CR, NL]) < 100" by simp
qed simp

lemma find_regex_Some:
  "find_regex rm mtd path rs = Some (rx, h) \<longleftrightarrow>
   (\<exists>pre methods post. rs = pre @ (rx, methods) # post \<and> map_of methods mtd = Some h \<and> rm rx path \<and>
      (\<forall>(rx', methods') \<in> set pre. map_of methods' mtd = None \<or> \<not> rm rx' path))"
proof (induction rs)
  case (Cons r rs)
  obtain rx0 ms where r: "r = (rx0, ms)" by (cases r)
  let ?bad = "map_of ms mtd = None \<or> \<not> rm rx0 path"
  show ?case
  proof (cases ?bad)
    case True
    then have eq: "find_regex rm mtd path (r # rs) = find_regex rm mtd path rs"
      using r by (auto split: option.split)
    show ?thesis
      unfolding eq Cons.IH
    proof (intro iffI; elim exE conjE)
      fix pre methods post
      assume "rs = pre @ (rx, methods) # post" "map_of methods mtd = Some h" "rm rx path"
        "\<forall>(rx', methods') \<in> set pre. map_of methods' mtd = None \<or> \<not> rm rx' path"
      with True r show "\<exists>pre methods post. r # rs = pre @ (rx, methods) # post \<and> map_of methods mtd = Some h \<and>
          rm rx path \<and> (\<forall>(rx', methods') \<in> set pre. map_of methods' mtd = None \<or> \<not> rm rx' path)"
        by (intro exI [of _ "r # pre"] exI [of _ methods] exI [of _ post]) auto
    next
      fix pre methods post
      assume *: "r # rs = pre @ (rx, methods) # post" "map_of methods mtd = Some h" "rm rx path"
        "\<forall>(rx', methods') \<in> set pre. map_of methods' mtd = None \<or> \<not> rm rx' path"
      with True r obtain pre' where "pre = r # pre'" by (cases pre) auto
      with * show "\<exists>pre methods post. rs = pre @ (rx, methods) # post \<and> map_of methods mtd = Some h \<and>
          rm rx path \<and> (\<forall>(rx', methods') \<in> set pre. map_of methods' mtd = None \<or> \<not> rm rx' path)"
        by (intro exI [of _ pre'] exI [of _ methods] exI [of _ post]) auto
    qed
  next
    case False
    then obtain h0 where h0: "map_of ms mtd = Some h0" "rm rx0 path" by auto
    then have eq: "find_regex rm mtd path (r # rs) = Some (rx0, h0)" using r by simp
    show ?thesis
      unfolding eq
    proof (intro iffI; (elim exE conjE)?)
      assume "Some (rx0, h0) = Some (rx, h)"
      with h0 r show "\<exists>pre methods post. r # rs = pre @ (rx, methods) # post \<and> map_of methods mtd = Some h \<and>
          rm rx path \<and> (\<forall>(rx', methods') \<in> set pre. map_of methods' mtd = None \<or> \<not> rm rx' path)"
        by (intro exI [of _ "[]"] exI [of _ ms] exI [of _ rs]) auto
    next
      fix pre methods post
      assume *: "r # rs = pre @ (rx, methods) # post" "map_of methods mtd = Some h" "rm rx path"
        "\<forall>(rx', methods') \<in> set pre. map_of methods' mtd = None \<or> \<not> rm rx' path"
      with h0 r have "pre = []" by (cases pre) auto
      with * h0 r show "Some (rx0, h0) = Some (rx, h)" by auto
    qed
  qed
qed simp

text \<open>
  The handler that runs is the first in the order of the regular expressions whose expression
  matches the path and that is registered for the method; without one it is the default handler
  of the method, and without that the request is dropped.\<close>
lemma find_resource_first_match:
  assumes "\<not> (rs_has_upgrade rs \<and> mm_contains ''Upgrade'' (rf_header f))"
  shows "(find_resource rm rs f = Route_match rx h \<longleftrightarrow>
      (\<exists>pre methods post. rs_resource rs = pre @ (rx, methods) # post \<and>
         map_of methods (rf_method f) = Some h \<and> rm rx (rf_path f) \<and>
         (\<forall>(rx', methods') \<in> set pre. map_of methods' (rf_method f) = None \<or> \<not> rm rx' (rf_path f)))) \<and>
    ((\<forall>rx h. find_resource rm rs f \<noteq> Route_match rx h) \<longrightarrow>
      find_resource rm rs f =
        (case map_of (rs_default rs) (rf_method f) of Some d \<Rightarrow> Route_default d | None \<Rightarrow> Route_none))"
proof
  have "find_resource rm rs f = Route_match rx h \<longleftrightarrow>
      find_regex rm (rf_method f) (rf_path f) (rs_resource rs) = Some (rx, h)" for rx h
    using assms by (auto simp: find_resource_def split: option.split)
  then show "find_resource rm rs f = Route_match rx h \<longleftrightarrow>
      (\<exists>pre methods post. rs_resource rs = pre @ (rx, methods) # post \<and>
         map_of methods (rf_method f) = Some h \<and> rm rx (rf_path f) \<and>
         (\<forall>(rx', methods') \<in> set pre. map_of methods' (rf_method f) = None \<or> \<not> rm rx' (rf_path f)))"
    using find_regex_Some by simp
next
  show "(\<forall>rx h. find_resource rm rs f \<noteq> Route_match rx h) \<longrightarrow>
      find_resource rm rs f =
        (case map_of (rs_default rs) (rf_method f) of Some d \<Rightarrow> Route_default d | None \<Rightarrow> Route_none)"
    using assms
    by (cases "find_regex rm (rf_method f) (rf_path f) (rs_resource rs)") (auto simp: find_resource_def)
qed

definition example_resources :: resources where
  "example_resources = \<lparr>rs_resource = [(''/a'', [(''POST'', 7)])], rs_default = [], rs_has_upgrade = False\<rparr>"

lemma find_resource_first_match_witness:
  "find_resource (\<lambda>rx p. rx = p) example_resources example_request = Route_match ''/a'' 7"
proof -
  have no: "\<not> (rs_has_upgrade example_resources \<and> mm_contains ''Upgrade'' (rf_header example_request))"
    by (simp add: example_resources_def)
  have "\<exists>pre methods post. rs_resource example_resources = pre @ (''/a'', methods) # post \<and>
         map_of methods (rf_method example_request) = Some 7 \<and> (''/a'' = rf_path example_request) \<and>
         (\<forall>(rx', methods') \<in> set pre. map_of methods' (rf_method example_request) = None \<or>
            \<not> rx' = rf_path example_request)"
    by (intro exI [of _ "[]"] exI [of _ "[(''POST'', 7)]"])
      (simp add: example_resources_def example_request_def)
  with find_resource_first_match [OF no, of "\<lambda>rx p. rx = p" "''/a''" 7] show ?thesis by simp
qed

text \<open>
  After a response the next request is read exactly when sending succeeded, the handler did not
  ask to close, and the first Connection value that is close or keep-alive is keep-alive, or, when
  there is none, the version is at least 1.1.\<close>
lemma keep_alive_decision:
  "on_response_sent ec close_after f = Next_request \<longleftrightarrow>
     ec = Ec_none \<and> \<not> close_after \<and>
     (case find (\<lambda>v. case_insensitive_equal v ''close'' \<or> case_insensitive_equal v ''keep-alive'')
             (equal_range ''Connection'' (rf_header f)) of
        Some v \<Rightarrow> case_insensitive_equal v ''keep-alive''
      | None \<Rightarrow> \<not> string_less (rf_version f) ''1.1'')"
proof -
  have "connection_decision vs =
      map_option (\<lambda>v. case_insensitive_equal v ''keep-alive'')
        (find (\<lambda>v. case_insensitive_equal v ''close'' \<or> case_insensitive_equal v ''keep-alive'') vs)" for vs
    by (induction vs) (auto simp: case_insensitive_equal_def)
  then show ?thesis
    by (simp add: on_response_sent_def split: option.split)
qed

end
