(* ===== verification/Http_Client.thy ===== *)
theory Http_Client
  imports Http_Server
begin

text \<open>
  The client's side (src/network/web/http_client_impl.h): the pool of connections, what the
  callback of a session does to it, reading a response, and stopping. The pool is a set of
  shared pointers in the code; here it is the list of the connections in the order of its
  iteration, which is arbitrary, so the results hold for every order. The code that reads
  chunks is the same text as the server's, so it is used from there.
\<close>

section \<open>Connections\<close>

record conn =
  cn_id :: nat
  cn_in_use :: bool
  cn_attempt_reconnect :: bool

record pool =
  pl_connections :: "conn list"
  pl_next :: nat
  pl_query :: "(string \<times> string) option"

definition pool_new :: pool where
  "pool_new = \<lparr>pl_connections = [], pl_next = 0, pl_query = None\<rparr>"

definition create_connection :: "pool \<Rightarrow> conn \<times> pool" where
  "create_connection p =
     (\<lparr>cn_id = pl_next p, cn_in_use = False, cn_attempt_reconnect = True\<rparr>, p\<lparr>pl_next := pl_next p + 1\<rparr>)"

definition update_conn :: "nat \<Rightarrow> (conn \<Rightarrow> conn) \<Rightarrow> pool \<Rightarrow> pool" where
  "update_conn i f p = p\<lparr>pl_connections := map (\<lambda>c. if cn_id c = i then f c else c) (pl_connections p)\<rparr>"

text \<open>Where the resolver is asked to go: the host, or the proxy, whose text may not parse.\<close>

definition make_query :: "client_endpoint \<Rightarrow> (string \<times> string) result" where
  "make_query ep =
     (if ce_proxy_server ep = [] then Inr (ce_host ep, to_dec (unat (ce_port ep)))
      else rbind (parse_host_port (ce_proxy_server ep) 8080) (\<lambda>(h, p). Inr (h, to_dec (unat p))))"

text \<open>
  \<open>get_connection\<close>: the first connection not in use, or a new one. When the query cannot be
  made the exception leaves the connection marked.
\<close>

definition get_connection :: "client_endpoint \<Rightarrow> pool \<Rightarrow> srv_error option \<times> nat \<times> pool" where
  "get_connection ep p =
     (let (i, p1) =
        (case find (\<lambda>c. \<not> cn_in_use c) (pl_connections p) of
           Some c \<Rightarrow> (cn_id c, p)
         | None \<Rightarrow>
             let (c, p') = create_connection p
             in (cn_id c, p'\<lparr>pl_connections := pl_connections p' @ [c]\<rparr>));
        p2 = update_conn i (\<lambda>c. c\<lparr>cn_attempt_reconnect := True, cn_in_use := True\<rparr>) p1
      in if pl_query p2 \<noteq> None then (None, i, p2)
         else (case make_query ep of
                 Inl e \<Rightarrow> (Some e, i, p2)
               | Inr q \<Rightarrow> (None, i, p2\<lparr>pl_query := Some q\<rparr>)))"

text \<open>The loop of the session's callback over the pool.\<close>

fun remove_unused :: "bool \<Rightarrow> nat \<Rightarrow> nat \<Rightarrow> conn list \<Rightarrow> conn list" where
  "remove_unused err i unused_connections [] = []"
| "remove_unused err i unused_connections (c # cs) =
     (if err \<and> cn_id c = i then remove_unused err i unused_connections cs
      else if cn_in_use c then c # remove_unused err i unused_connections cs
      else if unused_connections + 1 > 1 then remove_unused err i (unused_connections + 1) cs
      else c # remove_unused err i (unused_connections + 1) cs)"

definition session_callback :: "nat \<Rightarrow> ecode \<Rightarrow> pool \<Rightarrow> pool" where
  "session_callback i ec p =
     (let p1 = update_conn i (\<lambda>c. c\<lparr>cn_in_use := False\<rparr>) p
      in p1\<lparr>pl_connections := remove_unused (ec \<noteq> Ec_none) i 0 (pl_connections p1)\<rparr>)"

text \<open>The reconnection after a failed read; \<open>None\<close> when the connection is not in the pool any more.\<close>

definition reconnect :: "nat \<Rightarrow> pool \<Rightarrow> (nat \<times> pool) option" where
  "reconnect i p =
     (if i \<in> set (map cn_id (pl_connections p)) then
        let p1 = p\<lparr>pl_connections := filter (\<lambda>c. cn_id c \<noteq> i) (pl_connections p)\<rparr>;
            (c, p2) = create_connection p1
        in Some (cn_id c, p2\<lparr>pl_connections :=
             pl_connections p2 @ [c\<lparr>cn_attempt_reconnect := False, cn_in_use := True\<rparr>]\<rparr>)
      else None)"

section \<open>Reading a response\<close>

record client_session =
  cs_connection :: nat
  cs_content :: istream
  cs_response :: response_fields

datatype client_outcome =
    Callback ecode
  | Client_cancelled
  | Client_threw srv_error

definition client_outcome_of :: "read_outcome \<Rightarrow> client_outcome" where
  "client_outcome_of r =
     (case r of
        Read_done \<Rightarrow> Callback Ec_none
      | Read_cancelled \<Rightarrow> Client_cancelled
      | Read_failed ec \<Rightarrow> Callback ec
      | Read_too_large \<Rightarrow> Callback Ec_message_size
      | Read_threw e \<Rightarrow> Client_threw e)"

text \<open>The chunks, over a session of the server that has the client's buffer.\<close>

definition client_read_chunked ::
    "'n socket_ops \<Rightarrow> nat \<Rightarrow> client_session \<Rightarrow> 'n \<Rightarrow> (client_outcome \<times> client_session \<times> 'n) option" where
  "client_read_chunked ops mx s n =
     map_option (\<lambda>(r, h, n'). (client_outcome_of r, s\<lparr>cs_content := hs_content h\<rparr>, n'))
       (read_chunked ops mx \<lparr>hs_id = 0, hs_content = cs_content s, hs_request = request_fields_new\<rparr> [] n)"

datatype response_next =
    Response_stop client_outcome | Response_read_exactly nat | Response_chunked | Response_read_all

text \<open>
  How the content of a response is framed. The content length is not guarded: text that is
  not a number throws out of the handler.
\<close>

definition response_framing :: "nat \<Rightarrow> response_fields \<Rightarrow> response_next" where
  "response_framing num_additional_bytes f =
     (case mm_find ''Content-Length'' (sf_header f) of
        Some v \<Rightarrow>
          (case stoul 10 v of
             Inl e \<Rightarrow> Response_stop (Client_threw e)
           | Inr content_length \<Rightarrow>
               if unat content_length > num_additional_bytes
               then Response_read_exactly (unat content_length - num_additional_bytes)
               else Response_stop (Callback Ec_none))
      | None \<Rightarrow>
          if mm_find ''Transfer-Encoding'' (sf_header f) = Some ''chunked'' then Response_chunked
          else if string_less (sf_version f) ''1.1'' \<or> mm_find ''Session'' (sf_header f) = Some ''close''
          then Response_read_all
          else Response_stop (Callback Ec_none))"

text \<open>The handler of the read of the header, when the read did not fail.\<close>

definition on_response_header ::
    "nat \<Rightarrow> ecode \<Rightarrow> nat \<Rightarrow> client_session \<Rightarrow> (response_next \<times> client_session) option" where
  "on_response_header mx ec bytes_transferred s =
     (if length (i_data (cs_content s)) = mx then Some (Response_stop (Callback Ec_message_size), s)
      else
        let num_additional_bytes = length (i_data (cs_content s)) - bytes_transferred in
        map_option (\<lambda>(ok, f, st).
            let s1 = s\<lparr>cs_response := f, cs_content := st\<rparr> in
            if \<not> ok then (Response_stop (Callback Ec_protocol_error), s1)
            else (response_framing num_additional_bytes f, s1))
          (response_parse (cs_content s) (cs_response s)))"

text \<open>What a failed read of the header does: reconnect once, or report.\<close>

datatype failed_read = Failed_callback ecode | Failed_reconnected nat

definition on_response_failed :: "nat \<Rightarrow> ecode \<Rightarrow> pool \<Rightarrow> failed_read \<times> pool" where
  "on_response_failed i ec p =
     (let attempt = (case find (\<lambda>c. cn_id c = i) (pl_connections p) of
                       Some c \<Rightarrow> cn_attempt_reconnect c | None \<Rightarrow> True)
      in if attempt \<and> ec \<noteq> Ec_operation_aborted then
           (case reconnect i p of
              Some (j, p1) \<Rightarrow> (Failed_reconnected j, p1)
            | None \<Rightarrow> (Failed_callback ec, p))
         else (Failed_callback ec, p))"

text \<open>
  The whole read. \<open>read_all\<close> is \<open>async_read\<close> without a condition, which ends at the end of the
  stream or at the limit of the buffer.
\<close>

datatype client_result = Client_done client_outcome | Client_reconnect nat

definition client_read ::
    "'n socket_ops \<Rightarrow> (nat \<Rightarrow> string \<Rightarrow> 'n \<Rightarrow> ecode \<times> string \<times> 'n) \<Rightarrow> nat \<Rightarrow> client_session \<Rightarrow> pool \<Rightarrow> 'n \<Rightarrow>
     (client_result \<times> client_session \<times> pool \<times> 'n) option" where
  "client_read ops read_all mx s p n =
     (case so_read_until ops mx [CR, NL, CR, NL] (i_data (cs_content s)) n of
        (ec, bytes, b, n1) \<Rightarrow>
          let s1 = s\<lparr>cs_content := (cs_content s)\<lparr>i_data := b\<rparr>\<rparr> in
          if \<not> so_running ops n1 then Some (Client_done Client_cancelled, s1, p, n1)
          else if (ec = Ec_none \<or> ec = Ec_not_found) \<and> length b = mx
          then Some (Client_done (Callback Ec_message_size), s1, p, n1)
          else if ec \<noteq> Ec_none then
            (case on_response_failed (cs_connection s) ec p of
               (Failed_callback e, p1) \<Rightarrow> Some (Client_done (Callback e), s1, p1, n1)
             | (Failed_reconnected j, p1) \<Rightarrow> Some (Client_reconnect j, s1\<lparr>cs_connection := j\<rparr>, p1, n1))
          else
            let p1 = update_conn (cs_connection s) (\<lambda>c. c\<lparr>cn_attempt_reconnect := True\<rparr>) p in
            (case on_response_header mx ec bytes s1 of
               None \<Rightarrow> None
             | Some (Response_stop r, s2) \<Rightarrow> Some (Client_done r, s2, p1, n1)
             | Some (Response_chunked, s2) \<Rightarrow>
                 map_option (\<lambda>(r, s3, n2). (Client_done r, s3, p1, n2)) (client_read_chunked ops mx s2 n1)
             | Some (Response_read_exactly k, s2) \<Rightarrow>
                 (case so_read_exactly ops mx k (i_data (cs_content s2)) n1 of
                    (ec2, b2, n2) \<Rightarrow>
                      let s3 = s2\<lparr>cs_content := (cs_content s2)\<lparr>i_data := b2\<rparr>\<rparr> in
                      Some (Client_done
                              (if \<not> so_running ops n2 then Client_cancelled
                               else if ec2 \<noteq> Ec_none then Callback ec2
                               else if length b2 = mx then Callback Ec_message_size
                               else Callback Ec_none), s3, p1, n2))
             | Some (Response_read_all, s2) \<Rightarrow>
                 (case read_all mx (i_data (cs_content s2)) n1 of
                    (ec2, b2, n2) \<Rightarrow>
                      let s3 = s2\<lparr>cs_content := (cs_content s2)\<lparr>i_data := b2\<rparr>\<rparr> in
                      Some (Client_done
                              (if \<not> so_running ops n2 then Client_cancelled
                               else if ec2 = Ec_none then
                                 (if length b2 = mx then Callback Ec_message_size else Callback Ec_none)
                               else if ec2 = Ec_eof then Callback Ec_none
                               else Callback ec2), s3, p1, n2))))"

section \<open>The life of the pool\<close>

text \<open>The sessions under way, by the connection each holds, beside the pool.\<close>

record client_state =
  cl_pool :: pool
  cl_sessions :: "nat list"

definition client_state_new :: client_state where
  "client_state_new = \<lparr>cl_pool = pool_new, cl_sessions = []\<rparr>"

inductive client_step :: "client_endpoint \<Rightarrow> client_state \<Rightarrow> client_state \<Rightarrow> bool" for ep where
  request: "get_connection ep p = (None, i, p') \<Longrightarrow>
    client_step ep \<lparr>cl_pool = p, cl_sessions = ss\<rparr> \<lparr>cl_pool = p', cl_sessions = i # ss\<rparr>"
| callback: "i \<in> set ss \<Longrightarrow>
    client_step ep \<lparr>cl_pool = p, cl_sessions = ss\<rparr> \<lparr>cl_pool = session_callback i ec p, cl_sessions = remove1 i ss\<rparr>"
| reconnected: "i \<in> set ss \<Longrightarrow> on_response_failed i ec p = (Failed_reconnected j, p') \<Longrightarrow>
    client_step ep \<lparr>cl_pool = p, cl_sessions = ss\<rparr> \<lparr>cl_pool = p', cl_sessions = j # remove1 i ss\<rparr>"

inductive client_reachable :: "client_endpoint \<Rightarrow> client_state \<Rightarrow> bool" for ep where
  start: "client_reachable ep client_state_new"
| step: "client_reachable ep s \<Longrightarrow> client_step ep s s' \<Longrightarrow> client_reachable ep s'"

text \<open>
  No two sessions share a connection, the connections in use are those of the sessions, and at
  most one connection is idle.
\<close>

definition idle :: "pool \<Rightarrow> conn list" where
  "idle p = filter (\<lambda>c. \<not> cn_in_use c) (pl_connections p)"

definition in_use_ids :: "conn list \<Rightarrow> nat set" where
  "in_use_ids cs = set (map cn_id (filter cn_in_use cs))"

definition pool_ok :: "client_state \<Rightarrow> bool" where
  "pool_ok s \<longleftrightarrow>
     distinct (map cn_id (pl_connections (cl_pool s))) \<and>
     (\<forall>c \<in> set (pl_connections (cl_pool s)). cn_id c < pl_next (cl_pool s)) \<and>
     distinct (cl_sessions s) \<and>
     set (cl_sessions s) = in_use_ids (pl_connections (cl_pool s)) \<and>
     length (idle (cl_pool s)) \<le> 1"

lemma remove_unused_subset: "set (remove_unused err i k cs) \<subseteq> set cs"
  by (induction err i k cs rule: remove_unused.induct) auto

lemma remove_unused_distinct:
  "distinct (map cn_id cs) \<Longrightarrow> distinct (map cn_id (remove_unused err i k cs))"
proof (induction err i k cs rule: remove_unused.induct)
  case (2 err i k c cs)
  have "set (remove_unused err i j cs) \<subseteq> set cs" for j by (rule remove_unused_subset)
  with 2 show ?case by (auto; blast)
qed simp

lemma remove_unused_used:
  "\<forall>c \<in> set cs. cn_in_use c \<longrightarrow> cn_id c \<noteq> i \<Longrightarrow>
   filter cn_in_use (remove_unused err i k cs) = filter cn_in_use cs"
  by (induction err i k cs rule: remove_unused.induct) auto

lemma remove_unused_idle:
  "length (filter (\<lambda>c. \<not> cn_in_use c) (remove_unused err i k cs)) \<le> 1 - k"
proof (induction err i k cs rule: remove_unused.induct)
  case (2 err i k c cs)
  then show ?case by auto
qed simp

lemma update_conn_id [simp]:
  "(\<And>c. cn_id (f c) = cn_id c) \<Longrightarrow> map cn_id (pl_connections (update_conn i f p)) = map cn_id (pl_connections p)"
  by (simp add: update_conn_def)

lemma update_conn_next [simp]: "pl_next (update_conn i f p) = pl_next p" "pl_query (update_conn i f p) = pl_query p"
  by (simp_all add: update_conn_def)

lemma in_use_ids_simps [simp]:
  "in_use_ids [] = {}"
  "in_use_ids (c # cs) = (if cn_in_use c then insert (cn_id c) (in_use_ids cs) else in_use_ids cs)"
  "in_use_ids (cs @ ds) = in_use_ids cs \<union> in_use_ids ds"
  by (simp_all add: in_use_ids_def)

lemma in_use_ids_subset: "in_use_ids cs \<subseteq> set (map cn_id cs)"
  by (auto simp: in_use_ids_def)

lemma in_use_ids_marked:
  "(\<And>c. cn_id (f c) = cn_id c \<and> cn_in_use (f c)) \<Longrightarrow>
   in_use_ids (map (\<lambda>c. if cn_id c = i then f c else c) cs) =
     in_use_ids cs \<union> ({i} \<inter> set (map cn_id cs))"
  by (induction cs) auto

lemma in_use_ids_clear:
  "in_use_ids (map (\<lambda>c. if cn_id c = i then c\<lparr>cn_in_use := False\<rparr> else c) cs) = in_use_ids cs - {i}"
  by (induction cs) auto

lemma cleared_not_in_use:
  "\<forall>c \<in> set (map (\<lambda>c. if cn_id c = i then c\<lparr>cn_in_use := False\<rparr> else c) cs). cn_in_use c \<longrightarrow> cn_id c \<noteq> i"
proof
  fix c assume "c \<in> set (map (\<lambda>c. if cn_id c = i then c\<lparr>cn_in_use := False\<rparr> else c) cs)"
  then obtain d where "c = (if cn_id d = i then d\<lparr>cn_in_use := False\<rparr> else d)" unfolding set_map by blast
  then show "cn_in_use c \<longrightarrow> cn_id c \<noteq> i" by (cases "cn_id d = i") simp_all
qed

lemma in_use_ids_remove: "in_use_ids (filter (\<lambda>c. cn_id c \<noteq> i) cs) = in_use_ids cs - {i}"
  by (induction cs) auto

lemma in_use_ids_unique:
  "distinct (map cn_id cs) \<Longrightarrow> c \<in> set cs \<Longrightarrow> \<not> cn_in_use c \<Longrightarrow> cn_id c \<notin> in_use_ids cs"
  by (auto simp: in_use_ids_def distinct_map inj_on_def)

lemma idle_remove:
  "length (filter (\<lambda>c. \<not> cn_in_use c) (filter (\<lambda>c. cn_id c \<noteq> i) cs)) \<le>
   length (filter (\<lambda>c. \<not> cn_in_use c) cs)"
  by (induction cs) auto

lemma idle_mark:
  "(\<And>c. cn_in_use (f c)) \<Longrightarrow>
   length (filter (\<lambda>c. \<not> cn_in_use c) (map (\<lambda>c. if cn_id c = i then f c else c) cs))
     \<le> length (filter (\<lambda>c. \<not> cn_in_use c) cs)"
  by (induction cs) auto

lemma pool_ok_simps:
  "pool_ok \<lparr>cl_pool = p, cl_sessions = ss\<rparr> \<longleftrightarrow>
     distinct (map cn_id (pl_connections p)) \<and> (\<forall>i \<in> set (map cn_id (pl_connections p)). i < pl_next p) \<and>
     distinct ss \<and> set ss = in_use_ids (pl_connections p) \<and>
     length (filter (\<lambda>c. \<not> cn_in_use c) (pl_connections p)) \<le> 1"
  by (simp add: pool_ok_def idle_def)

text \<open>What \<open>get_connection\<close> does to the list, for a connection found and for a new one.\<close>

definition mark :: "nat \<Rightarrow> conn list \<Rightarrow> conn list" where
  "mark i cs = map (\<lambda>c. if cn_id c = i then c\<lparr>cn_attempt_reconnect := True, cn_in_use := True\<rparr> else c) cs"

lemma mark_facts:
  "map cn_id (mark i cs) = map cn_id cs"
  "in_use_ids (mark i cs) = in_use_ids cs \<union> ({i} \<inter> set (map cn_id cs))"
  "length (filter (\<lambda>c. \<not> cn_in_use c) (mark i cs)) \<le> length (filter (\<lambda>c. \<not> cn_in_use c) cs)"
  "mark i (cs @ ds) = mark i cs @ mark i ds"
  unfolding mark_def by (simp, rule in_use_ids_marked, simp, rule idle_mark, simp_all)

lemma mark_other: "i \<notin> set (map cn_id cs) \<Longrightarrow> mark i cs = cs"
  unfolding mark_def by (intro map_idI) auto

lemma get_connection_list:
  assumes "get_connection ep p = (None, i, p')"
  shows "(\<exists>c \<in> set (pl_connections p). \<not> cn_in_use c \<and> i = cn_id c \<and>
            pl_connections p' = mark i (pl_connections p) \<and> pl_next p' = pl_next p) \<or>
         ((\<forall>c \<in> set (pl_connections p). cn_in_use c) \<and> i = pl_next p \<and> pl_next p' = pl_next p + 1 \<and>
            pl_connections p' = mark i (pl_connections p @
              [\<lparr>cn_id = pl_next p, cn_in_use = False, cn_attempt_reconnect = True\<rparr>]))"
proof (cases "find (\<lambda>c. \<not> cn_in_use c) (pl_connections p)")
  case (Some c)
  then have "c \<in> set (pl_connections p)" "\<not> cn_in_use c" by (auto simp: find_Some_iff)
  with assms Some show ?thesis
    by (auto simp: get_connection_def update_conn_def mark_def Let_def split: if_splits sum.splits)
next
  case None
  then have "\<forall>c \<in> set (pl_connections p). cn_in_use c" by (simp add: find_None_iff)
  with assms None show ?thesis
    by (auto simp: get_connection_def update_conn_def mark_def create_connection_def Let_def
        split: if_splits sum.splits)
qed

lemma get_connection_ok:
  assumes ok: "pool_ok \<lparr>cl_pool = p, cl_sessions = ss\<rparr>" and g: "get_connection ep p = (None, i, p')"
  shows "pool_ok \<lparr>cl_pool = p', cl_sessions = i # ss\<rparr>"
  using get_connection_list [OF g]
proof (elim disjE bexE conjE)
  fix c assume c: "c \<in> set (pl_connections p)" "\<not> cn_in_use c" "i = cn_id c"
    "pl_connections p' = mark i (pl_connections p)" "pl_next p' = pl_next p"
  have "i \<notin> set ss" using ok c in_use_ids_unique [of "pl_connections p" c] by (simp add: pool_ok_simps)
  with ok c mark_facts(3) [of i "pl_connections p"] show ?thesis
    by (auto simp: pool_ok_simps mark_facts(1,2))
next
  let ?new = "\<lparr>cn_id = pl_next p, cn_in_use = False, cn_attempt_reconnect = True\<rparr>"
  assume n: "\<forall>c \<in> set (pl_connections p). cn_in_use c" "i = pl_next p" "pl_next p' = pl_next p + 1"
    "pl_connections p' = mark i (pl_connections p @ [?new])"
  have out: "i \<notin> set (map cn_id (pl_connections p))" using ok n(2) by (auto simp: pool_ok_simps)
  then have "i \<notin> set ss" using ok in_use_ids_subset by (auto simp: pool_ok_simps)
  moreover have "pl_connections p' = pl_connections p @ mark i [?new]"
    using n(4) mark_other [OF out] by (simp add: mark_facts)
  moreover have "filter (\<lambda>c. \<not> cn_in_use c) (pl_connections p) = []" using n(1) by simp
  ultimately show ?thesis
    using ok n(2,3) out by (auto simp: pool_ok_simps mark_def less_Suc_eq)
qed

lemma session_callback_ok:
  assumes ok: "pool_ok \<lparr>cl_pool = p, cl_sessions = ss\<rparr>"
  shows "pool_ok \<lparr>cl_pool = session_callback i ec p, cl_sessions = remove1 i ss\<rparr>"
proof -
  let ?cs = "map (\<lambda>c. if cn_id c = i then c\<lparr>cn_in_use := False\<rparr> else c) (pl_connections p)"
  let ?r = "remove_unused (ec \<noteq> Ec_none) i 0 ?cs"
  have ids: "map cn_id ?cs = map cn_id (pl_connections p)" by simp
  have r: "pl_connections (session_callback i ec p) = ?r" "pl_next (session_callback i ec p) = pl_next p"
    by (simp_all add: session_callback_def update_conn_def Let_def)
  from remove_unused_used [OF cleared_not_in_use] have used: "in_use_ids ?r = in_use_ids (pl_connections p) - {i}"
    using in_use_ids_clear [of i "pl_connections p"] by (simp add: in_use_ids_def)
  have dist: "distinct (map cn_id ?r)"
    by (rule remove_unused_distinct) (use ok in \<open>simp only: ids pool_ok_simps\<close>)
  have "set (map cn_id ?r) \<subseteq> set (map cn_id ?cs)"
    using remove_unused_subset [of "ec \<noteq> Ec_none" i 0 ?cs] by auto
  then have "\<forall>j \<in> set (map cn_id ?r). j < pl_next p"
    unfolding ids using ok unfolding pool_ok_simps by blast
  moreover have "length (filter (\<lambda>c. \<not> cn_in_use c) ?r) \<le> 1"
    using remove_unused_idle [of "ec \<noteq> Ec_none" i 0 ?cs] by simp
  ultimately show ?thesis
    using ok used dist unfolding pool_ok_simps r by auto
qed

lemma reconnect_ok:
  assumes ok: "pool_ok \<lparr>cl_pool = p, cl_sessions = ss\<rparr>"
    and r: "on_response_failed i ec p = (Failed_reconnected j, p')"
  shows "pool_ok \<lparr>cl_pool = p', cl_sessions = j # remove1 i ss\<rparr>"
proof -
  let ?old = "filter (\<lambda>c. cn_id c \<noteq> i) (pl_connections p)"
  let ?new = "\<lparr>cn_id = pl_next p, cn_in_use = True, cn_attempt_reconnect = False\<rparr>"
  have p': "pl_connections p' = ?old @ [?new]" "pl_next p' = pl_next p + 1" and j: "j = pl_next p"
    using r by (auto simp: on_response_failed_def reconnect_def create_connection_def Let_def
        split: if_splits option.splits)
  have "distinct (map cn_id ?old)" using ok by (simp add: pool_ok_simps distinct_map_filter)
  moreover have old: "\<forall>k \<in> set (map cn_id ?old). k < j" using ok j by (auto simp: pool_ok_simps)
  moreover have "j \<notin> set ss"
    using ok j in_use_ids_subset [of "pl_connections p"] unfolding pool_ok_simps by blast
  moreover have "set (remove1 i ss) = in_use_ids ?old"
    using ok by (simp add: pool_ok_simps in_use_ids_remove set_remove1_eq)
  ultimately show ?thesis
    using ok j idle_remove [of i "pl_connections p"] in_use_ids_subset [of ?old]
    unfolding pool_ok_simps p' by (auto simp: less_Suc_eq)
qed

lemma client_step_ok: "client_step ep s s' \<Longrightarrow> pool_ok s \<Longrightarrow> pool_ok s'"
  by (induction rule: client_step.induct) (auto intro: get_connection_ok session_callback_ok reconnect_ok)

lemma client_reachable_ok: "client_reachable ep s \<Longrightarrow> pool_ok s"
proof (induction rule: client_reachable.induct)
  case start
  then show ?case by (simp add: pool_ok_def client_state_new_def pool_new_def idle_def)
next
  case (step s s')
  then show ?case using client_step_ok by blast
qed

section \<open>The response arrives\<close>

lemma status_text_no_cr: "no_cr (status_code_string c)"
proof -
  have "\<forall>(c, s) \<in> set status_code_strings. no_cr s"
    by (simp add: status_code_strings_def no_cr_def)
  with status_code_string_entry [of c] show ?thesis by blast
qed

lemma to_dec_no_cr: "no_cr (to_dec n)"
  using to_dec_digits [of n] by (auto simp: no_cr_def is_digit_def)

definition response_head :: "http_status_code \<Rightarrow> multimap \<Rightarrow> string" where
  "response_head code header = ''HTTP/1.1 '' @ status_code_string code @ [CR, NL] @ header_text header @ [CR, NL]"

lemma response_head_end:
  assumes "\<forall>(k, v) \<in> set header. no_cr k \<and> no_cr v"
  shows "find_sub [CR, NL, CR, NL] (response_head code header @ rest) = Some (length (response_head code header) - 4)"
proof -
  let ?ls = "(''HTTP/1.1 '' @ status_code_string code) # map (\<lambda>(k, v). k @ '': '' @ v) header"
  have h: "header_text fs = lines_text (map (\<lambda>(k, v). k @ '': '' @ v) fs)" for fs
    by (induction fs) (auto simp: header_text_def header_line_def lines_text_def)
  have eq: "response_head code header = lines_text ?ls @ [CR, NL]"
    by (simp add: response_head_def h lines_text_def)
  have "\<forall>l \<in> set ?ls. l \<noteq> [] \<and> CR \<notin> set l"
    using assms status_text_no_cr [of code] by (auto simp: no_cr_def)
  from find_blank_line [OF _ this, of rest] show ?thesis by (simp add: eq)
qed

lemma response_head_parse:
  assumes "header_ok header"
  shows "response_parse (open_istream (response_head code header @ rest)) f0 =
    Some (True, \<lparr>sf_version = ''1.1'', sf_status_code = status_code_string code, sf_header = header\<rparr>, open_istream rest)"
proof -
  have "header_parse (open_istream (header_text header @ CR # NL # rest)) = Some (header, open_istream rest)"
    using assms header_parse_text by (simp add: header_ok_def)
  from response_line_parse [OF this, of code f0] show ?thesis by (simp add: response_head_def)
qed

definition plain_header :: "multimap \<Rightarrow> bool" where
  "plain_header header \<longleftrightarrow>
     header_ok header \<and> (\<forall>(k, v) \<in> set header. no_cr k \<and> no_cr v) \<and>
     \<not> has_content_length header \<and> \<not> is_chunked header"

lemma plain_header_seen:
  assumes "plain_header header"
  shows "response_header_seen False n header = header @ content_length_field n"
    "header_ok (response_header_seen False n header)"
    "\<forall>(k, v) \<in> set (response_header_seen False n header). no_cr k \<and> no_cr v"
    "mm_find ''Content-Length'' (response_header_seen False n header) = Some (to_dec n)"
  using assms to_dec_no_cr [of n]
  by (auto simp: plain_header_def response_header_seen_def content_length_field_def mm_find_snoc no_cr_def
      header_ok_def header_name_ok_def)

section \<open>Properties\<close>

text \<open>
  A response the server writes reaches the client whole: however the network cuts the bytes, the callback is called
  without an error, with version 1.1, the status text, the handler's fields and the Content-Length, and the content.
\<close>

lemma response_read:
  assumes "socket_law ops pending" and "plain_header header"
    and "cs_content s = open_istream []"
    and "pending n = sr_out (post_content code content header http_response_new)"
    and "length (pending n) < mx" and "mx < 2 ^ 64"
  shows "\<exists>n'. client_read ops read_all mx s p n =
    Some (Client_done (Callback Ec_none),
          s\<lparr>cs_response := \<lparr>sf_version = ''1.1'', sf_status_code = status_code_string code,
                           sf_header = header @ content_length_field (length content)\<rparr>,
            cs_content := open_istream content\<rparr>,
          update_conn (cs_connection s) (\<lambda>c. c\<lparr>cn_attempt_reconnect := True\<rparr>) p, n') \<and> pending n' = []"
proof -
  let ?hs = "header @ content_length_field (length content)"
  let ?head = "response_head code ?hs"
  let ?f = "\<lparr>sf_version = ''1.1'', sf_status_code = status_code_string code, sf_header = ?hs\<rparr>"
  note hs = plain_header_seen [OF assms(2), of "length content", unfolded plain_header_seen(1) [OF assms(2)]]
  have pend: "pending n = ?head @ content"
    using assms(4) plain_header_seen(1) [OF assms(2)]
    by (simp add: post_content_eq http_response_new_def response_head_def)
  have big: "4 \<le> length ?head" by (simp add: response_head_def)
  have "find_sub [CR, NL, CR, NL] ([] @ pending n) = Some (length ?head - 4)"
    using response_head_end [OF hs(3)] pend by simp
  from socket_law_until [OF assms(1) this, of mx] assms(5) obtain B n1 where
    r: "so_read_until ops mx [CR, NL, CR, NL] [] n = (Ec_none, length ?head - 4 + length [CR, NL, CR, NL], B, n1)"
    and B: "B @ pending n1 = [] @ pending n" "length ?head - 4 + length [CR, NL, CR, NL] \<le> length B"
    and run: "so_running ops n1" by auto
  have Bp: "B @ pending n1 = ?head @ content" using B(1) pend by simp
  have "length ?head \<le> length B" using B(2) big by simp
  from prefix_split [OF Bp this] obtain b1 where b1: "B = ?head @ b1" "b1 @ pending n1 = content" by blast
  have lens: "length b1 + length (pending n1) = length content" "length B < mx"
    "length b1 + length (pending n1) < mx"
    using arg_cong [OF b1(2), of length] arg_cong [OF Bp, of length] assms(5) pend b1(1) big by auto
  have cl: "stoul 10 (to_dec (length content)) = Inr (word_of_nat (length content))"
    using stoul_to_dec [of "[]" "length content"] lens(1,3) assms(6) by simp
  have un: "unat (word_of_nat (length content) :: 64 word) = length content"
    using lens(1,3) assms(6) by (simp only: unat_of_nat) simp
  let ?s1 = "s\<lparr>cs_content := open_istream B\<rparr>"
  let ?s2 = "s\<lparr>cs_response := ?f, cs_content := open_istream b1\<rparr>"
  have head: "on_response_header mx Ec_none (length ?head) ?s1 = Some (response_framing (length b1) ?f, ?s2)"
    using response_head_parse [OF hs(2), of code b1] lens(2) b1(1)
    by (simp add: on_response_header_def Let_def)
  have framing: "response_framing (length b1) ?f =
      (if length content > length b1 then Response_read_exactly (length content - length b1)
       else Response_stop (Callback Ec_none))"
    using hs(4) cl un by (simp add: response_framing_def)
  have r': "so_read_until ops mx [CR, NL, CR, NL] (i_data (cs_content s)) n = (Ec_none, length ?head, B, n1)"
    using r big assms(3) by simp
  have s1: "s\<lparr>cs_content := (cs_content s)\<lparr>i_data := B\<rparr>\<rparr> = ?s1" using assms(3) by simp
  have lB: "length B \<noteq> mx" using lens(2) by simp
  show ?thesis
  proof (cases "length content > length b1")
    case True
    have k: "length content - length b1 \<le> length (pending n1)" using lens(1) by simp
    from socket_law_exactly [OF assms(1) k lens(3)] obtain n2 where
      r2: "so_read_exactly ops mx (length content - length b1) b1 n1 =
          (Ec_none, b1 @ take (length content - length b1) (pending n1), n2)"
      and p2: "pending n2 = drop (length content - length b1) (pending n1)" and run2: "so_running ops n2" by blast
    have "length content - length b1 = length (pending n1)" using lens(1) by simp
    then have all: "b1 @ take (length content - length b1) (pending n1) = content" "pending n2 = []"
      using b1(2) p2 by auto
    have "length content \<noteq> mx" using lens(1,3) by simp
    with True show ?thesis
      unfolding client_read_def r' prod.case Let_def s1 head framing
      using run lB r2 [unfolded all(1)] run2 all(2) by simp
  next
    case False
    then have "length (pending n1) = 0" using lens(1) by linarith
    then have e: "pending n1 = []" by simp
    with b1(2) have c: "b1 = content" by simp
    from False framing have stop: "response_framing (length b1) ?f = Response_stop (Callback Ec_none)" by simp
    show ?thesis
      unfolding client_read_def r' prod.case Let_def s1 head stop
      unfolding c
      using run lB e by (intro exI [of _ n1]) simp
  qed
qed



text \<open>
  A response whose Content-Length is not a number makes the client's handler throw: the
  session's callback is not called and the pool is as it was, so the connection stays marked in
  use and the caller never hears of its request.\<close>
lemma client_bad_length_throws:
  assumes "stoul 10 v = Inl e" and "NL \<notin> set v" and "no_cr v" and "header_value_ok v"
    and "cs_content s = open_istream (response_head code [(''Content-Length'', v)])"
    and "length (response_head code [(''Content-Length'', v)]) < mx"
  shows "\<exists>s'. on_response_header mx Ec_none (length (response_head code [(''Content-Length'', v)])) s =
    Some (Response_stop (Client_threw e), s')"
proof -
  have "header_ok [(''Content-Length'', v)]"
    using assms(4) by (simp add: header_ok_def header_name_ok_def)
  from response_head_parse [OF this, of code "[]"] assms show ?thesis
    by (simp add: on_response_header_def Let_def response_framing_def mm_find_def)
qed

lemma client_bad_length_throws_witness:
  "\<exists>s'. on_response_header 1000 Ec_none (length (response_head unknown [(''Content-Length'', ''x'')]))
      \<lparr>cs_connection = 0, cs_content = open_istream (response_head unknown [(''Content-Length'', ''x'')]),
       cs_response = \<lparr>sf_version = [], sf_status_code = [], sf_header = []\<rparr>\<rparr> =
    Some (Response_stop (Client_threw (Failure ''invalid_argument'')), s')"
proof (rule client_bad_length_throws)
  show "stoul 10 ''x'' = Inl (Failure ''invalid_argument'')"
    by (simp add: stoul_def strto_parts_def split_sign_def split_hex_prefix_def is_space_def digit_val_def)
  show "length (response_head unknown [(''Content-Length'', ''x'')]) < 1000"
    by (simp add: response_head_def header_text_def header_line_def status_code_string_def status_code_strings_def)
qed (simp_all add: no_cr_def header_value_ok_def)

end
