(* ===== verification/Sync.thy ===== *)
theory Sync
  imports Prelude
begin

text \<open>
  The synchronisation primitives: \<open>scope_runner\<close> (src/network/scope_runner.cpp), which
  cancels asio handlers, and \<open>protected_mutex\<close> (include/server_lib/protected_mutex.h). Both
  are loops of compare-and-exchange over an atomic, so each is a step relation in which every
  access to shared memory is a step of its own and the threads interleave freely; a weak
  exchange may fail without a reason.
\<close>

section \<open>The scope runner\<close>

datatype runner_pc =
    R_idle
  | R_try int
  | R_locked
  | R_refused
  | S_spin
  | S_done

record runner =
  rn_count :: int
  rn_pc :: "nat \<Rightarrow> runner_pc"

definition runner_new :: runner where
  "runner_new = \<lparr>rn_count = 0, rn_pc = (\<lambda>_. R_idle)\<rparr>"

text \<open>
  \<open>continue_lock\<close>: the load (\<open>enter\<close>), the exchange, its failure, which loads again, and the
  answer \<open>nullptr\<close>; \<open>release\<close> is the destructor of the lock.
\<close>

inductive runner_step :: "runner \<Rightarrow> runner \<Rightarrow> bool" where
  enter: "rn_pc r t = R_idle \<Longrightarrow> runner_step r (r\<lparr>rn_pc := (rn_pc r)(t := R_try (rn_count r))\<rparr>)"
| locked: "rn_pc r t = R_try e \<Longrightarrow> 0 \<le> e \<Longrightarrow> rn_count r = e \<Longrightarrow>
    runner_step r (r\<lparr>rn_count := e + 1, rn_pc := (rn_pc r)(t := R_locked)\<rparr>)"
| retry: "rn_pc r t = R_try e \<Longrightarrow> 0 \<le> e \<Longrightarrow>
    runner_step r (r\<lparr>rn_pc := (rn_pc r)(t := R_try (rn_count r))\<rparr>)"
| refused: "rn_pc r t = R_try e \<Longrightarrow> e < 0 \<Longrightarrow> runner_step r (r\<lparr>rn_pc := (rn_pc r)(t := R_refused)\<rparr>)"
| release: "rn_pc r t = R_locked \<Longrightarrow>
    runner_step r (r\<lparr>rn_count := rn_count r - 1, rn_pc := (rn_pc r)(t := R_idle)\<rparr>)"
| stop: "rn_pc r t = R_idle \<Longrightarrow> runner_step r (r\<lparr>rn_pc := (rn_pc r)(t := S_spin)\<rparr>)"
| stopped: "rn_pc r t = S_spin \<Longrightarrow> rn_count r = 0 \<Longrightarrow>
    runner_step r (r\<lparr>rn_count := -1, rn_pc := (rn_pc r)(t := S_done)\<rparr>)"
| already: "rn_pc r t = S_spin \<Longrightarrow> rn_count r < 0 \<Longrightarrow> runner_step r (r\<lparr>rn_pc := (rn_pc r)(t := S_done)\<rparr>)"
| spin: "rn_pc r t = S_spin \<Longrightarrow> runner_step r r"

inductive_cases runner_stepE: "runner_step r r'"

inductive runner_steps :: "runner \<Rightarrow> runner \<Rightarrow> bool" where
  refl: "runner_steps r r"
| step: "runner_steps r r' \<Longrightarrow> runner_step r' r'' \<Longrightarrow> runner_steps r r''"

definition holders :: "runner \<Rightarrow> nat set" where
  "holders r = {t. rn_pc r t = R_locked}"

text \<open>The counter counts the locks that are held, or is -1, and then none is.\<close>

definition runner_ok :: "runner \<Rightarrow> bool" where
  "runner_ok r \<longleftrightarrow>
     finite (holders r) \<and>
     (if 0 \<le> rn_count r then rn_count r = int (card (holders r)) else rn_count r = -1 \<and> holders r = {}) \<and>
     (\<forall>t. rn_pc r t = S_done \<longrightarrow> rn_count r < 0)"

lemma holders_update:
  "holders (r\<lparr>rn_pc := (rn_pc r)(t := p)\<rparr>) = (if p = R_locked then insert t (holders r) else holders r - {t})"
  "holders (r\<lparr>rn_count := c, rn_pc := (rn_pc r)(t := p)\<rparr>) =
     (if p = R_locked then insert t (holders r) else holders r - {t})"
  by (auto simp: holders_def)

lemma not_holder: "rn_pc r t \<noteq> R_locked \<Longrightarrow> t \<notin> holders r"
  by (simp add: holders_def)

lemma runner_step_ok [inv_intros]: "runner_step r r' \<Longrightarrow> runner_ok r \<Longrightarrow> runner_ok r'"
proof (induction rule: runner_step.induct)
  case (locked r t e)
  then have "t \<notin> holders r" by (simp add: not_holder)
  with locked show ?case by (auto simp: runner_ok_def holders_update)
next
  case (release r t)
  then have t: "t \<in> holders r" and fin: "finite (holders r)" by (simp_all add: holders_def runner_ok_def)
  then have "0 \<le> rn_count r" and c: "rn_count r = int (card (holders r))"
    using release by (auto simp: runner_ok_def split: if_splits)
  moreover have "0 < card (holders r)" using t fin by (auto simp: card_gt_0_iff)
  ultimately show ?case
    using release t fin by (auto simp: runner_ok_def holders_update card_Diff_singleton of_nat_diff)
qed (auto simp: runner_ok_def holders_update not_holder)

lemma runner_steps_ok: "runner_steps r r' \<Longrightarrow> runner_ok r \<Longrightarrow> runner_ok r'"
  by (induction rule: runner_steps.induct) (auto intro: runner_step_ok)

lemma runner_new_ok [inv_intros]: "runner_ok runner_new"
  by (simp add: runner_ok_def runner_new_def holders_def)

lemma runner_step_negative: "runner_step r r' \<Longrightarrow> runner_ok r \<Longrightarrow> rn_count r < 0 \<Longrightarrow> rn_count r' < 0"
proof (induction rule: runner_step.induct)
  case (release r t)
  then have "t \<in> holders r" by (simp add: holders_def)
  with release show ?case by (auto simp: runner_ok_def split: if_splits)
qed auto

lemma runner_steps_negative: "runner_steps r r' \<Longrightarrow> runner_ok r \<Longrightarrow> rn_count r < 0 \<Longrightarrow> rn_count r' < 0"
proof (induction rule: runner_steps.induct)
  case (step r r' r'')
  then show ?case using runner_step_negative runner_steps_ok by blast
qed

text \<open>C26: When stop() has returned in some thread, no handler is inside its scope, and none will be:
  in every later state nobody holds a lock, whatever the threads were doing when stop returned.\<close>
theorem scope_runner_stop_safe:
  assumes "runner_steps runner_new r" and "rn_pc r t = S_done" and "runner_steps r r'"
  shows "holders r' = {}"
proof -
  have ok: "runner_ok r" using assms(1) runner_steps_ok runner_new_ok by blast
  then have "rn_count r < 0" using assms(2) unfolding runner_ok_def by blast
  then have "rn_count r' < 0" using runner_steps_negative [OF assms(3) ok] by simp
  moreover have "runner_ok r'" using assms(3) ok runner_steps_ok by blast
  ultimately show ?thesis by (simp add: runner_ok_def)
qed

theorem scope_runner_stop_safe_witness:
  "\<exists>r. runner_steps runner_new r \<and> rn_pc r 0 = S_done \<and> holders r = {}"
proof -
  let ?a = "runner_new\<lparr>rn_pc := (rn_pc runner_new)(0 := S_spin)\<rparr>"
  let ?b = "?a\<lparr>rn_count := -1, rn_pc := (rn_pc ?a)(0 := S_done)\<rparr>"
  have "runner_step runner_new ?a" by (rule runner_step.stop) (simp add: runner_new_def)
  moreover have "runner_step ?a ?b" by (rule runner_step.stopped) (simp_all add: runner_new_def)
  ultimately have r: "runner_steps runner_new ?b" by (blast intro: runner_steps.intros)
  have d: "rn_pc ?b 0 = S_done" by simp
  from scope_runner_stop_safe [OF r d runner_steps.refl] r d show ?thesis by blast
qed

text \<open>
  stop() can always finish: from every reachable state in which a thread is in the loop of
  stop and every lock in its scope is released, its next exchange succeeds; and while stop is
  spinning the lock holders are always able to release.\<close>
lemma scope_runner_stop_progress:
  assumes "runner_steps runner_new r" and "rn_pc r t = S_spin"
  shows "(holders r = {} \<longrightarrow> (\<exists>r'. runner_step r r' \<and> rn_pc r' t = S_done)) \<and>
    (\<forall>u \<in> holders r. \<exists>r'. runner_step r r' \<and> holders r' = holders r - {u})"
proof
  have ok: "runner_ok r" using assms(1) runner_steps_ok runner_new_ok by blast
  show "holders r = {} \<longrightarrow> (\<exists>r'. runner_step r r' \<and> rn_pc r' t = S_done)"
  proof
    assume e: "holders r = {}"
    show "\<exists>r'. runner_step r r' \<and> rn_pc r' t = S_done"
    proof (cases "rn_count r < 0")
      case True
      with runner_step.already [OF assms(2)] show ?thesis by fastforce
    next
      case False
      with ok e have "rn_count r = 0" by (simp add: runner_ok_def)
      with runner_step.stopped [OF assms(2)] show ?thesis by fastforce
    qed
  qed
  show "\<forall>u \<in> holders r. \<exists>r'. runner_step r r' \<and> holders r' = holders r - {u}"
  proof
    fix u assume "u \<in> holders r"
    then have "rn_pc r u = R_locked" by (simp add: holders_def)
    from runner_step.release [OF this] show "\<exists>r'. runner_step r r' \<and> holders r' = holders r - {u}"
      by (auto simp: holders_update)
  qed
qed

lemma scope_runner_stop_progress_witness:
  "\<exists>r. runner_steps runner_new r \<and> rn_pc r 0 = S_spin \<and> (\<exists>r'. runner_step r r' \<and> rn_pc r' 0 = S_done)"
proof -
  let ?a = "runner_new\<lparr>rn_pc := (rn_pc runner_new)(0 := S_spin)\<rparr>"
  have "runner_step runner_new ?a" by (rule runner_step.stop) (simp add: runner_new_def)
  then have r: "runner_steps runner_new ?a" by (blast intro: runner_steps.intros)
  have "holders ?a = {}" by (simp add: holders_def runner_new_def)
  with scope_runner_stop_progress [OF r, of 0] r show ?thesis by fastforce
qed

section \<open>The protected mutex\<close>

text \<open>
  \<open>h\<close> is the hash of a thread's id. A thread is outside, waiting for the inner mutex, between
  taking it and storing its hash, inside, between the check of \<open>unlock\<close> and releasing the inner
  mutex, or in the loop that clears the owner, with the value it expects there. A call that
  throws leaves the thread where it was.
\<close>

datatype pm_pc = P_out | P_wait | P_store | P_in | P_release | P_clear "64 word"

record pmutex =
  pm_ows :: "64 word"
  pm_inner :: "nat option"
  pm_pc :: "nat \<Rightarrow> pm_pc"

definition pmutex_new :: pmutex where
  "pmutex_new = \<lparr>pm_ows = 0, pm_inner = None, pm_pc = (\<lambda>_. P_out)\<rparr>"

text \<open>The checks at the start of \<open>lock\<close> and of \<open>unlock\<close>: the exception, if any.\<close>

definition lock_check :: "(nat \<Rightarrow> 64 word) \<Rightarrow> nat \<Rightarrow> pmutex \<Rightarrow> srv_error option" where
  "lock_check h t m = (if pm_ows m = h t then Some (Logic_error ''Owner try to relock'') else None)"

definition unlock_check :: "(nat \<Rightarrow> 64 word) \<Rightarrow> nat \<Rightarrow> pmutex \<Rightarrow> srv_error option" where
  "unlock_check h t m =
     (if pm_ows m = h t then None
      else if pm_ows m \<noteq> 0 then Some (Logic_error ''Attempt to unlock not locked mutex'')
      else Some (Logic_error ''Not owner try to unlock''))"

inductive pm_step :: "(nat \<Rightarrow> 64 word) \<Rightarrow> pmutex \<Rightarrow> pmutex \<Rightarrow> bool" for h where
  lock: "pm_pc m t = P_out \<Longrightarrow> lock_check h t m = None \<Longrightarrow>
    pm_step h m (m\<lparr>pm_pc := (pm_pc m)(t := P_wait)\<rparr>)"
| acquire: "pm_pc m t = P_wait \<Longrightarrow> pm_inner m = None \<Longrightarrow>
    pm_step h m (m\<lparr>pm_inner := Some t, pm_pc := (pm_pc m)(t := P_store)\<rparr>)"
| store: "pm_pc m t = P_store \<Longrightarrow> pm_step h m (m\<lparr>pm_ows := h t, pm_pc := (pm_pc m)(t := P_in)\<rparr>)"
| unlock: "pm_pc m t = P_in \<Longrightarrow> unlock_check h t m = None \<Longrightarrow>
    pm_step h m (m\<lparr>pm_pc := (pm_pc m)(t := P_release)\<rparr>)"
| release: "pm_pc m t = P_release \<Longrightarrow>
    pm_step h m (m\<lparr>pm_inner := None, pm_pc := (pm_pc m)(t := P_clear (h t))\<rparr>)"
| clear: "pm_pc m t = P_clear e \<Longrightarrow> pm_ows m = e \<Longrightarrow>
    pm_step h m (m\<lparr>pm_ows := 0, pm_pc := (pm_pc m)(t := P_out)\<rparr>)"
| clear_retry: "pm_pc m t = P_clear e \<Longrightarrow>
    pm_step h m (m\<lparr>pm_pc := (pm_pc m)(t := P_clear (pm_ows m))\<rparr>)"

inductive pm_steps :: "(nat \<Rightarrow> 64 word) \<Rightarrow> pmutex \<Rightarrow> pmutex \<Rightarrow> bool" for h where
  pm_refl: "pm_steps h m m"
| pm_more: "pm_steps h m m' \<Longrightarrow> pm_step h m' m'' \<Longrightarrow> pm_steps h m m''"

definition holds_inner :: "pm_pc \<Rightarrow> bool" where
  "holds_inner p = (p = P_store \<or> p = P_in \<or> p = P_release)"

definition pm_ok :: "pmutex \<Rightarrow> bool" where
  "pm_ok m \<longleftrightarrow> (\<forall>t. holds_inner (pm_pc m t) \<longleftrightarrow> pm_inner m = Some t)"

lemma holds_inner_simps [simp]:
  "\<not> holds_inner P_out" "\<not> holds_inner P_wait" "holds_inner P_store" "holds_inner P_in"
  "holds_inner P_release" "\<not> holds_inner (P_clear e)"
  by (simp_all add: holds_inner_def)

lemma pm_okD: "pm_ok m \<Longrightarrow> holds_inner (pm_pc m t) \<longleftrightarrow> pm_inner m = Some t"
  by (simp add: pm_ok_def)

text \<open>A step of one thread that keeps its place relative to the inner mutex, and that mutex.\<close>

lemma pm_ok_move:
  "pm_ok m \<Longrightarrow> holds_inner p = holds_inner (pm_pc m t) \<Longrightarrow> pm_inner m' = pm_inner m \<Longrightarrow>
   pm_pc m' = (pm_pc m)(t := p) \<Longrightarrow> pm_ok m'"
  by (simp add: pm_ok_def)

lemma pm_step_ok [inv_intros]: "pm_step h m m' \<Longrightarrow> pm_ok m \<Longrightarrow> pm_ok m'"
proof (induction rule: pm_step.induct)
  case (acquire m t)
  then show ?case by (simp add: pm_ok_def)
next
  case (release m t)
  then have "pm_inner m = Some t" using pm_okD [of m t] by simp
  with release show ?case by (simp add: pm_ok_def)
qed (erule pm_ok_move; simp)+

lemma pm_steps_ok: "pm_steps h m m' \<Longrightarrow> pm_ok m \<Longrightarrow> pm_ok m'"
  by (induction rule: pm_steps.induct) (auto intro: pm_step_ok)

lemma pmutex_new_ok [inv_intros]: "pm_ok pmutex_new"
  by (simp add: pm_ok_def pmutex_new_def holds_inner_def)

text \<open>
  The protected mutex excludes: in every reachable state at most one thread is between its
  lock and its unlock.\<close>
lemma protected_mutex_excludes:
  assumes "pm_steps h pmutex_new m" and "pm_pc m t = P_in" and "pm_pc m u = P_in"
  shows "t = u"
proof -
  have "pm_ok m" using assms(1) pm_steps_ok pmutex_new_ok by blast
  then have "pm_inner m = Some t" "pm_inner m = Some u" using assms(2,3) by (auto simp: pm_ok_def holds_inner_def)
  then show ?thesis by simp
qed

definition example_hash :: "nat \<Rightarrow> 64 word" where
  "example_hash t = word_of_nat (t + 1)"

lemma enter_steps:
  assumes "pm_pc m t = P_out" and "lock_check h t m = None" and "pm_inner m = None"
  shows "pm_steps h m (m\<lparr>pm_ows := h t, pm_inner := Some t, pm_pc := (pm_pc m)(t := P_in)\<rparr>)"
proof -
  let ?a = "m\<lparr>pm_pc := (pm_pc m)(t := P_wait)\<rparr>"
  let ?b = "?a\<lparr>pm_inner := Some t, pm_pc := (pm_pc ?a)(t := P_store)\<rparr>"
  have "pm_step h m ?a" using assms by (intro pm_step.lock)
  moreover have "pm_step h ?a ?b" using assms by (intro pm_step.acquire) simp_all
  moreover have "pm_step h ?b (?b\<lparr>pm_ows := h t, pm_pc := (pm_pc ?b)(t := P_in)\<rparr>)" by (intro pm_step.store) simp
  ultimately have "pm_steps h m (?b\<lparr>pm_ows := h t, pm_pc := (pm_pc ?b)(t := P_in)\<rparr>)"
    by (blast intro: pm_steps.intros)
  then show ?thesis by (cases m) simp
qed

lemma protected_mutex_excludes_witness:
  "\<exists>m. pm_steps example_hash pmutex_new m \<and> pm_pc m 3 = P_in \<and> (\<forall>u. pm_pc m u = P_in \<longrightarrow> 3 = u)"
proof -
  let ?m = "pmutex_new\<lparr>pm_ows := example_hash 3, pm_inner := Some 3, pm_pc := (pm_pc pmutex_new)(3 := P_in)\<rparr>"
  have s: "pm_steps example_hash pmutex_new ?m"
    by (rule enter_steps) (simp_all add: pmutex_new_def lock_check_def example_hash_def)
  have i: "pm_pc ?m 3 = P_in" by simp
  from protected_mutex_excludes [OF s i] s i show ?thesis by blast
qed

text \<open>
  unlock() releases the inner mutex before it clears the owner, and its loop accepts whatever
  owner it finds: for any two threads there is an interleaving after which one of them is inside,
  the owner is cleared, and its own unlock throws, so the mutex is never released again.\<close>
lemma protected_mutex_owner_lost:
  assumes "h t \<noteq> 0" and "h u \<noteq> 0" and "h t \<noteq> h u" and "t \<noteq> u"
  shows "\<exists>m. pm_steps h pmutex_new m \<and> pm_pc m u = P_in \<and> pm_inner m = Some u \<and> pm_ows m = 0 \<and>
    unlock_check h u m = Some (Logic_error ''Not owner try to unlock'')"
proof -
  let ?m1 = "pmutex_new\<lparr>pm_ows := h t, pm_inner := Some t, pm_pc := (pm_pc pmutex_new)(t := P_in)\<rparr>"
  let ?m2 = "?m1\<lparr>pm_pc := (pm_pc ?m1)(t := P_release)\<rparr>"
  let ?m3 = "?m2\<lparr>pm_inner := None, pm_pc := (pm_pc ?m2)(t := P_clear (h t))\<rparr>"
  let ?m4 = "?m3\<lparr>pm_ows := h u, pm_inner := Some u, pm_pc := (pm_pc ?m3)(u := P_in)\<rparr>"
  let ?m5 = "?m4\<lparr>pm_pc := (pm_pc ?m4)(t := P_clear (pm_ows ?m4))\<rparr>"
  let ?m6 = "?m5\<lparr>pm_ows := 0, pm_pc := (pm_pc ?m5)(t := P_out)\<rparr>"
  have s1: "pm_steps h pmutex_new ?m1"
    using assms by (intro enter_steps) (auto simp: pmutex_new_def lock_check_def)
  have s2: "pm_step h ?m1 ?m2" by (rule pm_step.unlock) (simp_all add: unlock_check_def)
  have s3: "pm_step h ?m2 ?m3" by (rule pm_step.release) simp
  have s4: "pm_steps h ?m3 ?m4"
    using assms by (intro enter_steps) (auto simp: pmutex_new_def lock_check_def)
  have s5: "pm_step h ?m4 ?m5" using assms by (intro pm_step.clear_retry [where e = "h t"]) simp
  have s6: "pm_step h ?m5 ?m6" by (rule pm_step.clear) simp_all
  have trans: "pm_steps h a c" if "pm_steps h b c" "pm_steps h a b" for a b c
    using that by (induction rule: pm_steps.induct) (auto intro: pm_steps.intros)
  have "pm_steps h pmutex_new ?m3" using s1 s2 s3 by (blast intro: pm_steps.intros)
  then have "pm_steps h pmutex_new ?m4" using s4 trans by blast
  then have "pm_steps h pmutex_new ?m6" using s5 s6 by (blast intro: pm_steps.intros)
  moreover have "pm_pc ?m6 u = P_in" "pm_inner ?m6 = Some u" "pm_ows ?m6 = 0"
    "unlock_check h u ?m6 = Some (Logic_error ''Not owner try to unlock'')"
    using assms by (auto simp: unlock_check_def)
  ultimately show ?thesis by blast
qed

lemma protected_mutex_owner_lost_witness:
  "\<exists>m. pm_steps example_hash pmutex_new m \<and> pm_pc m 1 = P_in \<and> pm_inner m = Some 1 \<and> pm_ows m = 0 \<and>
    unlock_check example_hash 1 m = Some (Logic_error ''Not owner try to unlock'')"
  by (rule protected_mutex_owner_lost [of example_hash 0]) (simp_all add: example_hash_def)

text \<open>
  Used by one thread at a time the protected mutex turns misuse into exceptions: relocking by
  the owner, unlocking by another thread and unlocking when nobody holds it all throw, and proper
  use does not. The texts of the last two exceptions are those of each other's situation.\<close>
lemma protected_mutex_misuse:
  assumes "h t \<noteq> h u" and "h t \<noteq> 0" and "h u \<noteq> 0" and "pm_ows m = h t"
  shows "lock_check h t m = Some (Logic_error ''Owner try to relock'') \<and> lock_check h u m = None \<and>
    unlock_check h t m = None \<and>
    unlock_check h u m = Some (Logic_error ''Attempt to unlock not locked mutex'') \<and>
    unlock_check h t (m\<lparr>pm_ows := 0\<rparr>) = Some (Logic_error ''Not owner try to unlock'')"
  using assms by (auto simp: lock_check_def unlock_check_def)

lemma protected_mutex_misuse_witness:
  "lock_check example_hash 0 (pmutex_new\<lparr>pm_ows := example_hash 0\<rparr>) = Some (Logic_error ''Owner try to relock'')"
  using protected_mutex_misuse [of example_hash 0 1 "pmutex_new\<lparr>pm_ows := example_hash 0\<rparr>"]
  by (simp add: example_hash_def)

end

