(* ===== verification/Observers.thy ===== *)
theory Observers
  imports Prelude
begin

text \<open>
  The observers: \<open>observable\<close> (include/server_lib/observer.h), whose sinks are objects, and
  \<open>simple_observable\<close> with \<open>protected_observable\<close> (include/server_lib/simple_observer.h), whose
  sinks are callbacks. A sink may name an event loop; a notification from another thread than
  that loop's is posted to it. What a sink does when it is called is a parameter.
\<close>

section \<open>Delivery\<close>

type_synonym loop_id = nat

text \<open>
  What a notification does with a sink: a call in the notifying thread, or a handler posted to a
  loop. \<open>here l\<close> is \<open>is_this_loop()\<close> of the loop \<open>l\<close> in the notifying thread.
\<close>

datatype 's delivery = Called 's | Posted loop_id 's

definition goes_to_loop :: "(loop_id \<Rightarrow> bool) \<Rightarrow> loop_id option \<Rightarrow> bool" where
  "goes_to_loop here p_el = (case p_el of None \<Rightarrow> False | Some l \<Rightarrow> \<not> here l)"

definition delivery_of :: "(loop_id \<Rightarrow> bool) \<Rightarrow> 's \<Rightarrow> loop_id option \<Rightarrow> 's delivery" where
  "delivery_of here s p_el = (case p_el of None \<Rightarrow> Called s | Some l \<Rightarrow> if here l then Called s else Posted l s)"

section \<open>Observers that are objects\<close>

text \<open>
  \<open>_observers\<close>: a sink is the address of an object, and a slot that was unsubscribed holds
  null pointers.
\<close>

type_synonym 's slots = "('s option \<times> loop_id option) list"

text \<open>The loop of \<open>subscribe_impl\<close>: the index of the first slot of the sink, or the number of slots.\<close>

fun slot_index :: "'s \<Rightarrow> 's slots \<Rightarrow> nat" where
  "slot_index s [] = 0"
| "slot_index s (x # xs) = (if fst x = Some s then 0 else Suc (slot_index s xs))"

definition subscribe_impl :: "'s \<Rightarrow> bool \<Rightarrow> loop_id option \<Rightarrow> 's slots \<Rightarrow> 's slots" where
  "subscribe_impl s on ploop obs =
     (let i = slot_index s obs;
          obs' = (if i < length obs \<and> \<not> on then obs[i := (None, None)] else obs)
      in if on \<and> i = length obs' then obs' @ [(Some s, ploop)] else obs')"

definition subscribe :: "'s \<Rightarrow> 's slots \<Rightarrow> 's slots" where
  "subscribe s = subscribe_impl s True None"

definition subscribe_loop :: "'s \<Rightarrow> loop_id \<Rightarrow> 's slots \<Rightarrow> 's slots" where
  "subscribe_loop s l = subscribe_impl s True (Some l)"

definition unsubscribe :: "'s \<Rightarrow> 's slots \<Rightarrow> 's slots" where
  "unsubscribe s = subscribe_impl s False None"

text \<open>
  \<open>notify_impl\<close>: \<open>memf s\<close> is the exception of the member function of the sink, if it throws one;
  the result has the exception that ended the loop and what was delivered until then.
\<close>

fun notify_slots :: "(loop_id \<Rightarrow> bool) \<Rightarrow> ('s \<Rightarrow> srv_error option) \<Rightarrow> 's slots \<Rightarrow> srv_error option \<times> 's delivery list" where
  "notify_slots here memf [] = (None, [])"
| "notify_slots here memf (item # obs) =
     (case fst item of
        None \<Rightarrow> notify_slots here memf obs
      | Some s \<Rightarrow>
          if goes_to_loop here (snd item)
          then (let (e, ds) = notify_slots here memf obs in (e, Posted (the (snd item)) s # ds))
          else (case memf s of
                  Some e \<Rightarrow> (Some e, [Called s])
                | None \<Rightarrow> (let (e, ds) = notify_slots here memf obs in (e, Called s # ds))))"

text \<open>
  What the class promises: the subscribers in the order of their subscriptions, each at most once.
\<close>

datatype 's observer_op = Subscribe 's "loop_id option" | Unsubscribe 's

fun observer_apply :: "'s observer_op \<Rightarrow> 's slots \<Rightarrow> 's slots" where
  "observer_apply (Subscribe s None) = subscribe s"
| "observer_apply (Subscribe s (Some l)) = subscribe_loop s l"
| "observer_apply (Unsubscribe s) = unsubscribe s"

fun spec_apply :: "'s observer_op \<Rightarrow> ('s \<times> loop_id option) list \<Rightarrow> ('s \<times> loop_id option) list" where
  "spec_apply (Subscribe s p_el) subs = (if s \<in> fst ` set subs then subs else subs @ [(s, p_el)])"
| "spec_apply (Unsubscribe s) subs = filter (\<lambda>x. fst x \<noteq> s) subs"

definition subscribers :: "'s slots \<Rightarrow> ('s \<times> loop_id option) list" where
  "subscribers obs = concat (map (\<lambda>x. case fst x of None \<Rightarrow> [] | Some s \<Rightarrow> [(s, snd x)]) obs)"

definition slots_ok :: "'s slots \<Rightarrow> bool" where
  "slots_ok obs = distinct (map fst (subscribers obs))"

lemma subscribers_simps [simp]:
  "subscribers [] = []"
  "subscribers (x # xs) = (case fst x of None \<Rightarrow> [] | Some s \<Rightarrow> [(s, snd x)]) @ subscribers xs"
  "subscribers (xs @ ys) = subscribers xs @ subscribers ys"
  by (simp_all add: subscribers_def)

lemma slot_index_le: "slot_index s obs \<le> length obs"
  by (induction obs) auto

lemma slot_index_absent: "slot_index s obs = length obs \<longleftrightarrow> s \<notin> fst ` set (subscribers obs)"
proof (induction obs)
  case (Cons x xs)
  then show ?case by (cases x; cases "fst x") auto
qed simp

lemma subscribers_clear:
  "slots_ok obs \<Longrightarrow> slot_index s obs < length obs \<Longrightarrow>
   subscribers (obs[slot_index s obs := (None, None)]) = filter (\<lambda>x. fst x \<noteq> s) (subscribers obs)"
proof (induction obs)
  case (Cons x xs)
  show ?case
  proof (cases "fst x = Some s")
    case True
    then have "s \<notin> fst ` set (subscribers xs)" using Cons.prems by (simp add: slots_ok_def)
    then have "filter (\<lambda>x. fst x \<noteq> s) (subscribers xs) = subscribers xs"
      by (intro filter_True) auto
    then show ?thesis using True by simp
  next
    case False
    then have "slots_ok xs" using Cons.prems by (auto simp: slots_ok_def split: option.splits)
    then show ?thesis using False Cons by (auto split: option.splits)
  qed
qed simp

lemma subscribe_impl_on:
  "subscribers (subscribe_impl s True p_el obs) =
     (if s \<in> fst ` set (subscribers obs) then subscribers obs else subscribers obs @ [(s, p_el)])"
  using slot_index_absent [of s obs] by (auto simp: subscribe_impl_def)

lemma subscribe_impl_off:
  assumes "slots_ok obs"
  shows "subscribers (subscribe_impl s False p_el obs) = filter (\<lambda>x. fst x \<noteq> s) (subscribers obs)"
proof (cases "slot_index s obs < length obs")
  case True
  then show ?thesis using assms by (simp add: subscribe_impl_def subscribers_clear)
next
  case False
  then have "s \<notin> fst ` set (subscribers obs)"
    using slot_index_absent [of s obs] slot_index_le [of s obs] by simp
  then have "filter (\<lambda>x. fst x \<noteq> s) (subscribers obs) = subscribers obs" by (intro filter_True) auto
  then show ?thesis using False by (simp add: subscribe_impl_def)
qed

lemma observer_apply_refines:
  "slots_ok obs \<Longrightarrow> subscribers (observer_apply x obs) = spec_apply x (subscribers obs)"
  by (cases x rule: observer_apply.cases)
    (simp_all add: subscribe_def subscribe_loop_def unsubscribe_def subscribe_impl_on subscribe_impl_off)

lemma spec_apply_distinct: "distinct (map fst subs) \<Longrightarrow> distinct (map fst (spec_apply x subs))"
  by (cases "(x, subs)" rule: spec_apply.cases) (auto simp: distinct_map_filter)

lemma observer_apply_ok [inv_intros]: "slots_ok obs \<Longrightarrow> slots_ok (observer_apply x obs)"
  using spec_apply_distinct [of "subscribers obs" x] by (simp add: slots_ok_def observer_apply_refines)

lemma observers_refine:
  "slots_ok obs \<Longrightarrow> slots_ok (fold observer_apply xs obs) \<and>
   subscribers (fold observer_apply xs obs) = fold spec_apply xs (subscribers obs)"
  by (induction xs arbitrary: obs) (simp_all add: observer_apply_ok observer_apply_refines)

lemma notify_slots_ok:
  "\<forall>s \<in> fst ` set (subscribers obs). memf s = None \<Longrightarrow>
   notify_slots here memf obs = (None, map (\<lambda>x. delivery_of here (fst x) (snd x)) (subscribers obs))"
proof (induction obs)
  case (Cons x xs)
  then show ?case by (auto simp: delivery_of_def goes_to_loop_def split: option.splits)
qed simp

text \<open>C27: The observable implements its specification: after any sequence of subscriptions and
  unsubscriptions, a notification whose sinks do not throw reaches every current subscriber
  exactly once, in the order in which they subscribed, directly or through its loop, and nobody
  else; a cleared slot is never taken for a subscriber, and a second subscription changes nothing.\<close>
theorem observable_refines_spec:
  assumes "\<forall>s. memf s = None"
  shows "notify_slots here memf (fold observer_apply xs []) =
    (None, map (\<lambda>x. delivery_of here (fst x) (snd x)) (fold spec_apply xs []))
    \<and> distinct (map fst (fold spec_apply xs []))"
proof -
  have ok: "slots_ok []" by (simp add: slots_ok_def)
  from observers_refine [OF this, of xs]
  have "slots_ok (fold observer_apply xs [])"
    "subscribers (fold observer_apply xs []) = fold spec_apply xs []" by simp_all
  then show ?thesis using assms by (simp add: notify_slots_ok slots_ok_def)
qed

theorem observable_refines_spec_witness:
  "notify_slots (\<lambda>l. l = 7) (\<lambda>_. None)
     (fold observer_apply [Subscribe (1::nat) None, Subscribe 2 (Some 7), Subscribe 3 (Some 8), Unsubscribe 1, Subscribe 1 (Some 8)] []) =
   (None, [Called 2, Posted 8 3, Posted 8 1])"
  using observable_refines_spec [of "\<lambda>_. None" "\<lambda>l. l = 7"
     "[Subscribe (1::nat) None, Subscribe 2 (Some 7), Subscribe 3 (Some 8), Unsubscribe 1, Subscribe 1 (Some 8)]"]
  by (simp add: delivery_of_def)

section \<open>Observers that are callbacks\<close>

text \<open>
  \<open>_observers\<close> with the state of its mutex; \<open>call s\<close> is what the callback \<open>s\<close> does to the
  observable when it is called with the arguments of the notification, and the exception it throws.
\<close>

record 's simple_observable =
  so_observers :: "('s \<times> loop_id option) list"
  so_locked :: bool

definition simple_new :: "'s simple_observable" where
  "simple_new = \<lparr>so_observers = [], so_locked = False\<rparr>"

text \<open>The copy constructor copies the observers under the lock of the other; the mutex is new.\<close>

definition simple_copy :: "'s simple_observable \<Rightarrow> 's simple_observable result" where
  "simple_copy other =
     (if so_locked other then Inl (Logic_error ''Owner try to relock'')
      else Inr (simple_new\<lparr>so_observers := so_observers other\<rparr>))"

text \<open>
  \<open>std::lock_guard\<close> over the protected mutex, all calls in one thread: a second lock throws, and
  the lock is released on every way out.
\<close>

definition with_lock ::
    "('s simple_observable \<Rightarrow> srv_error option \<times> 'a \<times> 's simple_observable) \<Rightarrow> 'a \<Rightarrow>
     's simple_observable \<Rightarrow> srv_error option \<times> 'a \<times> 's simple_observable" where
  "with_lock body none ob =
     (if so_locked ob then (Some (Logic_error ''Owner try to relock''), none, ob)
      else (let (e, a, ob') = body (ob\<lparr>so_locked := True\<rparr>) in (e, a, ob'\<lparr>so_locked := False\<rparr>)))"

definition simple_subscribe :: "'s \<Rightarrow> loop_id option \<Rightarrow> 's simple_observable \<Rightarrow> srv_error option \<times> unit \<times> 's simple_observable" where
  "simple_subscribe s ploop =
     with_lock (\<lambda>ob. (None, (), ob\<lparr>so_observers := so_observers ob @ [(s, ploop)]\<rparr>)) ()"

definition is_any_subscriber :: "'s simple_observable \<Rightarrow> srv_error option \<times> bool \<times> 's simple_observable" where
  "is_any_subscriber = with_lock (\<lambda>ob. (None, so_observers ob \<noteq> [], ob)) False"

type_synonym 's callee = "'s \<Rightarrow> 's simple_observable \<Rightarrow> srv_error option \<times> 's simple_observable"

definition notify_item ::
    "(loop_id \<Rightarrow> bool) \<Rightarrow> bool \<Rightarrow> 's callee \<Rightarrow> 's \<Rightarrow> loop_id option \<Rightarrow> 's simple_observable \<Rightarrow>
     srv_error option \<times> 's delivery list \<times> 's simple_observable" where
  "notify_item here async_allowed call s p_el ob =
     (if goes_to_loop here p_el
      then (if async_allowed then (None, [Posted (the p_el) s], ob)
            else (Some (Logic_error ''Async mode is not allowed''), [], ob))
      else (let (e, ob') = call s ob in (e, [Called s], ob')))"

fun notify_items ::
    "(loop_id \<Rightarrow> bool) \<Rightarrow> bool \<Rightarrow> 's callee \<Rightarrow> ('s \<times> loop_id option) list \<Rightarrow> 's simple_observable \<Rightarrow>
     srv_error option \<times> 's delivery list \<times> 's simple_observable" where
  "notify_items here async_allowed call [] ob = (None, [], ob)"
| "notify_items here async_allowed call (item # items) ob =
     (case notify_item here async_allowed call (fst item) (snd item) ob of
        (Some e, ds, ob') \<Rightarrow> (Some e, ds, ob')
      | (None, ds, ob') \<Rightarrow>
          (let (e, ds', ob'') = notify_items here async_allowed call items ob' in (e, ds @ ds', ob'')))"

text \<open>
  \<open>notify_impl\<close> walks the vector under the lock; \<open>protected_notify_impl\<close> walks a copy of it
  with the lock released.
\<close>

definition simple_notify ::
    "(loop_id \<Rightarrow> bool) \<Rightarrow> bool \<Rightarrow> 's callee \<Rightarrow> 's simple_observable \<Rightarrow>
     srv_error option \<times> 's delivery list \<times> 's simple_observable" where
  "simple_notify here async_allowed call =
     with_lock (\<lambda>ob. notify_items here async_allowed call (so_observers ob) ob) []"

definition protected_notify ::
    "(loop_id \<Rightarrow> bool) \<Rightarrow> bool \<Rightarrow> 's callee \<Rightarrow> 's simple_observable \<Rightarrow>
     srv_error option \<times> 's delivery list \<times> 's simple_observable" where
  "protected_notify here async_allowed call ob =
     (case with_lock (\<lambda>ob. (None, so_observers ob, ob)) [] ob of
        (Some e, _, ob') \<Rightarrow> (Some e, [], ob')
      | (None, observers, ob') \<Rightarrow> notify_items here async_allowed call observers ob')"

text \<open>The public operations: a notification by value may be posted, one by reference may not.\<close>

definition notify :: "(loop_id \<Rightarrow> bool) \<Rightarrow> 's callee \<Rightarrow> 's simple_observable \<Rightarrow> srv_error option \<times> 's delivery list \<times> 's simple_observable" where
  "notify here = simple_notify here True"

definition notify_ref :: "(loop_id \<Rightarrow> bool) \<Rightarrow> 's callee \<Rightarrow> 's simple_observable \<Rightarrow> srv_error option \<times> 's delivery list \<times> 's simple_observable" where
  "notify_ref here = simple_notify here False"

definition protected_notify_value :: "(loop_id \<Rightarrow> bool) \<Rightarrow> 's callee \<Rightarrow> 's simple_observable \<Rightarrow> srv_error option \<times> 's delivery list \<times> 's simple_observable" where
  "protected_notify_value here = protected_notify here True"

definition protected_notify_ref :: "(loop_id \<Rightarrow> bool) \<Rightarrow> 's callee \<Rightarrow> 's simple_observable \<Rightarrow> srv_error option \<times> 's delivery list \<times> 's simple_observable" where
  "protected_notify_ref here = protected_notify here False"

text \<open>A callback that subscribes another one when it is called.\<close>

definition subscribing :: "'s \<Rightarrow> 's \<Rightarrow> 's callee" where
  "subscribing s s' = (\<lambda>x ob. if x = s then (let (e, _, ob') = simple_subscribe s' None ob in (e, ob')) else (None, ob))"

lemma notify_items_quiet:
  assumes "\<And>x ob. x \<in> fst ` set items \<Longrightarrow> call x ob = (None, ob)"
  shows "notify_items here True call items ob = (None, map (\<lambda>x. delivery_of here (fst x) (snd x)) items, ob)"
  using assms
  by (induction items) (auto simp: notify_item_def delivery_of_def goes_to_loop_def split: option.splits)

lemma notify_items_after:
  assumes "\<And>x ob. x \<in> fst ` set xs \<Longrightarrow> call x ob = (None, ob)"
  shows "notify_items here True call (xs @ ys) ob =
    (let (e, ds, ob') = notify_items here True call ys ob
     in (e, map (\<lambda>x. delivery_of here (fst x) (snd x)) xs @ ds, ob'))"
  using assms
  by (induction xs) (auto simp: notify_item_def delivery_of_def goes_to_loop_def split: option.splits prod.splits)

lemma subscribing_simps:
  "x \<noteq> s \<Longrightarrow> subscribing s s' x ob = (None, ob)"
  "so_locked ob \<Longrightarrow> subscribing s s' s ob = (Some (Logic_error ''Owner try to relock''), ob)"
  "\<not> so_locked ob \<Longrightarrow> subscribing s s' s ob = (None, ob\<lparr>so_observers := so_observers ob @ [(s', None)]\<rparr>)"
  by (cases ob; simp add: subscribing_def simple_subscribe_def with_lock_def)+

text \<open>
  A notification by reference stops with an exception at the first subscriber whose loop is
  another, after it has called those before it.
\<close>

lemma notify_ref_foreign:
  assumes "so_observers ob = xs @ (s, Some l) # ys" and "\<not> here l" and "\<not> so_locked ob"
    and "\<And>x p. (x, p) \<in> set xs \<Longrightarrow> \<not> goes_to_loop here p" and "\<And>x o'. call x o' = (None, o')"
  shows "notify_ref here call ob = (Some (Logic_error ''Async mode is not allowed''), map (Called \<circ> fst) xs, ob)"
proof -
  have "notify_items here False call (xs @ (s, Some l) # ys) o' =
      (Some (Logic_error ''Async mode is not allowed''), map (Called \<circ> fst) xs, o')" for o'
    using assms(4)
  proof (induction xs)
    case Nil
    then show ?case using assms(2) by (simp add: notify_item_def goes_to_loop_def)
  next
    case (Cons x xs)
    have "\<not> goes_to_loop here (snd x)" using Cons.prems [of "fst x" "snd x"] by simp
    moreover have "\<And>y p. (y, p) \<in> set xs \<Longrightarrow> \<not> goes_to_loop here p" using Cons.prems by auto
    ultimately show ?case using Cons.IH assms(5) by (simp add: notify_item_def comp_def)
  qed
  then show ?thesis using assms(1,3) by (cases ob) (simp add: notify_ref_def simple_notify_def with_lock_def)
qed

text \<open>
  A callback that subscribes another one while it is notified: the simple observable answers
  with an exception, calls nobody after it, keeps its subscribers and is unlocked again; the
  protected observable subscribes it, reaches everybody who was subscribed when the notification
  began, and not the new one.\<close>
lemma subscribing_while_notified:
  assumes "so_observers ob = xs @ (s, None) # ys" and "\<not> so_locked ob"
    and "s \<notin> fst ` set xs" and "s \<notin> fst ` set ys"
  shows "notify here (subscribing s s') ob =
      (Some (Logic_error ''Owner try to relock''),
       map (\<lambda>x. delivery_of here (fst x) (snd x)) (xs @ [(s, None)]), ob) \<and>
    protected_notify_value here (subscribing s s') ob =
      (None, map (\<lambda>x. delivery_of here (fst x) (snd x)) (so_observers ob),
       ob\<lparr>so_observers := so_observers ob @ [(s', None)]\<rparr>)"
proof
  have q: "subscribing s s' x o' = (None, o')" if "x \<in> fst ` set xs \<or> x \<in> fst ` set ys" for x o'
  proof -
    have "x \<noteq> s" using that assms(3,4) by blast
    then show ?thesis by (rule subscribing_simps(1))
  qed
  have xs: "notify_items here True (subscribing s s') (xs @ l) o' =
      (let (e, ds, ob') = notify_items here True (subscribing s s') l o'
       in (e, map (\<lambda>x. delivery_of here (fst x) (snd x)) xs @ ds, ob'))" for l o'
    using q by (intro notify_items_after) blast
  have ys: "notify_items here True (subscribing s s') ys o' =
      (None, map (\<lambda>x. delivery_of here (fst x) (snd x)) ys, o')" for o'
    using q by (intro notify_items_quiet) blast
  have unlock: "ob\<lparr>so_locked := False\<rparr> = ob" "ob\<lparr>so_observers := l, so_locked := False\<rparr> = ob\<lparr>so_observers := l\<rparr>" for l
    using assms(2) by (cases ob; simp)+
  show "notify here (subscribing s s') ob =
      (Some (Logic_error ''Owner try to relock''),
       map (\<lambda>x. delivery_of here (fst x) (snd x)) (xs @ [(s, None)]), ob)"
    using assms(1,2) unlock(1)
    by (simp add: notify_def simple_notify_def with_lock_def xs notify_item_def goes_to_loop_def delivery_of_def subscribing_simps)
  show "protected_notify_value here (subscribing s s') ob =
      (None, map (\<lambda>x. delivery_of here (fst x) (snd x)) (so_observers ob),
       ob\<lparr>so_observers := so_observers ob @ [(s', None)]\<rparr>)"
    using assms(1,2) unlock
    by (simp add: protected_notify_value_def protected_notify_def with_lock_def xs ys notify_item_def goes_to_loop_def delivery_of_def
        subscribing_simps)
qed

lemma subscribing_while_notified_witness:
  "fst (notify (\<lambda>_. True) (subscribing (1::nat) 9) \<lparr>so_observers = [(0, Some 4), (1, None), (2, None)], so_locked = False\<rparr>) =
     Some (Logic_error ''Owner try to relock'') \<and>
   fst (snd (protected_notify_value (\<lambda>_. False) (subscribing (1::nat) 9) \<lparr>so_observers = [(0, Some 4), (1, None), (2, None)], so_locked = False\<rparr>)) =
     [Posted 4 0, Called 1, Called 2]"
  using subscribing_while_notified [of "\<lparr>so_observers = [(0, Some 4), (1, None), (2, None)], so_locked = False\<rparr>"
      "[(0, Some 4)]" "1::nat" "[(2, None)]" "\<lambda>_. True" 9]
    subscribing_while_notified [of "\<lparr>so_observers = [(0, Some 4), (1, None), (2, None)], so_locked = False\<rparr>"
      "[(0, Some 4)]" "1::nat" "[(2, None)]" "\<lambda>_. False" 9]
  by (simp add: delivery_of_def)

end
