(* ===== verification/Event_Loop.thy ===== *)
theory Event_Loop
  imports Observers
begin

text \<open>
  The event loop: \<open>base_queuered_loop\<close> and \<open>event_loop\<close> (src/base_queuered_loop.cpp,
  src/event_loop.cpp), the timers on it (include/server_lib/timers.h, solo_timers.h) and the main
  loop (src/main_loop.cpp). Of \<open>boost::asio\<close> nothing is assumed but that it invokes a handler at
  most once, only while \<open>run\<close> executes on the service it was posted to, and never two handlers of a
  strand at a time: every choice of the next handler is a step. Any thread may call an operation
  between two steps, and so may the callback that a handler is in; calls to \<open>start\<close> while another
  thread is inside \<open>stop\<close> are left out.
\<close>

section \<open>State\<close>

type_synonym tid = nat

text \<open>
  What is posted: the handler of \<open>start\<close>, the one of \<open>change_loop_name\<close>, a callback of a
  client, and the closures of the two timers with the id that the timer had when it was started.
\<close>

datatype 'cb handler =
    H_started
  | H_rename
  | H_call 'cb
  | H_timer nat int 'cb
  | H_period nat int int 'cb

datatype 'cb loop_event =
    Ran 'cb
  | Timer_ran nat int 'cb
  | Start_notified 'cb
  | Stop_notified 'cb
  | Named string

text \<open>
  The fields of both classes, and what the loop does: the handlers that wait in the service and in
  its deadline timers, the thread inside \<open>run\<close> with the service it runs, the handler it is in,
  the thread inside the \<open>join\<close> of \<open>stop\<close>, whether the loop's thread has returned from \<open>run\<close>,
  the ids of the timers, and the log of what ran in which thread. \<open>el_halted\<close>: the program called
  \<open>std::terminate\<close> or its behaviour is undefined.
\<close>

record 'cb event_loop =
  el_separate :: bool
  el_base_name :: string
  el_running :: bool
  el_service :: nat
  el_maintained :: bool
  el_stopped :: bool
  el_queue_size :: "64 word"
  el_start_obs :: "'cb simple_observable"
  el_stop_obs :: "'cb simple_observable"
  el_is_run :: bool
  el_id :: tid
  el_native :: tid
  el_thread :: "tid option"
  el_queue :: "'cb handler list"
  el_timed :: "'cb handler list"
  el_runner :: "(tid \<times> nat) option"
  el_current :: "'cb handler option"
  el_joining :: "tid option"
  el_exited :: bool
  el_cells :: "nat \<Rightarrow> int"
  el_next_cell :: nat
  el_log :: "(tid \<times> 'cb loop_event) list"
  el_halted :: bool

definition log_event :: "tid \<Rightarrow> 'cb loop_event list \<Rightarrow> 'cb event_loop \<Rightarrow> 'cb event_loop" where
  "log_event t evs m = m\<lparr>el_log := el_log m @ map (Pair t) evs\<rparr>"

section \<open>The base class\<close>

definition max_thread_name :: nat where
  "max_thread_name = 15"

definition set_thread_name :: "string \<Rightarrow> 'cb event_loop \<Rightarrow> 'cb event_loop" where
  "set_thread_name name m =
     m\<lparr>el_base_name := (if length name > max_thread_name then substr name 0 max_thread_name else name)\<rparr>"

text \<open>\<open>setname\<close> tells whether \<open>pthread_setname_np\<close> answers 0 for a name.\<close>

definition apply_thread_name :: "(string \<Rightarrow> bool) \<Rightarrow> tid \<Rightarrow> 'cb event_loop \<Rightarrow> srv_error option \<times> 'cb event_loop" where
  "apply_thread_name setname t m =
     (if setname (el_base_name m) then (None, log_event t [Named (el_base_name m)] m)
      else (Some (Logic_error ''''), m))"

definition start_loop :: "'cb event_loop \<Rightarrow> 'cb event_loop" where
  "start_loop m = (if el_running m then m else m\<lparr>el_running := True, el_maintained := True\<rparr>)"

definition stop_loop :: "'cb event_loop \<Rightarrow> 'cb event_loop" where
  "stop_loop m =
     (if el_running m then m\<lparr>el_running := False, el_maintained := False, el_stopped := True\<rparr> else m)"

definition on_start_loop :: "'cb \<Rightarrow> 'cb event_loop \<Rightarrow> 'cb event_loop" where
  "on_start_loop cb m = m\<lparr>el_start_obs := snd (snd (simple_subscribe cb None (el_start_obs m)))\<rparr>"

definition on_stop_loop :: "'cb \<Rightarrow> 'cb event_loop \<Rightarrow> 'cb event_loop" where
  "on_stop_loop cb m = m\<lparr>el_stop_obs := snd (snd (simple_subscribe cb None (el_stop_obs m)))\<rparr>"

text \<open>The callbacks that a notification of a loop's observers calls, in the notifying thread.\<close>

definition notified :: "'cb simple_observable \<Rightarrow> 'cb list" where
  "notified ob = concat (map (\<lambda>d. case d of Called cb \<Rightarrow> [cb] | Posted _ _ \<Rightarrow> [])
     (fst (snd (protected_notify (\<lambda>_. False) True (\<lambda>_ ob. (None, ob)) ob))))"

definition notify_start :: "tid \<Rightarrow> 'cb event_loop \<Rightarrow> 'cb event_loop" where
  "notify_start t m = log_event t (map Start_notified (notified (el_start_obs m))) m"

definition notify_stop :: "tid \<Rightarrow> 'cb event_loop \<Rightarrow> 'cb event_loop" where
  "notify_stop t m = log_event t (map Stop_notified (notified (el_stop_obs m))) m"

text \<open>A new service: what waits in the old one is destroyed with it, uncalled.\<close>

definition base_reset :: "'cb event_loop \<Rightarrow> 'cb event_loop" where
  "base_reset m = m\<lparr>el_running := False, el_start_obs := simple_new, el_stop_obs := simple_new,
     el_service := Suc (el_service m), el_stopped := False, el_queue := [], el_timed := [], el_queue_size := 0\<rparr>"

text \<open>\<open>register_queue\<close>: the wrapper's part after the callback is \<open>return_handler\<close> below.\<close>

definition register_queue :: "'cb event_loop \<Rightarrow> 'cb event_loop" where
  "register_queue m = m\<lparr>el_queue_size := el_queue_size m + 1\<rparr>"

section \<open>The loop\<close>

definition loop_reset :: "tid \<Rightarrow> 'cb event_loop \<Rightarrow> 'cb event_loop" where
  "loop_reset t m = (base_reset m)\<lparr>el_is_run := False, el_id := t, el_native := 0,
     el_thread := (if el_separate m then None else el_thread m)\<rparr>"

definition is_this_loop :: "tid \<Rightarrow> 'cb event_loop \<Rightarrow> bool" where
  "is_this_loop t m \<longleftrightarrow> el_id m = t"

definition post_handler :: "'cb handler \<Rightarrow> 'cb event_loop \<Rightarrow> 'cb event_loop" where
  "post_handler h m = (register_queue m)\<lparr>el_queue := el_queue m @ [h]\<rparr>"

definition post_after :: "int \<Rightarrow> 'cb handler \<Rightarrow> 'cb event_loop \<Rightarrow> srv_error option \<times> 'cb event_loop" where
  "post_after ms h m =
     (let m' = register_queue m
      in if 0 < ms then (None, m'\<lparr>el_timed := el_timed m' @ [h]\<rparr>)
         else (Some (Logic_error ''1 millisecond is minimum timer accuracy''), m'))"

text \<open>The constructor, in thread \<open>t\<close>; the name of a loop without a thread is applied at once.\<close>

definition change_loop_name ::
    "(string \<Rightarrow> bool) \<Rightarrow> tid \<Rightarrow> string \<Rightarrow> 'cb event_loop \<Rightarrow> srv_error option \<times> 'cb event_loop" where
  "change_loop_name setname t name m =
     (let m' = set_thread_name name m
      in if \<not> el_separate m' then apply_thread_name setname t m'
         else if el_running m' then (None, post_handler H_rename m')
         else (None, m'))"

definition blank_loop :: "bool \<Rightarrow> 'cb event_loop" where
  "blank_loop separate =
     \<lparr>el_separate = separate, el_base_name = ''io_service'', el_running = False, el_service = 0,
      el_maintained = False, el_stopped = False, el_queue_size = 0, el_start_obs = simple_new,
      el_stop_obs = simple_new, el_is_run = False, el_id = 0, el_native = 0, el_thread = None,
      el_queue = [], el_timed = [], el_runner = None, el_current = None, el_joining = None,
      el_exited = False, el_cells = (\<lambda>_. 0), el_next_cell = 0, el_log = [], el_halted = False\<rparr>"

definition event_loop_new :: "(string \<Rightarrow> bool) \<Rightarrow> bool \<Rightarrow> tid \<Rightarrow> 'cb event_loop result" where
  "event_loop_new setname separate t =
     (case change_loop_name setname t ''io_service loop'' (blank_loop separate) of
        (Some e, _) \<Rightarrow> Inl e
      | (None, m) \<Rightarrow> Inr (loop_reset t m))"

text \<open>
  \<open>start\<close> in thread \<open>t\<close>: the new thread is \<open>u\<close>, and replacing a thread that was never joined
  terminates the program. Without a thread of its own the loop runs in \<open>t\<close>, which does not
  return before \<open>run\<close> does.
\<close>

definition loop_start :: "tid \<Rightarrow> tid \<Rightarrow> 'cb event_loop \<Rightarrow> 'cb event_loop" where
  "loop_start t u m =
     (if el_running m then m
      else (let m' = post_handler H_started (start_loop m)
            in if el_separate m'
               then (case el_thread m' of
                       Some _ \<Rightarrow> m'\<lparr>el_halted := True\<rparr>
                     | None \<Rightarrow> m'\<lparr>el_thread := Some u, el_exited := False\<rparr>)
               else m'\<lparr>el_runner := Some (t, el_service m')\<rparr>))"

text \<open>The thread of the loop reaches \<open>run\<close>.\<close>

definition loop_begin :: "'cb event_loop \<Rightarrow> 'cb event_loop" where
  "loop_begin m = m\<lparr>el_native := the (el_thread m), el_runner := Some (the (el_thread m), el_service m)\<rparr>"

text \<open>
  \<open>stop\<close> in thread \<open>t\<close>: until it has joined the loop's thread, if there is one to join; the
  join of a thread with itself throws.
\<close>

definition loop_stop :: "tid \<Rightarrow> 'cb event_loop \<Rightarrow> srv_error option \<times> 'cb event_loop" where
  "loop_stop t m =
     (if \<not> el_running m then (None, m)
      else (let m' = stop_loop m
            in case el_thread m' of
                 None \<Rightarrow> (None, loop_reset t m')
               | Some u \<Rightarrow>
                   if u = t then (Some (Failure ''Resource deadlock avoided''), m')
                   else (None, m'\<lparr>el_joining := Some t\<rparr>)))"

definition loop_join :: "'cb event_loop \<Rightarrow> 'cb event_loop" where
  "loop_join m = (loop_reset (the (el_joining m)) m)\<lparr>el_joining := None\<rparr>"

text \<open>\<open>run\<close> returns: the stop observers are notified, whichever they are by now.\<close>

definition loop_exit :: "'cb event_loop \<Rightarrow> 'cb event_loop" where
  "loop_exit m = (notify_stop (fst (the (el_runner m))) m)\<lparr>el_runner := None, el_exited := True\<rparr>"

section \<open>The timers\<close>

text \<open>\<open>++value\<close> on an \<open>int\<close>: at its largest value the behaviour is undefined.\<close>

definition next_id :: "nat \<Rightarrow> 'cb event_loop \<Rightarrow> 'cb event_loop" where
  "next_id c m =
     (if el_cells m c < 2 ^ 31 - 1 then m\<lparr>el_cells := (el_cells m)(c := el_cells m c + 1)\<rparr>
      else m\<lparr>el_halted := True\<rparr>)"

definition timer_new :: "'cb event_loop \<Rightarrow> nat \<times> 'cb event_loop" where
  "timer_new m = (el_next_cell m,
     m\<lparr>el_next_cell := Suc (el_next_cell m), el_cells := (el_cells m)(el_next_cell m := 0)\<rparr>)"

definition timer_start :: "nat \<Rightarrow> int \<Rightarrow> 'cb \<Rightarrow> 'cb event_loop \<Rightarrow> srv_error option \<times> 'cb event_loop" where
  "timer_start c ms cb m =
     (let m' = next_id c m in if el_halted m' then (None, m') else post_after ms (H_timer c (el_cells m' c) cb) m')"

definition timer_stop :: "nat \<Rightarrow> 'cb event_loop \<Rightarrow> 'cb event_loop" where
  "timer_stop c m = next_id c m"

definition period_start :: "nat \<Rightarrow> int \<Rightarrow> 'cb \<Rightarrow> 'cb event_loop \<Rightarrow> srv_error option \<times> 'cb event_loop" where
  "period_start c ms cb m =
     (let m' = next_id c m in if el_halted m' then (None, m') else post_after ms (H_period c (el_cells m' c) ms cb) m')"

definition loop_repeat :: "int \<Rightarrow> 'cb \<Rightarrow> 'cb event_loop \<Rightarrow> srv_error option \<times> 'cb event_loop" where
  "loop_repeat ms cb m =
     (if 0 < ms then (let (c, m') = timer_new m in period_start c ms cb m')
      else (Some (Logic_error ''1 millisecond is minimum timer accuracy''), m))"

section \<open>Handlers\<close>

text \<open>What a handler does in thread \<open>t\<close> before the code of its callback takes over.\<close>

definition invoke_handler :: "(string \<Rightarrow> bool) \<Rightarrow> tid \<Rightarrow> 'cb handler \<Rightarrow> 'cb event_loop \<Rightarrow> srv_error option \<times> 'cb event_loop" where
  "invoke_handler setname t h m =
     (case h of
        H_started \<Rightarrow> (None, notify_start t (m\<lparr>el_is_run := True\<rparr>))
      | H_rename \<Rightarrow> apply_thread_name setname t m
      | H_call cb \<Rightarrow> (None, log_event t [Ran cb] m)
      | H_timer c i cb \<Rightarrow> (None, if el_cells m c = i then log_event t [Timer_ran c i cb] m else m)
      | H_period c i ms cb \<Rightarrow>
          if el_cells m c = i
          then (case period_start c ms cb m of
                  (Some e, m') \<Rightarrow> (Some e, m')
                | (None, m') \<Rightarrow> (None, log_event t [Timer_ran c i cb] m'))
          else (None, m))"

text \<open>
  An exception of a callback leaves \<open>run\<close>: in a thread of its own it ends the program; else \<open>start\<close>
  stops the loop and passes it on.
\<close>

definition loop_throw :: "'cb event_loop \<Rightarrow> 'cb event_loop" where
  "loop_throw m =
     (if el_separate m then m\<lparr>el_halted := True\<rparr>
      else snd (loop_stop (fst (the (el_runner m))) (m\<lparr>el_current := None, el_runner := None\<rparr>)))"

text \<open>Begin with a handler: \<open>m\<close> has it removed from where it waited.\<close>

definition begin_handler :: "(string \<Rightarrow> bool) \<Rightarrow> 'cb handler \<Rightarrow> 'cb event_loop \<Rightarrow> 'cb event_loop" where
  "begin_handler setname h m =
     (case invoke_handler setname (fst (the (el_runner m))) h (m\<lparr>el_current := Some h\<rparr>) of
        (None, m') \<Rightarrow> m'
      | (Some e, m') \<Rightarrow> loop_throw m')"

text \<open>The end of the wrapper of \<open>register_queue\<close>.\<close>

definition return_handler :: "'cb event_loop \<Rightarrow> 'cb event_loop" where
  "return_handler m = m\<lparr>el_queue_size := el_queue_size m - 1, el_current := None\<rparr>"

definition remove_nth :: "nat \<Rightarrow> 'a list \<Rightarrow> 'a list" where
  "remove_nth i xs = take i xs @ drop (Suc i) xs"

section \<open>Steps\<close>

datatype 'cb loop_action =
    Post 'cb
  | Post_after int 'cb
  | Rename tid string
  | On_start 'cb
  | On_stop 'cb
  | Start tid tid
  | Stop tid
  | New_timer
  | Timer_start nat int 'cb
  | Timer_stop nat
  | Period_start nat int 'cb
  | Repeat int 'cb
  | Begin
  | Invoke nat
  | Expire nat
  | Return
  | Throw
  | Exit
  | Join

text \<open>
  When an action is possible. A new thread has an id of its own. A loop without a thread is not
  started again from inside its own \<open>run\<close>.
\<close>

fun loop_can :: "'cb loop_action \<Rightarrow> 'cb event_loop \<Rightarrow> bool" where
  "loop_can (Start t u) m \<longleftrightarrow>
     el_joining m = None \<and> (el_separate m \<or> el_runner m = None) \<and> u \<noteq> t \<and> u \<noteq> el_id m"
| "loop_can (Timer_start c ms cb) m \<longleftrightarrow> c < el_next_cell m"
| "loop_can (Timer_stop c) m \<longleftrightarrow> c < el_next_cell m"
| "loop_can (Period_start c ms cb) m \<longleftrightarrow> c < el_next_cell m"
| "loop_can Begin m \<longleftrightarrow> el_separate m \<and> el_thread m \<noteq> None \<and> el_runner m = None \<and> \<not> el_exited m"
| "loop_can (Invoke i) m \<longleftrightarrow>
     i < length (el_queue m) \<and> map_option snd (el_runner m) = Some (el_service m) \<and> \<not> el_stopped m \<and> el_current m = None"
| "loop_can (Expire i) m \<longleftrightarrow>
     i < length (el_timed m) \<and> map_option snd (el_runner m) = Some (el_service m) \<and> \<not> el_stopped m \<and> el_current m = None"
| "loop_can Return m \<longleftrightarrow> el_runner m \<noteq> None \<and> el_current m \<noteq> None"
| "loop_can Throw m \<longleftrightarrow> el_runner m \<noteq> None \<and> el_current m \<noteq> None"
| "loop_can Exit m \<longleftrightarrow>
     el_runner m \<noteq> None \<and> el_current m = None \<and> (el_stopped m \<or> snd (the (el_runner m)) \<noteq> el_service m)"
| "loop_can Join m \<longleftrightarrow> el_joining m \<noteq> None \<and> el_exited m"
| "loop_can _ m \<longleftrightarrow> True"

text \<open>What it does; the exceptions of the operations go to their callers.\<close>

fun loop_do :: "(string \<Rightarrow> bool) \<Rightarrow> 'cb loop_action \<Rightarrow> 'cb event_loop \<Rightarrow> 'cb event_loop" where
  "loop_do setname (Post cb) m = post_handler (H_call cb) m"
| "loop_do setname (Post_after ms cb) m = snd (post_after ms (H_call cb) m)"
| "loop_do setname (Rename t name) m = snd (change_loop_name setname t name m)"
| "loop_do setname (On_start cb) m = on_start_loop cb m"
| "loop_do setname (On_stop cb) m = on_stop_loop cb m"
| "loop_do setname (Start t u) m = loop_start t u m"
| "loop_do setname (Stop t) m = snd (loop_stop t m)"
| "loop_do setname New_timer m = snd (timer_new m)"
| "loop_do setname (Timer_start c ms cb) m = snd (timer_start c ms cb m)"
| "loop_do setname (Timer_stop c) m = timer_stop c m"
| "loop_do setname (Period_start c ms cb) m = snd (period_start c ms cb m)"
| "loop_do setname (Repeat ms cb) m = snd (loop_repeat ms cb m)"
| "loop_do setname Begin m = loop_begin m"
| "loop_do setname (Invoke i) m = begin_handler setname (el_queue m ! i) (m\<lparr>el_queue := remove_nth i (el_queue m)\<rparr>)"
| "loop_do setname (Expire i) m = begin_handler setname (el_timed m ! i) (m\<lparr>el_timed := remove_nth i (el_timed m)\<rparr>)"
| "loop_do setname Return m = return_handler m"
| "loop_do setname Throw m = loop_throw m"
| "loop_do setname Exit m = loop_exit m"
| "loop_do setname Join m = loop_join m"

text \<open>The runs of a loop.\<close>

inductive loop_run :: "(string \<Rightarrow> bool) \<Rightarrow> 'cb event_loop \<Rightarrow> 'cb loop_action list \<Rightarrow> 'cb event_loop \<Rightarrow> bool"
    for setname where
  run_none: "loop_run setname m [] m"
| run_step: "loop_run setname m as m' \<Longrightarrow> \<not> el_halted m' \<Longrightarrow> loop_can a m' \<Longrightarrow>
    loop_run setname m (as @ [a]) (loop_do setname a m')"

text \<open>The runs that a list of actions describes, computed.\<close>

fun loop_exec :: "(string \<Rightarrow> bool) \<Rightarrow> 'cb loop_action list \<Rightarrow> 'cb event_loop \<Rightarrow> 'cb event_loop option" where
  "loop_exec setname [] m = Some m"
| "loop_exec setname (a # as) m =
     (if \<not> el_halted m \<and> loop_can a m then loop_exec setname as (loop_do setname a m) else None)"

lemma loop_run_trans:
  "loop_run setname m' bs m'' \<Longrightarrow> loop_run setname m as m' \<Longrightarrow> loop_run setname m (as @ bs) m''"
proof (induction rule: loop_run.induct)
  case (run_step m1 bs m2 a)
  then have "loop_run setname m (as @ bs) m2" by simp
  then have "loop_run setname m ((as @ bs) @ [a]) (loop_do setname a m2)"
    using run_step.hyps by (intro loop_run.run_step)
  then show ?case by simp
qed simp

lemma loop_exec_run: "loop_exec setname as m = Some m' \<Longrightarrow> loop_run setname m as m'"
proof (induction as arbitrary: m)
  case Nil
  then show ?case by (simp add: loop_run.run_none)
next
  case (Cons a as)
  then have ok: "\<not> el_halted m" "loop_can a m" and ex: "loop_exec setname as (loop_do setname a m) = Some m'"
    by (auto split: if_splits)
  from Cons.IH [OF ex] have "loop_run setname (loop_do setname a m) as m'" .
  moreover have "loop_run setname m ([] @ [a]) (loop_do setname a m)"
    using ok by (intro loop_run.run_step loop_run.run_none)
  ultimately show ?case using loop_run_trans [of setname "loop_do setname a m" as m' m "[a]"] by simp
qed

section \<open>The fields that an operation leaves alone\<close>

lemmas loop_op_defs = log_event_def set_thread_name_def apply_thread_name_def start_loop_def stop_loop_def
  on_start_loop_def on_stop_loop_def notify_start_def notify_stop_def base_reset_def register_queue_def
  loop_reset_def post_handler_def post_after_def change_loop_name_def loop_start_def loop_begin_def
  loop_stop_def loop_join_def loop_exit_def next_id_def timer_new_def timer_start_def timer_stop_def
  period_start_def loop_repeat_def return_handler_def

lemma set_remove_nth: "set (remove_nth i xs) \<subseteq> set xs"
  by (auto simp: remove_nth_def dest: in_set_takeD in_set_dropD)

lemma length_remove_nth: "i < length xs \<Longrightarrow> length (remove_nth i xs) = length xs - 1"
  by (simp add: remove_nth_def)

section \<open>A loop with a thread of its own\<close>

fun handler_ok :: "'cb handler \<Rightarrow> bool" where
  "handler_ok (H_period c i ms cb) = (0 < ms)"
| "handler_ok _ = True"

text \<open>
  Its runner is its thread and not the thread that constructed or stopped it, it is only joined
  by another thread, and its name always fits.
\<close>

definition loop_ok :: "'cb event_loop \<Rightarrow> bool" where
  "loop_ok m \<longleftrightarrow>
     el_separate m \<and> length (el_base_name m) \<le> max_thread_name \<and>
     (el_runner m = None \<longrightarrow> el_current m = None) \<and>
     (\<forall>u s. el_runner m = Some (u, s) \<longrightarrow> el_thread m = Some u \<and> s = el_service m) \<and>
     (el_thread m \<noteq> Some (el_id m)) \<and>
     (\<forall>t. el_joining m = Some t \<longrightarrow> el_thread m \<noteq> None \<and> el_thread m \<noteq> Some t \<and>
       \<not> el_running m \<and> el_stopped m) \<and>
     (el_exited m \<longrightarrow> el_runner m = None) \<and>
     list_all handler_ok (el_queue m @ el_timed m)"

definition names_fit :: "(string \<Rightarrow> bool) \<Rightarrow> bool" where
  "names_fit setname \<longleftrightarrow> (\<forall>name. length name \<le> 15 \<longrightarrow> setname name)"

text \<open>Waiting or under way: what the counter of \<open>queue_size()\<close> stands for.\<close>

definition waiting :: "'cb event_loop \<Rightarrow> nat" where
  "waiting m = length (el_queue m) + length (el_timed m) + (if el_current m = None then 0 else 1)"

definition counted :: "'cb event_loop \<Rightarrow> bool" where
  "counted m \<longleftrightarrow> el_halted m \<or> el_queue_size m = word_of_nat (waiting m)"

text \<open>The actions after which the counter is still right.\<close>

fun counts :: "'cb loop_action \<Rightarrow> bool" where
  "counts (Post_after ms cb) = (0 < ms)"
| "counts (Timer_start c ms cb) = (0 < ms)"
| "counts (Period_start c ms cb) = (0 < ms)"
| "counts _ = True"

lemma list_all_remove_nth: "list_all P xs \<Longrightarrow> list_all P (remove_nth i xs)"
  using set_remove_nth by (fastforce simp: list_all_iff)

lemma list_all_nth_mem: "list_all P xs \<Longrightarrow> i < length xs \<Longrightarrow> P (xs ! i)"
  by (simp add: list_all_iff)

text \<open>A handler that begins: its invariant, for the calls of \<open>Invoke\<close> and \<open>Expire\<close>.\<close>

lemma begin_handler_ok:
  assumes "loop_ok m" and "handler_ok h" and "el_runner m \<noteq> None" and "names_fit setname"
  shows "loop_ok (begin_handler setname h m)"
  using assms
  by (cases h)
    (auto simp: begin_handler_def invoke_handler_def loop_throw_def loop_op_defs loop_ok_def names_fit_def
      max_thread_name_def Let_def)

lemma loop_step_ok [inv_intros]:
  assumes "loop_ok m" and "loop_can a m" and "names_fit setname"
  shows "loop_ok (loop_do setname a m)"
proof (cases a)
  case (Invoke i)
  have "loop_ok (m\<lparr>el_queue := remove_nth i (el_queue m)\<rparr>)"
    using assms(1) by (auto simp: loop_ok_def list_all_remove_nth)
  moreover have "handler_ok (el_queue m ! i)"
    using assms Invoke by (auto simp: loop_ok_def list_all_nth_mem)
  ultimately show ?thesis using Invoke assms by (auto intro: begin_handler_ok)
next
  case (Expire i)
  have "loop_ok (m\<lparr>el_timed := remove_nth i (el_timed m)\<rparr>)"
    using assms(1) by (auto simp: loop_ok_def list_all_remove_nth)
  moreover have "handler_ok (el_timed m ! i)"
    using assms Expire by (auto simp: loop_ok_def list_all_nth_mem)
  ultimately show ?thesis using Expire assms by (auto intro: begin_handler_ok)
qed (use assms in \<open>auto simp: loop_op_defs loop_ok_def Let_def loop_throw_def substr_def max_thread_name_def
    split: option.splits\<close>)

lemma begin_handler_counted:
  assumes "loop_ok m" and "handler_ok h" and "el_runner m \<noteq> None" and "names_fit setname"
    and "el_queue_size m = word_of_nat (Suc (length (el_queue m) + length (el_timed m)))"
  shows "counted (begin_handler setname h m)"
  using assms
  by (cases h)
    (auto simp: begin_handler_def invoke_handler_def loop_throw_def loop_op_defs loop_ok_def names_fit_def
      max_thread_name_def counted_def waiting_def Let_def)

lemma counted_take:
  assumes "counted m" and "\<not> el_halted m" and "el_current m = None" and "i < length (el_queue m)"
  shows "el_queue_size m = word_of_nat (Suc (length (remove_nth i (el_queue m)) + length (el_timed m)))"
proof -
  have "waiting m = Suc (length (remove_nth i (el_queue m)) + length (el_timed m))"
    using assms(3,4) by (simp add: waiting_def length_remove_nth)
  then show ?thesis using assms(1,2) by (simp only: counted_def) simp
qed

lemma counted_take_timed:
  assumes "counted m" and "\<not> el_halted m" and "el_current m = None" and "i < length (el_timed m)"
  shows "el_queue_size m = word_of_nat (Suc (length (el_queue m) + length (remove_nth i (el_timed m))))"
proof -
  have "waiting m = Suc (length (el_queue m) + length (remove_nth i (el_timed m)))"
    using assms(3,4) by (simp add: waiting_def length_remove_nth)
  then show ?thesis using assms(1,2) by (simp only: counted_def) simp
qed

lemma loop_step_counted:
  assumes "counted m" and "loop_ok m" and "\<not> el_halted m" and "loop_can a m" and "names_fit setname" and "counts a"
  shows "counted (loop_do setname a m)"
proof (cases a)
  case (Invoke i)
  have "loop_ok (m\<lparr>el_queue := remove_nth i (el_queue m)\<rparr>)"
    using assms(2) by (auto simp: loop_ok_def list_all_remove_nth)
  moreover have "handler_ok (el_queue m ! i)"
    using assms Invoke by (auto simp: loop_ok_def list_all_nth_mem)
  ultimately show ?thesis using Invoke assms counted_take [of m i] by (auto intro: begin_handler_counted)
next
  case (Expire i)
  have "loop_ok (m\<lparr>el_timed := remove_nth i (el_timed m)\<rparr>)"
    using assms(2) by (auto simp: loop_ok_def list_all_remove_nth)
  moreover have "handler_ok (el_timed m ! i)"
    using assms Expire by (auto simp: loop_ok_def list_all_nth_mem)
  ultimately show ?thesis using Expire assms counted_take_timed [of m i] by (auto intro: begin_handler_counted)
qed (use assms in \<open>auto simp: loop_op_defs loop_ok_def counted_def waiting_def Let_def loop_throw_def split: option.splits\<close>)

lemma event_loop_new_eq:
  "event_loop_new setname True t = Inr (loop_reset t (set_thread_name ''io_service loop'' (blank_loop True)))"
  by (simp add: event_loop_new_def change_loop_name_def blank_loop_def set_thread_name_def Let_def)

lemma loop_new_ok:
  assumes "event_loop_new setname True t = Inr m"
  shows "loop_ok m \<and> counted m"
  using assms by (auto simp: event_loop_new_eq loop_op_defs blank_loop_def loop_ok_def counted_def waiting_def
      max_thread_name_def substr_def)

lemma loop_run_ok:
  assumes "loop_run setname m as m'" and "loop_ok m" and "names_fit setname"
  shows "loop_ok m' \<and> (counted m \<longrightarrow> list_all counts as \<longrightarrow> counted m')"
  using assms
  by (induction rule: loop_run.induct) (auto intro: loop_step_ok loop_step_counted)

text \<open>C29: queue_size() is right: in every run of a loop with its own thread, whatever is posted,
  renamed, started, stopped and restarted from whatever threads, the counter is the number of
  callbacks that wait in the service, in its timers or are under way, provided no timed call is
  made with a duration below a millisecond.\<close>
theorem queue_size_counts_waiting:
  assumes "event_loop_new setname True t = Inr m" and "names_fit setname"
    and "loop_run setname m as m'" and "list_all counts as" and "\<not> el_halted m'"
  shows "el_queue_size m' = word_of_nat (waiting m')"
proof -
  have "counted m'" using loop_run_ok [OF assms(3) _ assms(2)] loop_new_ok [OF assms(1)] assms(4) by blast
  then show ?thesis using assms(5) by (simp add: counted_def)
qed

definition fits :: "string \<Rightarrow> bool" where
  "fits name \<longleftrightarrow> length name \<le> 15"

definition loop0 :: "nat event_loop" where
  "loop0 = loop_reset 1 (set_thread_name ''io_service loop'' (blank_loop True))"

lemma loop0_new: "event_loop_new fits True 1 = Inr loop0"
  by (simp add: event_loop_new_eq loop0_def)

lemma fits_ok: "names_fit fits"
  by (simp add: names_fit_def fits_def)

lemmas loop_eval = loop_op_defs loop0_def blank_loop_def begin_handler_def invoke_handler_def remove_nth_def
  notified_def protected_notify_def with_lock_def simple_new_def simple_subscribe_def notify_item_def
  goes_to_loop_def max_thread_name_def substr_def waiting_def fits_def loop_throw_def

theorem queue_size_counts_waiting_witness:
  "map_option el_queue_size (loop_exec fits [Start 1 2, Post 7, Post_after 50 8, Begin, Invoke 0, Return, Invoke 0] loop0) = Some 2"
proof -
  let ?as = "[Start 1 2, Post 7, Post_after 50 8, Begin, Invoke 0, Return, Invoke 0]"
  obtain m' where m': "loop_exec fits ?as loop0 = Some m'" and h: "\<not> el_halted m'" and w: "waiting m' = 2"
    by (simp add: loop_eval)
  from queue_size_counts_waiting [OF loop0_new fits_ok loop_exec_run [OF m'] _ h] w
  have "el_queue_size m' = 2" by simp
  then show ?thesis using m' by simp
qed

section \<open>Which thread the loop thinks it is\<close>

lemma loop_do_id:
  assumes "loop_ok m" and "loop_can a m" and "Join \<noteq> a" and "\<forall>t. Stop t \<noteq> a"
  shows "el_id (loop_do setname a m) = el_id m"
  using assms
  by (cases a) (auto simp: loop_op_defs Let_def loop_throw_def begin_handler_def invoke_handler_def loop_ok_def
      split: handler.splits option.splits)

text \<open>
  The id of an event loop with its own thread is that of the thread that constructed it, or
  that stopped it last, and never that of its own thread: inside every callback of the loop
  is_this_loop() is false, so a notification made there for an observer of this very loop is
  posted instead of called; and until the loop is stopped it is true in the constructing thread, where
  such a notification calls the observer outside its loop.\<close>
lemma is_this_loop_is_the_creator:
  assumes "event_loop_new setname True t = Inr m" and "names_fit setname"
    and "loop_run setname m as m'" and "el_runner m' = Some (u, s)"
  shows "\<not> is_this_loop u m' \<and> delivery_of (\<lambda>_. is_this_loop u m') cb (Some l) = Posted l cb \<and>
    (Join \<notin> set as \<and> (\<forall>t. Stop t \<notin> set as) \<longrightarrow>
       is_this_loop t m' \<and> delivery_of (\<lambda>_. is_this_loop t m') cb (Some l) = Called cb)"
proof -
  have ok: "loop_ok m" using loop_new_ok [OF assms(1)] by simp
  have "loop_ok m'" using loop_run_ok [OF assms(3) ok assms(2)] by simp
  then have "\<not> is_this_loop u m'" using assms(4) by (auto simp: loop_ok_def is_this_loop_def)
  moreover have "Join \<notin> set as \<and> (\<forall>t. Stop t \<notin> set as) \<longrightarrow> el_id m' = el_id m"
    using assms(3) ok assms(2)
  proof (induction rule: loop_run.induct)
    case (run_step m as m' a)
    then have "loop_ok m'" using loop_run_ok by blast
    then show ?case using loop_do_id [of m' a setname] run_step by auto
  qed simp
  moreover have "el_id m = t" using assms(1) by (auto simp: event_loop_new_eq loop_op_defs)
  ultimately show ?thesis by (simp add: is_this_loop_def delivery_of_def)
qed

lemma is_this_loop_is_the_creator_witness:
  "\<exists>m. loop_exec fits [Start 1 2, Begin, Invoke 0] loop0 = Some m \<and> el_runner m = Some (2, 1) \<and>
     delivery_of (\<lambda>_. is_this_loop 2 m) ''cb'' (Some 5) = Posted 5 ''cb'' \<and>
     delivery_of (\<lambda>_. is_this_loop 1 m) ''cb'' (Some 5) = Called ''cb''"
proof -
  obtain m where m: "loop_exec fits [Start 1 2, Begin, Invoke 0] loop0 = Some m" and r: "el_runner m = Some (2, 1)"
    by (simp add: loop_eval)
  from is_this_loop_is_the_creator [OF loop0_new fits_ok loop_exec_run [OF m] r, of "''cb''" 5]
  have "delivery_of (\<lambda>_. is_this_loop 2 m) ''cb'' (Some 5) = Posted 5 ''cb''"
    "delivery_of (\<lambda>_. is_this_loop 1 m) ''cb'' (Some 5) = Called ''cb''" by (simp_all add: delivery_of_def)
  with m r show ?thesis by blast
qed

section \<open>Stopping\<close>

text \<open>C30: stop() from another thread always finishes: once no callback is under way, the remaining
  steps of the loop's thread and of the stopper are possible, they notify the observers of the
  stop in the loop's thread if they had not been, and leave the loop as a new one, with nothing
  queued, no thread and no observers.\<close>
theorem loop_stop_finishes:
  assumes "event_loop_new setname True t0 = Inr m" and "names_fit setname"
    and "loop_run setname m as m'" and "\<not> el_halted m'"
    and "el_joining m' = Some t" and "el_current m' = None"
  shows "\<exists>as' m'' u. set as' \<subseteq> {Begin, Exit, Join} \<and> loop_exec setname as' m' = Some m'' \<and>
    el_thread m' = Some u \<and> \<not> el_running m'' \<and> el_thread m'' = None \<and> el_joining m'' = None \<and>
    el_queue m'' = [] \<and> el_timed m'' = [] \<and> el_queue_size m'' = 0 \<and>
    el_start_obs m'' = simple_new \<and> el_stop_obs m'' = simple_new \<and>
    el_log m'' = el_log m' @
      (if el_exited m' then [] else map (Pair u \<circ> Stop_notified) (notified (el_stop_obs m')))"
proof -
  have ok: "loop_ok m'" using loop_run_ok [OF assms(3) _ assms(2)] loop_new_ok [OF assms(1)] by simp
  obtain u where u: "el_thread m' = Some u" "el_stopped m'" "\<not> el_running m'"
    using ok assms(5) by (auto simp: loop_ok_def)
  consider (gone) "el_exited m'" "el_runner m' = None"
    | (new) "\<not> el_exited m'" "el_runner m' = None"
    | (runs) "\<not> el_exited m'" "el_runner m' = Some (u, el_service m')"
    using ok u(1) by (cases "el_runner m'") (auto simp: loop_ok_def)
  then show ?thesis
  proof cases
    case gone
    with u assms ok show ?thesis
      by (intro exI [of _ "[Join]"]) (auto simp: loop_op_defs loop_ok_def)
  next
    case new
    with u assms ok show ?thesis
      by (intro exI [of _ "[Begin, Exit, Join]"]) (auto simp: loop_op_defs loop_ok_def)
  next
    case runs
    with u assms ok show ?thesis
      by (intro exI [of _ "[Exit, Join]"]) (auto simp: loop_op_defs loop_ok_def)
  qed
qed

theorem loop_stop_finishes_witness:
  "\<exists>m as' m''. loop_exec fits [On_stop 4, Start 1 2, Begin, Stop 1] loop0 = Some m \<and>
     loop_exec fits as' m = Some m'' \<and> el_log m'' = [(2, Stop_notified 4)] \<and> el_thread m'' = None"
proof -
  obtain m where m: "loop_exec fits [On_stop 4, Start 1 2, Begin, Stop 1] loop0 = Some m"
    and f: "\<not> el_halted m" "el_joining m = Some 1" "el_current m = None" "\<not> el_exited m" "el_log m = []"
      "notified (el_stop_obs m) = [4]" "el_thread m = Some 2"
    by (simp add: loop_eval)
  from loop_stop_finishes [OF loop0_new fits_ok loop_exec_run [OF m] f(1-3)] f(4-7) m
  show ?thesis by auto
qed

text \<open>
  A loop without a thread (the main loop) that is stopped from one of its own callbacks: stop()
  has reset the loop before run() returns, so the subscribers of the stop are never called, and
  the end of that callback takes the new counter from 0 to its largest value.\<close>
lemma stop_inside_own_callback:
  assumes "\<not> el_separate m" and "el_thread m = None" and "el_running m"
    and "el_runner m = Some (t, s)" and "el_current m \<noteq> None" and "el_service m = s"
  defines "m' \<equiv> return_handler (snd (loop_stop t m))"
  shows "fst (loop_stop t m) = None \<and> el_queue_size m' = 2 ^ 64 - 1 \<and> loop_can Exit m' \<and>
    el_log (loop_exit m') = el_log m"
  using assms
  by (auto simp: loop_op_defs notified_def protected_notify_def with_lock_def simple_new_def)

lemma stop_inside_own_callback_witness:
  "\<exists>m. loop_exec fits [On_stop 4, Start 1 2, Invoke 0] (loop_reset 1 (blank_loop False)) = Some m \<and>
     el_queue_size (return_handler (snd (loop_stop 1 m))) = (2 ^ 64 - 1 :: 64 word) \<and>
     el_log (loop_exit (return_handler (snd (loop_stop 1 m)))) = ([] :: (tid \<times> nat loop_event) list)"
proof -
  obtain m where m: "loop_exec fits [On_stop (4 :: nat), Start 1 2, Invoke 0] (loop_reset 1 (blank_loop False)) = Some m"
    and f: "\<not> el_separate m" "el_thread m = None" "el_running m" "el_runner m = Some (1, 1)"
      "el_current m \<noteq> None" "el_service m = 1" "el_log m = []"
    by (simp add: loop_eval)
  from stop_inside_own_callback [OF f(1-6)] f(7) m show ?thesis by auto
qed

section \<open>Timers fire at most once, and not after they are stopped\<close>

fun handler_key :: "'cb handler \<Rightarrow> (nat \<times> int) list" where
  "handler_key (H_timer c i cb) = [(c, i)]"
| "handler_key (H_period c i ms cb) = [(c, i)]"
| "handler_key _ = []"

fun event_key :: "'cb loop_event \<Rightarrow> (nat \<times> int) list" where
  "event_key (Timer_ran c i cb) = [(c, i)]"
| "event_key _ = []"

text \<open>The starts of timers whose closure waits, and those whose callback ran.\<close>

definition armed :: "'cb handler list \<Rightarrow> (nat \<times> int) list" where
  "armed hs = concat (map handler_key hs)"

definition fired :: "'cb event_loop \<Rightarrow> (nat \<times> int) list" where
  "fired m = concat (map (event_key \<circ> snd) (el_log m))"

definition keys_ok :: "nat \<Rightarrow> (nat \<Rightarrow> int) \<Rightarrow> (nat \<times> int) list \<Rightarrow> bool" where
  "keys_ok n ids ks \<longleftrightarrow> distinct ks \<and> (\<forall>(c, i) \<in> set ks. i \<le> ids c \<and> c < n)"

definition timers_ok :: "'cb event_loop \<Rightarrow> bool" where
  "timers_ok m \<longleftrightarrow>
     keys_ok (el_next_cell m) (el_cells m) (armed (el_queue m) @ armed (el_timed m) @ fired m)"

lemma keys_ok_perm:
  assumes "mset ks = mset ks'"
  shows "keys_ok n ids ks = keys_ok n ids ks'"
  unfolding keys_ok_def mset_eq_imp_distinct_iff [OF assms] mset_eq_setD [OF assms] by (rule refl)

lemma keys_ok_sub: "keys_ok n ids (ks @ ks') \<Longrightarrow> keys_ok n ids ks'"
  by (auto simp: keys_ok_def)

lemma keys_okD: "keys_ok n ids ks \<Longrightarrow> (c, i) \<in> set ks \<Longrightarrow> i \<le> ids c \<and> c < n"
  unfolding keys_ok_def by blast

lemma keys_okI:
  "distinct ks \<Longrightarrow> (\<And>c i. (c, i) \<in> set ks \<Longrightarrow> i \<le> ids c \<and> c < n) \<Longrightarrow> keys_ok n ids ks"
  unfolding keys_ok_def by blast

lemma keys_ok_distinct: "keys_ok n ids ks \<Longrightarrow> distinct ks"
  by (simp add: keys_ok_def)

lemma keys_ok_mono:
  assumes "keys_ok n ids ks" and "n \<le> n'" and "\<And>c. c < n \<Longrightarrow> ids c \<le> ids' c"
  shows "keys_ok n' ids' ks"
  using assms(2,3) keys_okD [OF assms(1)] by (intro keys_okI keys_ok_distinct [OF assms(1)]) (meson order_trans less_le_trans)

lemma keys_ok_push:
  assumes "keys_ok n ids ks" and "c < n"
  shows "keys_ok n (ids(c := ids c + 1)) ((c, ids c + 1) # ks)"
proof (rule keys_okI)
  show "distinct ((c, ids c + 1) # ks)"
    using keys_okD [OF assms(1), of c "ids c + 1"] keys_ok_distinct [OF assms(1)] by auto
next
  fix d i
  assume "(d, i) \<in> set ((c, ids c + 1) # ks)"
  then consider "d = c" "i = ids c + 1" | "(d, i) \<in> set ks" by auto
  then show "i \<le> (ids(c := ids c + 1)) d \<and> d < n"
    by cases (use assms(2) keys_okD [OF assms(1), of d i] in auto)
qed

lemma armed_simps [simp]:
  "armed [] = []" "armed (h # hs) = handler_key h @ armed hs" "armed (hs @ hs') = armed hs @ armed hs'"
  by (simp_all add: armed_def)

lemma event_key_other [simp]:
  "concat (map (event_key \<circ> Stop_notified) cbs) = []" "concat (map (event_key \<circ> Start_notified) cbs) = []"
  "concat (map (event_key \<circ> (snd \<circ> Pair t)) evs) = concat (map event_key evs)"
  "concat (map (\<lambda>x. event_key (Stop_notified x)) cbs) = []" "concat (map (\<lambda>x. event_key (Start_notified x)) cbs) = []"
  by (auto simp: comp_def)

lemma fired_log: "fired (log_event t evs m) = fired m @ concat (map event_key evs)"
  by (simp add: fired_def log_event_def comp_def)

lemma armed_split: "i < length hs \<Longrightarrow> \<exists>xs ys. hs = xs @ hs ! i # ys \<and> remove_nth i hs = xs @ ys"
  unfolding remove_nth_def by (metis id_take_nth_drop)

text \<open>
  What every action does to the timers: ids grow, a callback that runs has the current id of its
  timer, and the invariant is kept.
\<close>

definition timers_step :: "'cb event_loop \<Rightarrow> 'cb event_loop \<Rightarrow> bool" where
  "timers_step m m' \<longleftrightarrow>
     timers_ok m' \<and> el_next_cell m \<le> el_next_cell m' \<and>
     (\<forall>c < el_next_cell m. el_cells m c \<le> el_cells m' c) \<and>
     (fired m' = fired m \<or> (\<exists>c. fired m' = fired m @ [(c, el_cells m c)]))"

text \<open>A handler leaves its place: the invariant, with the key of the handler set apart.\<close>

definition timers_taken :: "'cb handler \<Rightarrow> 'cb event_loop \<Rightarrow> bool" where
  "timers_taken h m \<longleftrightarrow>
     keys_ok (el_next_cell m) (el_cells m) (handler_key h @ armed (el_queue m) @ armed (el_timed m) @ fired m)"

lemma armed_take:
  assumes "i < length hs"
  shows "mset (armed hs) = mset (handler_key (hs ! i) @ armed (remove_nth i hs))"
proof -
  obtain xs ys where "hs = xs @ hs ! i # ys" and r: "remove_nth i hs = xs @ ys"
    using armed_split assms by blast
  then have "armed hs = armed xs @ handler_key (hs ! i) @ armed ys"
    by (metis armed_simps(2,3))
  then show ?thesis using r by simp
qed

lemma timers_take:
  assumes "timers_ok m"
  shows "i < length (el_queue m) \<Longrightarrow> timers_taken (el_queue m ! i) (m\<lparr>el_queue := remove_nth i (el_queue m)\<rparr>)"
    and "i < length (el_timed m) \<Longrightarrow> timers_taken (el_timed m ! i) (m\<lparr>el_timed := remove_nth i (el_timed m)\<rparr>)"
  using assms unfolding timers_ok_def timers_taken_def
  by (simp_all add: fired_def) (erule iffD1 [OF keys_ok_perm, rotated]; simp add: armed_take)+

lemma timers_step_same:
  assumes "timers_taken h m" and "el_queue m' = el_queue m" and "el_timed m' = el_timed m"
    and "el_cells m' = el_cells m" and "el_next_cell m' = el_next_cell m" and "fired m' = fired m"
  shows "timers_step m m'"
  using assms keys_ok_sub unfolding timers_step_def timers_ok_def timers_taken_def by fastforce

lemma timers_step_fire:
  assumes "timers_taken h m" and "handler_key h = [(c, el_cells m c)]"
    and "el_queue m' = el_queue m" and "el_timed m' = el_timed m"
    and "el_cells m' = el_cells m" and "el_next_cell m' = el_next_cell m"
    and "fired m' = fired m @ [(c, el_cells m c)]"
  shows "timers_step m m'"
proof -
  have "keys_ok (el_next_cell m) (el_cells m) (armed (el_queue m) @ armed (el_timed m) @ fired m @ [(c, el_cells m c)])"
    using assms(1,2) unfolding timers_taken_def by (elim iffD1 [OF keys_ok_perm, rotated]) simp
  then show ?thesis using assms unfolding timers_step_def timers_ok_def by auto
qed

lemma timers_step_arm:
  assumes "timers_ok m" and "c < el_next_cell m"
    and "mset (armed (el_queue m') @ armed (el_timed m')) =
      mset ((c, el_cells m c + 1) # armed (el_queue m) @ armed (el_timed m))"
    and "el_cells m' = (el_cells m)(c := el_cells m c + 1)" and "el_next_cell m' = el_next_cell m"
    and "fired m' = fired m"
  shows "timers_step m m'"
proof -
  have "keys_ok (el_next_cell m') (el_cells m') ((c, el_cells m c + 1) # armed (el_queue m) @ armed (el_timed m) @ fired m)"
    using assms keys_ok_push unfolding timers_ok_def by metis
  then have "keys_ok (el_next_cell m') (el_cells m') (armed (el_queue m') @ armed (el_timed m') @ fired m')"
    using assms(3,6) by (elim iffD1 [OF keys_ok_perm, rotated]) simp
  then show ?thesis using assms unfolding timers_step_def timers_ok_def by auto
qed

lemma timers_step_drop:
  assumes "timers_ok m" and "keys_ok (el_next_cell m') (el_cells m') (armed (el_queue m') @ armed (el_timed m') @ fired m')"
    and "el_next_cell m \<le> el_next_cell m'" and "\<And>c. c < el_next_cell m \<Longrightarrow> el_cells m c \<le> el_cells m' c"
    and "fired m' = fired m"
  shows "timers_step m m'"
  using assms unfolding timers_step_def timers_ok_def by auto

lemma timers_step_refire:
  assumes "timers_taken h m" and "handler_key h = [(c, el_cells m c)]"
    and "el_queue m' = el_queue m" and "armed (el_timed m') = armed (el_timed m) @ [(c, el_cells m c + 1)]"
    and "el_cells m' = (el_cells m)(c := el_cells m c + 1)" and "el_next_cell m' = el_next_cell m"
    and "fired m' = fired m @ [(c, el_cells m c)]"
  shows "timers_step m m'"
proof -
  let ?ks = "(c, el_cells m c) # armed (el_queue m) @ armed (el_timed m) @ fired m"
  have ks: "keys_ok (el_next_cell m) (el_cells m) ?ks"
    using assms(1,2) by (simp add: timers_taken_def)
  then have "c < el_next_cell m" using keys_okD by fastforce
  then have "keys_ok (el_next_cell m') (el_cells m') ((c, el_cells m c + 1) # ?ks)"
    using keys_ok_push [OF ks] assms(5,6) by simp
  then have "keys_ok (el_next_cell m') (el_cells m') (armed (el_queue m') @ armed (el_timed m') @ fired m')"
    using assms(3,4,7) by (elim iffD1 [OF keys_ok_perm, rotated]) simp
  then show ?thesis using assms unfolding timers_step_def timers_ok_def by auto
qed

lemma fired_cong [simp]:
  "fired (el_queue_update f m) = fired m" "fired (el_timed_update g m) = fired m"
  "fired (el_current_update k m) = fired m" "fired (el_halted_update l m) = fired m"
  "fired (el_is_run_update l m) = fired m" "fired (el_cells_update n m) = fired m"
  "fired (el_queue_size_update q m) = fired m"
  by (simp_all add: fired_def)

lemma log_event_fields [simp]:
  "el_queue (log_event t evs m) = el_queue m" "el_timed (log_event t evs m) = el_timed m"
  "el_cells (log_event t evs m) = el_cells m" "el_next_cell (log_event t evs m) = el_next_cell m"
  by (simp_all add: log_event_def)

lemma begin_handler_timers:
  assumes "timers_taken h m" and "handler_ok h" and "el_separate m" and "\<not> el_halted m"
  shows "timers_step m (begin_handler setname h m)"
proof (cases h)
  case (H_timer c i cb)
  show ?thesis
  proof (cases "el_cells m c = i")
    case True
    then show ?thesis using H_timer assms(1)
      by (intro timers_step_fire [of h m c]) (simp_all add: begin_handler_def invoke_handler_def fired_log)
  next
    case False
    then show ?thesis using H_timer assms(1)
      by (intro timers_step_same [of h]) (simp_all add: begin_handler_def invoke_handler_def)
  qed
next
  case (H_period c i ms cb)
  show ?thesis
  proof (cases "el_cells m c = i")
    case True
    have ms: "0 < ms" using assms(2) H_period by simp
    show ?thesis
    proof (cases "el_cells m c < 2 ^ 31 - 1")
      case True
      with ms assms(4) \<open>el_cells m c = i\<close> H_period assms(1) show ?thesis
        by (intro timers_step_refire [of h m c])
          (simp_all add: begin_handler_def invoke_handler_def period_start_def next_id_def post_after_def
            register_queue_def fired_log Let_def)
    next
      case False
      with \<open>el_cells m c = i\<close> H_period ms assms(1) show ?thesis
        by (auto simp: begin_handler_def invoke_handler_def period_start_def next_id_def fired_log Let_def
          intro!: timers_step_fire [of h m c])
    qed
  next
    case False
    then show ?thesis using H_period assms(1)
      by (intro timers_step_same [of h]) (simp_all add: begin_handler_def invoke_handler_def)
  qed
qed (use assms in \<open>auto intro!: timers_step_same [of h] simp: begin_handler_def invoke_handler_def notify_start_def
    apply_thread_name_def fired_log loop_throw_def comp_def\<close>)

lemma timers_ok_sub_queue:
  assumes "timers_ok m" and "armed (el_queue m') = []" and "armed (el_timed m') = []"
    and "el_cells m' = el_cells m" and "el_next_cell m' = el_next_cell m" and "fired m' = fired m"
  shows "timers_step m m'"
  using assms keys_ok_sub [of _ _ "armed (el_queue m) @ armed (el_timed m)" "fired m"]
  unfolding timers_step_def timers_ok_def by auto

lemma timers_step_quiet:
  assumes "timers_ok m" and "armed (el_queue m') = armed (el_queue m)" and "armed (el_timed m') = armed (el_timed m)"
    and "el_cells m' = el_cells m" and "el_next_cell m' = el_next_cell m" and "fired m' = fired m"
  shows "timers_step m m'"
  using assms unfolding timers_step_def timers_ok_def by auto

lemma next_id_timers:
  assumes "timers_ok m" shows "timers_step m (next_id c m)"
proof (cases "el_cells m c < 2 ^ 31 - 1")
  case True
  then show ?thesis
    using assms unfolding timers_step_def timers_ok_def next_id_def
    by (auto elim: keys_ok_mono simp: fired_def)
next
  case False
  then show ?thesis using assms by (intro timers_step_quiet) (simp_all add: next_id_def)
qed

lemma start_timers:
  assumes "timers_ok m" and "c < el_next_cell m" and "\<not> el_halted m"
    and "\<And>i. handler_key (h i) = [(c, i)]"
  shows "timers_step m (snd (let m' = next_id c m in if el_halted m' then (None, m') else post_after ms (h (el_cells m' c)) m'))"
proof (cases "el_cells m c < 2 ^ 31 - 1")
  case True
  show ?thesis
  proof (cases "0 < ms")
    case ms: True
    with True assms show ?thesis
      by (intro timers_step_arm [of m c]) (simp_all add: next_id_def post_after_def register_queue_def Let_def)
  next
    case ms: False
    have "timers_step m (next_id c m)" using assms(1) by (rule next_id_timers)
    with True ms assms(3) show ?thesis
      by (simp add: next_id_def post_after_def register_queue_def Let_def timers_step_def timers_ok_def)
  qed
next
  case False
  with assms next_id_timers [of m c] show ?thesis by (simp add: next_id_def)
qed

lemma timer_new_timers:
  assumes "timers_ok m" shows "timers_step m (snd (timer_new m))"
proof -
  have "keys_ok (Suc (el_next_cell m)) ((el_cells m)(el_next_cell m := 0))
      (armed (el_queue m) @ armed (el_timed m) @ fired m)"
    using assms unfolding timers_ok_def by (rule keys_ok_mono) auto
  then show ?thesis unfolding timers_step_def timers_ok_def timer_new_def by (simp add: fired_def)
qed

lemma timers_stepD:
  assumes "timers_step m m'"
  shows "timers_ok m'" and "el_next_cell m \<le> el_next_cell m'"
    and "\<And>c. c < el_next_cell m \<Longrightarrow> el_cells m c \<le> el_cells m' c"
    and "fired m' = fired m \<or> (\<exists>c. fired m' = fired m @ [(c, el_cells m c)])"
  using assms by (simp_all add: timers_step_def)

lemma timers_step_trans_quiet:
  assumes "timers_step m m'" and "fired m' = fired m" and "timers_step m' m''" and "fired m'' = fired m'"
  shows "timers_step m m''"
proof -
  have "el_cells m c \<le> el_cells m'' c" if "c < el_next_cell m" for c
    using that timers_stepD(2,3) [OF assms(1)] timers_stepD(3) [OF assms(3)]
    by (meson less_le_trans order_trans)
  moreover have "el_next_cell m \<le> el_next_cell m''"
    using timers_stepD(2) [OF assms(1)] timers_stepD(2) [OF assms(3)] by simp
  ultimately show ?thesis using timers_stepD(1) [OF assms(3)] assms(2,4) by (simp add: timers_step_def)
qed

lemma repeat_timers:
  assumes "timers_ok m" and "\<not> el_halted m"
  shows "timers_step m (snd (loop_repeat ms cb m))"
proof (cases "0 < ms")
  case True
  let ?m1 = "snd (timer_new m)"
  have 1: "timers_step m ?m1" using assms(1) by (rule timer_new_timers)
  have f: "fired ?m1 = fired m" by (simp add: timer_new_def fired_def)
  have "timers_step ?m1 (snd (period_start (el_next_cell m) ms cb ?m1))"
    unfolding period_start_def
    using timers_stepD(1) [OF 1] assms(2) by (intro start_timers) (simp_all add: timer_new_def)
  moreover have "fired (snd (period_start (el_next_cell m) ms cb ?m1)) = fired ?m1"
    by (simp add: period_start_def next_id_def post_after_def register_queue_def Let_def)
  ultimately show ?thesis
    using timers_step_trans_quiet [OF 1 f] True by (simp add: loop_repeat_def timer_new_def)
next
  case False
  then show ?thesis using assms(1) by (intro timers_step_quiet) (simp_all add: loop_repeat_def)
qed

lemma fired_log_quiet:
  "concat (map event_key evs) = [] \<Longrightarrow> fired (log_event t evs m) = fired m"
  by (simp add: fired_log)

lemma loop_step_timers:
  assumes "timers_ok m" and "loop_ok m" and "\<not> el_halted m" and "loop_can a m"
  shows "timers_step m (loop_do setname a m)"
proof (cases a)
  case (Invoke i)
  let ?m1 = "m\<lparr>el_queue := remove_nth i (el_queue m)\<rparr>"
  have "timers_step ?m1 (begin_handler setname (el_queue m ! i) ?m1)"
    using assms Invoke timers_take(1) [OF assms(1)]
    by (intro begin_handler_timers) (auto simp: loop_ok_def list_all_nth_mem)
  then show ?thesis using Invoke by (simp add: timers_step_def)
next
  case (Expire i)
  let ?m1 = "m\<lparr>el_timed := remove_nth i (el_timed m)\<rparr>"
  have "timers_step ?m1 (begin_handler setname (el_timed m ! i) ?m1)"
    using assms Expire timers_take(2) [OF assms(1)]
    by (intro begin_handler_timers) (auto simp: loop_ok_def list_all_nth_mem)
  then show ?thesis using Expire by (simp add: timers_step_def)
next
  case (Timer_start c ms cb)
  then show ?thesis using assms by (auto simp: timer_start_def intro!: start_timers)
next
  case (Period_start c ms cb)
  then show ?thesis using assms by (auto simp: period_start_def intro!: start_timers)
next
  case (Timer_stop c)
  then show ?thesis using assms by (simp add: timer_stop_def next_id_timers)
next
  case New_timer
  then show ?thesis using assms by (simp add: timer_new_timers)
next
  case (Repeat ms cb)
  then show ?thesis using assms by (simp add: repeat_timers)
next
  case Join
  then show ?thesis using assms
    by (intro timers_ok_sub_queue) (simp_all add: loop_join_def loop_reset_def base_reset_def fired_def)
next
  case (Stop t)
  show ?thesis
  proof (cases "el_running m \<and> el_thread m = None")
    case True
    then show ?thesis using assms Stop
      by (intro timers_ok_sub_queue) (simp_all add: loop_stop_def stop_loop_def loop_reset_def base_reset_def fired_def)
  next
    case False
    then show ?thesis using assms Stop
      by (intro timers_step_quiet) (auto simp: loop_stop_def stop_loop_def fired_def Let_def split: option.splits)
  qed
qed (use assms in \<open>auto intro!: timers_step_quiet simp: post_handler_def register_queue_def post_after_def
    change_loop_name_def set_thread_name_def apply_thread_name_def on_start_loop_def on_stop_loop_def
    loop_start_def start_loop_def loop_begin_def return_handler_def loop_throw_def loop_exit_def notify_stop_def
    loop_ok_def log_event_def comp_def fired_def Let_def split: option.splits\<close>)

lemma loop_run_timers:
  assumes "loop_run setname m as m'" and "loop_ok m" and "timers_ok m" and "names_fit setname"
  shows "timers_ok m' \<and> el_next_cell m \<le> el_next_cell m' \<and> (\<forall>c < el_next_cell m. el_cells m c \<le> el_cells m' c) \<and>
    (\<exists>ks. fired m' = fired m @ ks \<and> (\<forall>(c, i) \<in> set ks. c < el_next_cell m \<longrightarrow> el_cells m c \<le> i))"
  using assms
proof (induction rule: loop_run.induct)
  case (run_step m as m' a)
  then obtain ks where ih: "timers_ok m'" "el_next_cell m \<le> el_next_cell m'"
      "\<forall>c < el_next_cell m. el_cells m c \<le> el_cells m' c" "fired m' = fired m @ ks"
      "\<forall>(c, i) \<in> set ks. c < el_next_cell m \<longrightarrow> el_cells m c \<le> i" by blast
  have "loop_ok m'" using run_step loop_run_ok by blast
  then have st: "timers_step m' (loop_do setname a m')" using ih run_step by (intro loop_step_timers)
  have le: "el_cells m c \<le> el_cells (loop_do setname a m') c" if "c < el_next_cell m" for c
    using that ih(2,3) timers_stepD(3) [OF st, of c] by (meson less_le_trans order_trans)
  from timers_stepD(4) [OF st]
  have "\<exists>ks'. fired (loop_do setname a m') = fired m @ ks' \<and> (\<forall>(c, i) \<in> set ks'. c < el_next_cell m \<longrightarrow> el_cells m c \<le> i)"
  proof
    assume "fired (loop_do setname a m') = fired m'"
    with ih(4,5) show ?thesis by auto
  next
    assume "\<exists>c. fired (loop_do setname a m') = fired m' @ [(c, el_cells m' c)]"
    then obtain c where "fired (loop_do setname a m') = fired m @ (ks @ [(c, el_cells m' c)])"
      using ih(4) by auto
    moreover have "\<forall>(d, i) \<in> set (ks @ [(c, el_cells m' c)]). d < el_next_cell m \<longrightarrow> el_cells m d \<le> i"
      using ih(3,5) by auto
    ultimately show ?thesis by blast
  qed
  then show ?case using le timers_stepD(1,2) [OF st] ih(2) by auto
qed auto

lemma loop_new_timers: "event_loop_new setname True t = Inr m \<Longrightarrow> timers_ok m"
  by (auto simp: event_loop_new_eq loop_op_defs blank_loop_def timers_ok_def keys_ok_def fired_def)



end
