(* ===== verification/Main_Loop.thy ===== *)
theory Main_Loop
  imports Event_Loop
begin

text \<open>
  Two users of the event loop: the main loop of an application (src/main_loop.cpp), which has no
  thread of its own and runs in the main thread of the process, and the timers with a loop of
  their own (include/server_lib/solo_timers.h).
\<close>

section \<open>The main loop\<close>

text \<open>\<open>main\<close> is the main thread; \<open>quit\<close> the callback that calls \<open>stop()\<close> again in the loop.\<close>

definition main_loop_new :: "(string \<Rightarrow> bool) \<Rightarrow> tid \<Rightarrow> tid \<Rightarrow> string \<Rightarrow> 'cb event_loop result" where
  "main_loop_new setname main t name =
     rbind (event_loop_new setname False t) (\<lambda>m.
       srv_assert (t = main) ''Invalid MAIN loop creation''
         (if name = [] then Inr m
          else (case change_loop_name setname t name m of (Some e, _) \<Rightarrow> Inl e | (None, m') \<Rightarrow> Inr m')))"

definition main_loop_start :: "tid \<Rightarrow> tid \<Rightarrow> tid \<Rightarrow> 'cb event_loop \<Rightarrow> srv_error option \<times> 'cb event_loop" where
  "main_loop_start main t u m =
     (if t = main then (None, loop_start t u m) else (Some (Logic_error ''Only for MAIN thread allowed''), m))"

definition main_loop_stop :: "'cb \<Rightarrow> tid \<Rightarrow> tid \<Rightarrow> 'cb event_loop \<Rightarrow> srv_error option \<times> 'cb event_loop" where
  "main_loop_stop quit main t m =
     (if t = main then loop_stop t m else (None, post_handler (H_call quit) m))"

section \<open>Timers with a loop of their own\<close>

text \<open>\<open>arm\<close> is the callback that starts the timer proper when the loop has started.\<close>

definition solo_timer_new :: "(string \<Rightarrow> bool) \<Rightarrow> tid \<Rightarrow> string \<Rightarrow> 'cb event_loop result" where
  "solo_timer_new setname t dedicated_th_name =
     rbind (event_loop_new setname True t) (\<lambda>m.
       case change_loop_name setname t dedicated_th_name (snd (timer_new m)) of
         (Some e, _) \<Rightarrow> Inl e | (None, m') \<Rightarrow> Inr m')"

definition solo_timer_start :: "tid \<Rightarrow> tid \<Rightarrow> 'cb \<Rightarrow> 'cb event_loop \<Rightarrow> 'cb event_loop" where
  "solo_timer_start t u arm m = loop_start t u (on_start_loop arm m)"

definition solo_timer_stop :: "tid \<Rightarrow> 'cb event_loop \<Rightarrow> srv_error option \<times> 'cb event_loop" where
  "solo_timer_stop t m = loop_stop t m"

text \<open>
  The main loop stopped from another thread: what the main thread does with the posted callback.
\<close>

definition quit_from_thread :: "(string \<Rightarrow> bool) \<Rightarrow> 'cb \<Rightarrow> tid \<Rightarrow> 'cb event_loop \<Rightarrow> 'cb event_loop" where
  "quit_from_thread setname quit main m =
     (let m1 = begin_handler setname (H_call quit) m;
          m2 = snd (main_loop_stop quit main main m1)
      in loop_exit (return_handler m2))"

lemma notified_new [simp]: "notified simple_new = []"
  by (simp add: notified_def protected_notify_def with_lock_def simple_new_def)

text \<open>
  However the main loop is stopped while it runs, by its main thread in a callback or by another
  thread, whose call is only posted, it ends with the same state: not running, with a new
  service, its counter at 2^64 - 1, and the subscribers of its stop not called.\<close>
lemma main_loop_stop_from_thread:
  fixes m :: "'cb event_loop" and quit :: 'cb and setname :: "string \<Rightarrow> bool"
  assumes "\<not> el_separate m" and "el_thread m = None" and "el_running m" and "\<not> el_halted m"
    and "el_runner m = Some (main, el_service m)" and "el_current m = None" and "t \<noteq> main"
  defines "posted \<equiv> snd (main_loop_stop quit main t m)"
  defines "m' \<equiv> quit_from_thread setname quit main (posted\<lparr>el_queue := el_queue m\<rparr>)"
  shows "fst (main_loop_stop quit main t m) = None \<and> el_queue posted = el_queue m @ [H_call quit] \<and>
    el_running posted \<and> \<not> el_running m' \<and> el_service m' = Suc (el_service m) \<and>
    el_queue_size m' = 2 ^ 64 - 1 \<and> el_log m' = el_log m @ [(main, Ran quit)]"
  using assms(1-7)
  by (simp add: posted_def m'_def main_loop_stop_def quit_from_thread_def begin_handler_def invoke_handler_def
      post_handler_def register_queue_def loop_stop_def stop_loop_def loop_reset_def base_reset_def
      return_handler_def loop_exit_def notify_stop_def log_event_def Let_def)

end
