(* ===== verification/Event_Pool.thy ===== *)
theory Event_Pool
  imports Event_Loop
begin

text \<open>
  The event pool (src/event_pool.cpp): several threads inside \<open>run\<close> of one service. Its start is
  announced by a handler that waits, on a counter, for all threads to have registered. The threads,
  the starter and the handler interleave freely; of \<open>boost::asio\<close> it is assumed that it invokes a
  handler once, in some thread that is inside \<open>run\<close>, and none after it was stopped. Calls to
  \<open>start\<close> and \<open>stop\<close> do not overlap.
\<close>

section \<open>State\<close>

text \<open>A thread: not created, created, with its id registered, inside \<open>run\<close>, and returned from it.\<close>

datatype pool_pc = T_none | T_new | T_registered | T_running | T_exited

text \<open>The handler of \<open>start\<close>: not posted, queued, in its loop in a thread, and finished.\<close>

datatype latch = L_none | L_queued | L_spin tid | L_done

record 'cb event_pool =
  pl_nb :: nat
  pl_name :: string
  pl_running :: bool
  pl_stopped :: bool
  pl_is_run :: bool
  pl_waiting :: nat
  pl_ids :: "tid list"
  pl_threads :: "tid list"
  pl_to_create :: nat
  pl_stopping :: bool
  pl_queue_size :: "64 word"
  pl_queue :: "'cb list"
  pl_pc :: "tid \<Rightarrow> pool_pc"
  pl_current :: "tid \<Rightarrow> 'cb option"
  pl_latch :: latch
  pl_start_obs :: "'cb simple_observable"
  pl_stop_obs :: "'cb simple_observable"
  pl_log :: "(tid \<times> 'cb loop_event) list"

definition pool_set_name :: "string \<Rightarrow> 'cb event_pool \<Rightarrow> 'cb event_pool" where
  "pool_set_name name p =
     p\<lparr>pl_name := (if length name > max_thread_name then substr name 0 max_thread_name else name)\<rparr>"

text \<open>\<open>change_pool_name\<close> stores the name before it checks that the pool does not run.\<close>

definition change_pool_name :: "string \<Rightarrow> 'cb event_pool \<Rightarrow> srv_error option \<times> 'cb event_pool" where
  "change_pool_name name p =
     (let p' = pool_set_name name p
      in if \<not> pl_running p' then (None, p')
         else (Some (Logic_error ''Not implemented for already runned''), p'))"

definition pool_reset :: "'cb event_pool \<Rightarrow> 'cb event_pool" where
  "pool_reset p = p\<lparr>pl_running := False, pl_stopped := False, pl_start_obs := simple_new, pl_stop_obs := simple_new,
     pl_queue_size := 0, pl_queue := [], pl_latch := L_none, pl_is_run := False, pl_waiting := 0\<rparr>"

definition event_pool_new :: "nat \<Rightarrow> 'cb event_pool result" where
  "event_pool_new nb =
     srv_assert (nb mod 256 > 0) ''Threads are required''
       (Inr (pool_reset (snd (change_pool_name ''io_service pool''
          \<lparr>pl_nb = nb mod 256, pl_name = ''io_service'', pl_running = False, pl_stopped = False, pl_is_run = False,
           pl_waiting = 0, pl_ids = [], pl_threads = [], pl_to_create = 0, pl_stopping = False, pl_queue_size = 0,
           pl_queue = [], pl_pc = (\<lambda>_. T_none), pl_current = (\<lambda>_. None), pl_latch = L_none,
           pl_start_obs = simple_new, pl_stop_obs = simple_new, pl_log = []\<rparr>))))"

definition pool_is_this_loop :: "tid \<Rightarrow> 'cb event_pool \<Rightarrow> bool" where
  "pool_is_this_loop t p \<longleftrightarrow> t \<in> set (pl_ids p)"

section \<open>Operations\<close>

definition pool_on_start :: "'cb \<Rightarrow> 'cb event_pool \<Rightarrow> 'cb event_pool" where
  "pool_on_start cb p = p\<lparr>pl_start_obs := snd (snd (simple_subscribe cb None (pl_start_obs p)))\<rparr>"

definition pool_on_stop :: "'cb \<Rightarrow> 'cb event_pool \<Rightarrow> 'cb event_pool" where
  "pool_on_stop cb p = p\<lparr>pl_stop_obs := snd (snd (simple_subscribe cb None (pl_stop_obs p)))\<rparr>"

definition pool_post :: "'cb \<Rightarrow> 'cb event_pool \<Rightarrow> 'cb event_pool" where
  "pool_post cb p = p\<lparr>pl_queue_size := pl_queue_size p + 1, pl_queue := pl_queue p @ [cb]\<rparr>"

text \<open>\<open>start\<close> up to its loop, and one round of that loop with the new thread \<open>u\<close>.\<close>

definition pool_start :: "'cb event_pool \<Rightarrow> 'cb event_pool" where
  "pool_start p =
     (if pl_running p then p
      else p\<lparr>pl_running := True, pl_waiting := pl_nb p, pl_latch := L_queued, pl_to_create := pl_nb p\<rparr>)"

definition pool_create :: "tid \<Rightarrow> 'cb event_pool \<Rightarrow> 'cb event_pool" where
  "pool_create u p = p\<lparr>pl_threads := pl_threads p @ [u], pl_to_create := pl_to_create p - 1, pl_pc := (pl_pc p)(u := T_new)\<rparr>"

definition pool_register :: "tid \<Rightarrow> 'cb event_pool \<Rightarrow> 'cb event_pool" where
  "pool_register u p = p\<lparr>pl_ids := pl_ids p @ [u], pl_pc := (pl_pc p)(u := T_registered)\<rparr>"

definition pool_count :: "tid \<Rightarrow> 'cb event_pool \<Rightarrow> 'cb event_pool" where
  "pool_count u p = p\<lparr>pl_waiting := pl_waiting p - 1, pl_pc := (pl_pc p)(u := T_running)\<rparr>"

definition pool_notify_start :: "tid \<Rightarrow> 'cb event_pool \<Rightarrow> 'cb event_pool" where
  "pool_notify_start u p =
     p\<lparr>pl_is_run := True, pl_latch := L_done,
       pl_log := pl_log p @ map (Pair u \<circ> Start_notified) (notified (pl_start_obs p))\<rparr>"

definition pool_exit :: "tid \<Rightarrow> 'cb event_pool \<Rightarrow> 'cb event_pool" where
  "pool_exit u p =
     p\<lparr>pl_pc := (pl_pc p)(u := T_exited),
       pl_log := pl_log p @ map (Pair u \<circ> Stop_notified) (notified (pl_stop_obs p))\<rparr>"

text \<open>\<open>stop\<close> up to the joins, and after the last of them.\<close>

definition pool_stop :: "'cb event_pool \<Rightarrow> 'cb event_pool" where
  "pool_stop p = (if \<not> pl_running p then p else p\<lparr>pl_running := False, pl_stopped := True, pl_stopping := True\<rparr>)"

definition pool_joined :: "'cb event_pool \<Rightarrow> 'cb event_pool" where
  "pool_joined p = pool_reset (p\<lparr>pl_ids := [], pl_threads := [], pl_stopping := False\<rparr>)"

text \<open>
  One step. The exchange of the handler finds the counter at another value than zero and tries
  again; finds zero and succeeds; or finds zero and fails all the same, as a weak exchange may,
  and then the handler returns.
\<close>

inductive pool_step :: "'cb event_pool \<Rightarrow> 'cb event_pool \<Rightarrow> bool" where
  p_start: "\<not> pl_stopping p \<Longrightarrow> pl_to_create p = 0 \<Longrightarrow> pool_step p (pool_start p)"
| p_create: "0 < pl_to_create p \<Longrightarrow> pl_pc p u = T_none \<Longrightarrow> pool_step p (pool_create u p)"
| p_register: "pl_pc p u = T_new \<Longrightarrow> pool_step p (pool_register u p)"
| p_count: "pl_pc p u = T_registered \<Longrightarrow> pool_step p (pool_count u p)"
| p_latch: "pl_latch p = L_queued \<Longrightarrow> pl_pc p u = T_running \<Longrightarrow> pl_current p u = None \<Longrightarrow> \<not> pl_stopped p \<Longrightarrow>
    pool_step p (p\<lparr>pl_latch := L_spin u\<rparr>)"
| p_spin: "pl_latch p = L_spin u \<Longrightarrow> pl_waiting p \<noteq> 0 \<Longrightarrow> pool_step p p"
| p_spurious: "pl_latch p = L_spin u \<Longrightarrow> pl_waiting p = 0 \<Longrightarrow> pool_step p (p\<lparr>pl_latch := L_done\<rparr>)"
| p_notify: "pl_latch p = L_spin u \<Longrightarrow> pl_waiting p = 0 \<Longrightarrow> pool_step p (pool_notify_start u p)"
| p_post: "pool_step p (pool_post cb p)"
| p_invoke: "i < length (pl_queue p) \<Longrightarrow> pl_pc p u = T_running \<Longrightarrow> pl_current p u = None \<Longrightarrow>
    pl_latch p \<noteq> L_spin u \<Longrightarrow> \<not> pl_stopped p \<Longrightarrow>
    pool_step p (p\<lparr>pl_queue := remove_nth i (pl_queue p), pl_current := (pl_current p)(u := Some (pl_queue p ! i)),
      pl_log := pl_log p @ [(u, Ran (pl_queue p ! i))]\<rparr>)"
| p_return: "pl_current p u \<noteq> None \<Longrightarrow>
    pool_step p (p\<lparr>pl_queue_size := pl_queue_size p - 1, pl_current := (pl_current p)(u := None)\<rparr>)"
| p_on_start: "pool_step p (pool_on_start cb p)"
| p_on_stop: "pool_step p (pool_on_stop cb p)"
| p_stop: "pl_to_create p = 0 \<Longrightarrow> pool_step p (pool_stop p)"
| p_exit: "pl_pc p u = T_running \<Longrightarrow> pl_current p u = None \<Longrightarrow> pl_latch p \<noteq> L_spin u \<Longrightarrow> pl_stopped p \<Longrightarrow>
    pool_step p (pool_exit u p)"
| p_joined: "pl_stopping p \<Longrightarrow> \<forall>u \<in> set (pl_threads p). pl_pc p u = T_exited \<Longrightarrow> pool_step p (pool_joined p)"

inductive pool_steps :: "'cb event_pool \<Rightarrow> 'cb event_pool \<Rightarrow> bool" where
  pool_refl: "pool_steps p p"
| pool_more: "pool_steps p p' \<Longrightarrow> pool_step p' p'' \<Longrightarrow> pool_steps p p''"

section \<open>The start is announced when every thread is there\<close>

text \<open>How many of the pool's threads have not yet counted down.\<close>

definition uncounted :: "'cb event_pool \<Rightarrow> tid list" where
  "uncounted p = filter (\<lambda>u. pl_pc p u = T_new \<or> pl_pc p u = T_registered) (pl_threads p)"

definition pool_threads_ok :: "'cb event_pool \<Rightarrow> bool" where
  "pool_threads_ok p \<longleftrightarrow>
     distinct (pl_threads p) \<and> set (pl_ids p) \<subseteq> set (pl_threads p) \<and>
     (\<forall>u. pl_pc p u \<in> {T_new, T_registered, T_running} \<longrightarrow> u \<in> set (pl_threads p)) \<and>
     (\<forall>u \<in> set (pl_threads p). pl_pc p u \<noteq> T_none \<and> (pl_pc p u \<noteq> T_new \<longleftrightarrow> u \<in> set (pl_ids p)))"

definition pool_count_ok :: "'cb event_pool \<Rightarrow> bool" where
  "pool_count_ok p \<longleftrightarrow> pl_waiting p = pl_to_create p + length (uncounted p)"

definition pool_phase_ok :: "'cb event_pool \<Rightarrow> bool" where
  "pool_phase_ok p \<longleftrightarrow>
     (pl_running p \<or> pl_stopping p \<longrightarrow> length (pl_threads p) + pl_to_create p = pl_nb p) \<and>
     (\<not> (pl_running p \<or> pl_stopping p) \<longrightarrow> pl_threads p = [] \<and> pl_to_create p = 0) \<and>
     (pl_stopping p \<longrightarrow> \<not> pl_running p \<and> pl_to_create p = 0) \<and>
     (\<forall>u. pl_latch p = L_spin u \<longrightarrow> pl_pc p u = T_running) \<and>
     (pl_latch p \<noteq> L_none \<longrightarrow> pl_running p \<or> pl_stopping p) \<and>
     (pl_is_run p \<longrightarrow> pl_waiting p = 0 \<and> (pl_running p \<or> pl_stopping p))"

definition pool_ok :: "'cb event_pool \<Rightarrow> bool" where
  "pool_ok p \<longleftrightarrow> pool_threads_ok p \<and> pool_count_ok p \<and> pool_phase_ok p"

lemmas pool_op_defs = pool_start_def pool_create_def pool_register_def pool_count_def pool_notify_start_def
  pool_exit_def pool_stop_def pool_joined_def pool_reset_def pool_post_def pool_on_start_def pool_on_stop_def

lemma length_filter_drop:
  assumes "distinct xs" and "u \<in> set xs" and "P u"
  shows "length (filter (\<lambda>x. x \<noteq> u \<and> P x) xs) = length (filter P xs) - 1"
  using assms
proof (induction xs)
  case (Cons x xs)
  show ?case
  proof (cases "x = u")
    case True
    then have "filter (\<lambda>x. x \<noteq> u \<and> P x) xs = filter P xs" using Cons.prems(1) by (auto intro: filter_cong)
    then show ?thesis using True Cons.prems by simp
  next
    case False
    then have "u \<in> set xs" using Cons.prems by auto
    then have "filter P xs \<noteq> []" using Cons.prems(3) by (auto simp: filter_empty_conv)
    then show ?thesis using False Cons by (cases "filter P xs") auto
  qed
qed simp

lemma uncounted_count:
  assumes "pool_threads_ok p" and "pl_pc p u = T_registered"
  shows "length (uncounted (pool_count u p)) = length (uncounted p) - 1" and "u \<in> set (uncounted p)"
proof -
  have u: "u \<in> set (pl_threads p)" "distinct (pl_threads p)" using assms by (auto simp: pool_threads_ok_def)
  have "uncounted (pool_count u p) =
      filter (\<lambda>x. x \<noteq> u \<and> (pl_pc p x = T_new \<or> pl_pc p x = T_registered)) (pl_threads p)"
    unfolding uncounted_def pool_count_def by (intro filter_cong) auto
  then show "length (uncounted (pool_count u p)) = length (uncounted p) - 1"
    using length_filter_drop [OF u(2,1), of "\<lambda>x. pl_pc p x = T_new \<or> pl_pc p x = T_registered"] assms(2)
    by (simp add: uncounted_def)
  show "u \<in> set (uncounted p)" using u(1) assms(2) by (simp add: uncounted_def)
qed

lemma uncounted_move:
  assumes "pl_threads p' = pl_threads p"
    and "\<And>u. (pl_pc p' u = T_new \<or> pl_pc p' u = T_registered) = (pl_pc p u = T_new \<or> pl_pc p u = T_registered)"
  shows "uncounted p' = uncounted p"
  using assms by (simp add: uncounted_def)

lemma pool_threads_step: "pool_step p p' \<Longrightarrow> pool_threads_ok p \<Longrightarrow> pool_phase_ok p \<Longrightarrow> pool_threads_ok p'"
proof (induction rule: pool_step.induct)
  case (p_create p u)
  then have "u \<notin> set (pl_threads p)" by (auto simp: pool_threads_ok_def)
  with p_create show ?case by (auto simp: pool_threads_ok_def pool_create_def)
next
  case (p_joined p)
  have "pl_pc p u \<notin> {T_new, T_registered, T_running}" for u
  proof
    assume u: "pl_pc p u \<in> {T_new, T_registered, T_running}"
    then have "u \<in> set (pl_threads p)" using p_joined(3) unfolding pool_threads_ok_def by blast
    then have "pl_pc p u = T_exited" using p_joined(2) by blast
    with u show False by simp
  qed
  then show ?case by (simp add: pool_threads_ok_def pool_joined_def pool_reset_def)
qed (auto simp: pool_threads_ok_def pool_op_defs)

lemma pool_count_step:
  "pool_step p p' \<Longrightarrow> pool_threads_ok p \<Longrightarrow> pool_phase_ok p \<Longrightarrow> pool_count_ok p \<Longrightarrow> pool_count_ok p'"
proof (induction rule: pool_step.induct)
  case (p_start p)
  show ?case
  proof (cases "pl_running p")
    case False
    then have "uncounted (pool_start p) = []"
      using p_start by (simp add: pool_phase_ok_def uncounted_def pool_start_def)
    then show ?thesis using False by (simp add: pool_count_ok_def pool_start_def)
  qed (use p_start in \<open>simp add: pool_start_def\<close>)
next
  case (p_create p u)
  then have u: "u \<notin> set (pl_threads p)" by (auto simp: pool_threads_ok_def)
  then have "filter (\<lambda>x. (x = u \<longrightarrow> True) \<and> (x \<noteq> u \<longrightarrow> pl_pc p x = T_new \<or> pl_pc p x = T_registered)) (pl_threads p) =
      uncounted p"
    unfolding uncounted_def by (intro filter_cong) auto
  then have "uncounted (pool_create u p) = uncounted p @ [u]"
    using u unfolding uncounted_def pool_create_def by (auto intro!: filter_cong)
  with p_create show ?case by (simp add: pool_count_ok_def pool_create_def)
next
  case (p_register p u)
  then have "uncounted (pool_register u p) = uncounted p"
    by (intro uncounted_move) (auto simp: pool_register_def)
  with p_register show ?case by (simp add: pool_count_ok_def pool_register_def)
next
  case (p_count p u)
  then have "length (uncounted (pool_count u p)) = length (uncounted p) - 1" "uncounted p \<noteq> []"
    using uncounted_count [of p u] by auto
  moreover have "pl_to_create (pool_count u p) = pl_to_create p" "pl_waiting (pool_count u p) = pl_waiting p - 1"
    by (simp_all add: pool_count_def)
  ultimately show ?case using p_count by (cases "uncounted p") (simp_all add: pool_count_ok_def)
next
  case (p_exit p u)
  then have "uncounted (pool_exit u p) = uncounted p"
    by (intro uncounted_move) (auto simp: pool_exit_def)
  with p_exit show ?case by (simp add: pool_count_ok_def pool_exit_def)
next
  case (p_joined p)
  then show ?case by (simp add: pool_count_ok_def pool_joined_def pool_reset_def uncounted_def pool_phase_ok_def)
qed (auto simp: pool_count_ok_def pool_op_defs uncounted_def)

lemma pool_phase_step:
  "pool_step p p' \<Longrightarrow> pool_threads_ok p \<Longrightarrow> pool_count_ok p \<Longrightarrow> pool_phase_ok p \<Longrightarrow> pool_phase_ok p'"
proof (induction rule: pool_step.induct)
  case (p_create p u)
  then have "pl_waiting p \<noteq> 0" by (simp add: pool_count_ok_def)
  with p_create show ?case by (auto simp: pool_phase_ok_def pool_create_def)
qed (auto simp: pool_phase_ok_def pool_op_defs)

lemma pool_steps_ok: "pool_steps p p' \<Longrightarrow> pool_ok p \<Longrightarrow> pool_ok p'"
proof (induction rule: pool_steps.induct)
  case (pool_more p p' p'')
  then show ?case
    unfolding pool_ok_def using pool_threads_step pool_count_step pool_phase_step by blast
qed

lemma event_pool_new_ok:
  assumes "event_pool_new nb = Inr p"
  shows "pool_ok p"
  using assms
  by (auto simp: event_pool_new_def pool_ok_def pool_threads_ok_def pool_count_ok_def pool_phase_ok_def
      pool_reset_def change_pool_name_def pool_set_name_def uncounted_def Let_def)

text \<open>C31: The start of a pool is announced when all its threads are there: in every reachable state in
  which the pool is run, each of its nb_threads() threads has registered its id and is inside
  run() or has left it, so is_this_loop() is true in every one of them and in no other.\<close>
theorem pool_run_means_all_threads:
  assumes "event_pool_new nb = Inr p0" and "pool_steps p0 p" and "pl_is_run p"
  shows "length (pl_threads p) = pl_nb p \<and> distinct (pl_threads p) \<and>
    (\<forall>u \<in> set (pl_threads p). pl_pc p u = T_running \<or> pl_pc p u = T_exited) \<and>
    (\<forall>t. pool_is_this_loop t p \<longleftrightarrow> t \<in> set (pl_threads p))"
proof -
  have ok: "pool_threads_ok p" "pool_count_ok p" "pool_phase_ok p"
    using pool_steps_ok [OF assms(2) event_pool_new_ok [OF assms(1)]] by (simp_all add: pool_ok_def)
  have "pl_to_create p = 0" and u: "uncounted p = []" and "pl_running p \<or> pl_stopping p"
    using ok assms(3) by (auto simp: pool_count_ok_def pool_phase_ok_def)
  then have n: "length (pl_threads p) = pl_nb p" using ok by (simp add: pool_phase_ok_def)
  have r: "pl_pc p u = T_running \<or> pl_pc p u = T_exited" if "u \<in> set (pl_threads p)" for u
  proof -
    have "pl_pc p u \<noteq> T_none" using that ok(1) unfolding pool_threads_ok_def by blast
    moreover have "pl_pc p u \<noteq> T_new \<and> pl_pc p u \<noteq> T_registered"
      using that u unfolding uncounted_def filter_empty_conv by blast
    ultimately show ?thesis by (cases "pl_pc p u") simp_all
  qed
  have "pool_is_this_loop t p \<longleftrightarrow> t \<in> set (pl_threads p)" for t
  proof
    assume "t \<in> set (pl_threads p)"
    with r [OF this] ok(1) show "pool_is_this_loop t p" by (auto simp: pool_threads_ok_def pool_is_this_loop_def)
  qed (use ok(1) in \<open>auto simp: pool_threads_ok_def pool_is_this_loop_def\<close>)
  then show ?thesis using n r ok(1) by (auto simp: pool_threads_ok_def)
qed

definition pool1 :: "nat event_pool" where
  "pool1 = pool_reset (snd (change_pool_name ''io_service pool''
     \<lparr>pl_nb = 1, pl_name = ''io_service'', pl_running = False, pl_stopped = False, pl_is_run = False,
      pl_waiting = 0, pl_ids = [], pl_threads = [], pl_to_create = 0, pl_stopping = False, pl_queue_size = 0,
      pl_queue = [], pl_pc = (\<lambda>_. T_none), pl_current = (\<lambda>_. None), pl_latch = L_none,
      pl_start_obs = simple_new, pl_stop_obs = simple_new, pl_log = []\<rparr>))"

lemma pool1_new: "event_pool_new 1 = Inr pool1"
  by (simp add: event_pool_new_def pool1_def)

definition pool1_waits :: "nat event_pool" where
  "pool1_waits = (pool_count 5 (pool_register 5 (pool_create 5 (pool_start pool1))))\<lparr>pl_latch := L_spin 5\<rparr>"

lemma pool1_waits_steps: "pool_steps pool1 pool1_waits"
proof -
  note d = pool1_def pool_op_defs change_pool_name_def pool_set_name_def Let_def
  let ?a = "pool_start pool1" and ?b = "pool_create 5 (pool_start pool1)"
  have 1: "pool_step pool1 ?a" by (rule p_start) (simp_all add: d)
  have 2: "pool_step ?a ?b" by (rule p_create) (simp_all add: d)
  have 3: "pool_step ?b (pool_register 5 ?b)" by (rule p_register) (simp add: d)
  have 4: "pool_step (pool_register 5 ?b) (pool_count 5 (pool_register 5 ?b))" by (rule p_count) (simp add: d)
  have 5: "pool_step (pool_count 5 (pool_register 5 ?b)) pool1_waits"
    unfolding pool1_waits_def by (rule p_latch) (simp_all add: d)
  show ?thesis
    by (rule pool_more [OF pool_more [OF pool_more [OF pool_more [OF pool_more [OF pool_refl 1] 2] 3] 4] 5])
qed

lemma pool1_waits_fields:
  "pl_latch pool1_waits = L_spin 5" "pl_waiting pool1_waits = 0" "pl_running pool1_waits"
  "\<not> pl_is_run pool1_waits" "pl_nb pool1_waits = 1" "\<not> pl_stopping pool1_waits"
  by (simp_all add: pool1_waits_def pool1_def pool_op_defs change_pool_name_def pool_set_name_def Let_def)

theorem pool_run_means_all_threads_witness:
  "\<exists>p. pool_steps pool1 p \<and> pl_is_run p \<and> length (pl_threads p) = 1"
proof -
  let ?p = "pool_notify_start 5 pool1_waits"
  have "pool_step pool1_waits ?p" by (rule p_notify) (simp_all add: pool1_waits_fields)
  with pool1_waits_steps have s: "pool_steps pool1 ?p" by (rule pool_more)
  have r: "pl_is_run ?p" by (simp add: pool_notify_start_def)
  have "pl_nb ?p = 1" by (simp add: pool_notify_start_def pool1_waits_fields)
  with pool_run_means_all_threads [OF pool1_new s r] s r show ?thesis by auto
qed

text \<open>
  The start of a pool may be lost: when the weak exchange of its handler fails although the
  counter is zero, the handler takes the zero for a reason to return; the pool then runs with all
  its threads and is_run() stays false whatever happens next, short of stop().\<close>
lemma pool_start_may_be_lost:
  "\<exists>p. pool_steps pool1 p \<and> pl_running p \<and> pl_waiting p = 0 \<and> pl_latch p = L_done \<and> \<not> pl_is_run p \<and>
    \<not> (\<exists>p'. pool_step p p' \<and> (pl_is_run p' \<or> pl_running p' \<and> pl_latch p' \<noteq> L_done))"
proof -
  let ?p = "pool1_waits\<lparr>pl_latch := L_done\<rparr>"
  have "pool_step pool1_waits ?p" by (rule p_spurious) (simp_all add: pool1_waits_fields)
  with pool1_waits_steps have s: "pool_steps pool1 ?p" by (rule pool_more)
  have "\<not> pl_is_run p' \<and> (pl_running p' \<longrightarrow> pl_latch p' = L_done)" if "pool_step ?p p'" for p'
  proof -
    have "pool_step p p' \<Longrightarrow> \<not> pl_is_run p \<Longrightarrow> pl_running p \<Longrightarrow> pl_latch p = L_done \<Longrightarrow> \<not> pl_stopping p \<Longrightarrow>
        \<not> pl_is_run p' \<and> (pl_running p' \<longrightarrow> pl_latch p' = L_done)" for p p' :: "nat event_pool"
      by (induction rule: pool_step.induct) (auto simp: pool_op_defs)
    from this [OF that] show ?thesis by (simp add: pool1_waits_fields)
  qed
  then have "\<not> (\<exists>p'. pool_step ?p p' \<and> (pl_is_run p' \<or> pl_running p' \<and> pl_latch p' \<noteq> L_done))" by blast
  then show ?thesis using s by (intro exI [of _ ?p]) (simp add: pool1_waits_fields)
qed

end
