(* ===== verification/Wait_Async.thy ===== *)
theory Wait_Async
  imports Prelude
begin

text \<open>
  \<open>wait_async_result\<close> (include/server_lib/wait_asynch_request.h): a thread gives a function to an
  executor and waits for its result, for ever or for some time. The caller, whose frame holds the
  result and the promise, and the worker that runs the wrapper are a step relation; a timed wait
  guards the frame with a mutex in a shared pointer of which the wrapper has a weak one.
\<close>

section \<open>State\<close>

text \<open>
  The caller: inside \<open>wait_for\<close> or \<open>get\<close>, about to lock, with the lock, with the value of its
  return expression, without the lock, without the guard, with its frame gone, and the exception.
\<close>

datatype caller_pc = C_wait | C_lock | C_locked | C_return | C_unlocked | C_dropped | C_done | C_thrown

text \<open>
  The worker: the wrapper was not called yet or was destroyed uncalled; the weak pointer was locked;
  the function returned or threw; the mutex is held; the use count was seen above one; the end.
\<close>

datatype worker_pc = K_idle | K_destroyed | K_has | K_result | K_locked | K_write | K_unlock | K_done

datatype promise = P_empty | P_value | P_exception

datatype holder = Caller | Worker

record 'r wait_state =
  ws_caller :: caller_pc
  ws_worker :: worker_pc
  ws_mutex :: "holder option"
  ws_result :: 'r
  ws_promise :: promise
  ws_woken :: bool
  ws_returned :: "'r option"
  ws_bad :: bool

definition wait_new :: "'r \<Rightarrow> 'r wait_state" where
  "wait_new init = \<lparr>ws_caller = C_wait, ws_worker = K_idle, ws_mutex = None, ws_result = init,
     ws_promise = P_empty, ws_woken = False, ws_returned = None, ws_bad = False\<rparr>"

text \<open>Whether the caller still has its pointer to the mutex, and its result and promise.\<close>

definition has_guard :: "'r wait_state \<Rightarrow> bool" where
  "has_guard w \<longleftrightarrow> ws_caller w \<notin> {C_dropped, C_done, C_thrown}"

definition frame_alive :: "'r wait_state \<Rightarrow> bool" where
  "frame_alive w \<longleftrightarrow> ws_caller w \<notin> {C_done, C_thrown}"

text \<open>
  The worker's access to the frame of the caller; \<open>res\<close> is what the function returns, or
  \<open>None\<close> when it throws. A frame that is gone is not written: the state remembers the access.
\<close>

definition worker_write :: "'r option \<Rightarrow> 'r wait_state \<Rightarrow> 'r wait_state" where
  "worker_write res w =
     (if frame_alive w
      then (case res of
              Some r \<Rightarrow> w\<lparr>ws_result := r, ws_promise := P_value\<rparr>
            | None \<Rightarrow> w\<lparr>ws_promise := P_exception\<rparr>)
      else w\<lparr>ws_bad := True\<rparr>)"

inductive wait_step :: "bool \<Rightarrow> 'r option \<Rightarrow> 'r wait_state \<Rightarrow> 'r wait_state \<Rightarrow> bool" for timed res where
  w_destroy: "ws_worker w = K_idle \<Longrightarrow> wait_step timed res w (w\<lparr>ws_worker := K_destroyed\<rparr>)"
| w_enter: "ws_worker w = K_idle \<Longrightarrow> timed \<Longrightarrow> has_guard w \<Longrightarrow> wait_step timed res w (w\<lparr>ws_worker := K_has\<rparr>)"
| w_expired: "ws_worker w = K_idle \<Longrightarrow> timed \<Longrightarrow> \<not> has_guard w \<Longrightarrow> wait_step timed res w (w\<lparr>ws_worker := K_done\<rparr>)"
| w_call: "ws_worker w = K_has \<Longrightarrow> wait_step timed res w (w\<lparr>ws_worker := K_result\<rparr>)"
| w_lock: "ws_worker w = K_result \<Longrightarrow> ws_mutex w = None \<Longrightarrow>
    wait_step timed res w (w\<lparr>ws_worker := K_locked, ws_mutex := Some Worker\<rparr>)"
| w_check: "ws_worker w = K_locked \<Longrightarrow>
    wait_step timed res w (w\<lparr>ws_worker := (if has_guard w then K_write else K_unlock)\<rparr>)"
| w_write: "ws_worker w = K_write \<Longrightarrow> wait_step timed res w ((worker_write res w)\<lparr>ws_worker := K_unlock\<rparr>)"
| w_unlock: "ws_worker w = K_unlock \<Longrightarrow> wait_step timed res w (w\<lparr>ws_worker := K_done, ws_mutex := None\<rparr>)"
| w_untimed: "ws_worker w = K_idle \<Longrightarrow> \<not> timed \<Longrightarrow>
    wait_step timed res w ((worker_write res w)\<lparr>ws_worker := K_done\<rparr>)"
| c_timeout: "ws_caller w = C_wait \<Longrightarrow> timed \<Longrightarrow> ws_promise w = P_empty \<Longrightarrow>
    wait_step timed res w (w\<lparr>ws_caller := C_lock\<rparr>)"
| c_ready: "ws_caller w = C_wait \<Longrightarrow> timed \<Longrightarrow> ws_promise w = P_value \<Longrightarrow>
    wait_step timed res w (w\<lparr>ws_caller := C_lock, ws_woken := True\<rparr>)"
| c_throw: "ws_caller w = C_wait \<Longrightarrow> ws_promise w = P_exception \<Longrightarrow>
    wait_step timed res w (w\<lparr>ws_caller := C_thrown\<rparr>)"
| c_untimed: "ws_caller w = C_wait \<Longrightarrow> \<not> timed \<Longrightarrow> ws_promise w = P_value \<Longrightarrow>
    wait_step timed res w (w\<lparr>ws_caller := C_done, ws_woken := True, ws_returned := Some (ws_result w)\<rparr>)"
| c_lock: "ws_caller w = C_lock \<Longrightarrow> ws_mutex w = None \<Longrightarrow>
    wait_step timed res w (w\<lparr>ws_caller := C_locked, ws_mutex := Some Caller\<rparr>)"
| c_return: "ws_caller w = C_locked \<Longrightarrow>
    wait_step timed res w (w\<lparr>ws_caller := C_return, ws_returned := Some (ws_result w)\<rparr>)"
| c_unlock: "ws_caller w = C_return \<Longrightarrow> wait_step timed res w (w\<lparr>ws_caller := C_unlocked, ws_mutex := None\<rparr>)"
| c_drop: "ws_caller w = C_unlocked \<Longrightarrow> wait_step timed res w (w\<lparr>ws_caller := C_dropped\<rparr>)"
| c_done: "ws_caller w = C_dropped \<Longrightarrow> wait_step timed res w (w\<lparr>ws_caller := C_done\<rparr>)"

inductive wait_steps :: "bool \<Rightarrow> 'r option \<Rightarrow> 'r wait_state \<Rightarrow> 'r wait_state \<Rightarrow> bool" for timed res where
  no_step: "wait_steps timed res w w"
| one_more: "wait_steps timed res w w' \<Longrightarrow> wait_step timed res w' w'' \<Longrightarrow> wait_steps timed res w w''"

lemma wait_steps_invariant:
  assumes "wait_steps timed res w w'" and "I w"
    and "\<And>w w'. wait_step timed res w w' \<Longrightarrow> I w \<Longrightarrow> I w'"
  shows "I w'"
  using assms by (induction rule: wait_steps.induct) auto

section \<open>What the caller gets\<close>

definition promise_ok :: "'r option \<Rightarrow> 'r \<Rightarrow> 'r wait_state \<Rightarrow> bool" where
  "promise_ok res init w \<longleftrightarrow>
     (case ws_promise w of
        P_empty \<Rightarrow> ws_result w = init
      | P_value \<Rightarrow> res = Some (ws_result w)
      | P_exception \<Rightarrow> res = None \<and> ws_result w = init) \<and>
     (ws_woken w \<longrightarrow> ws_promise w = P_value) \<and> (ws_caller w = C_thrown \<longrightarrow> ws_promise w = P_exception)"

definition returned_ok :: "'r option \<Rightarrow> 'r \<Rightarrow> 'r wait_state \<Rightarrow> bool" where
  "returned_ok res init w \<longleftrightarrow>
     (\<forall>v. ws_returned w = Some v \<longrightarrow> (v = init \<or> res = Some v) \<and> (ws_woken w \<longrightarrow> res = Some v)) \<and>
     (ws_returned w = None \<longleftrightarrow> ws_caller w \<in> {C_wait, C_lock, C_locked, C_thrown}) \<and>
     (ws_caller w = C_wait \<longrightarrow> \<not> ws_woken w)"

definition untimed_ok :: "'r wait_state \<Rightarrow> bool" where
  "untimed_ok w \<longleftrightarrow>
     ws_caller w \<in> {C_wait, C_done, C_thrown} \<and> ws_worker w \<in> {K_idle, K_destroyed, K_done} \<and> \<not> ws_bad w \<and>
     (ws_caller w = C_done \<longrightarrow> ws_woken w) \<and>
     (ws_worker w \<noteq> K_done \<longrightarrow> ws_promise w = P_empty \<and> ws_caller w = C_wait)"

lemma worker_write_fields [simp]:
  "ws_caller (worker_write res w) = ws_caller w" "ws_worker (worker_write res w) = ws_worker w"
  "ws_mutex (worker_write res w) = ws_mutex w" "ws_woken (worker_write res w) = ws_woken w"
  "ws_returned (worker_write res w) = ws_returned w"
  by (simp_all add: worker_write_def split: option.split)

lemma worker_write_promise:
  assumes "promise_ok res init w"
  shows "promise_ok res init ((worker_write res w)\<lparr>ws_worker := k\<rparr>)"
proof (cases res)
  case None
  then show ?thesis using assms
    by (cases "ws_promise w") (simp_all add: promise_ok_def worker_write_def)
next
  case (Some r)
  then show ?thesis using assms
    by (cases "ws_promise w") (auto simp: promise_ok_def worker_write_def frame_alive_def)
qed

lemma promise_step: "wait_step timed res w w' \<Longrightarrow> promise_ok res init w \<Longrightarrow> promise_ok res init w'"
  by (induction rule: wait_step.induct) (simp_all add: worker_write_promise, simp_all add: promise_ok_def split: promise.splits)

lemma returned_step:
  "wait_step timed res w w' \<Longrightarrow> promise_ok res init w \<Longrightarrow> returned_ok res init w \<Longrightarrow> returned_ok res init w'"
proof (induction rule: wait_step.induct)
  case (c_return w)
  then have "ws_result w = init \<or> res = Some (ws_result w)" "ws_woken w \<longrightarrow> res = Some (ws_result w)"
    by (cases "ws_promise w"; simp add: promise_ok_def)+
  with c_return show ?case by (simp add: returned_ok_def)
next
  case (c_untimed w)
  then have "res = Some (ws_result w)" by (simp add: promise_ok_def)
  with c_untimed show ?case by (simp add: returned_ok_def)
qed (simp_all add: returned_ok_def)

lemma untimed_step: "wait_step timed res w w' \<Longrightarrow> \<not> timed \<Longrightarrow> untimed_ok w \<Longrightarrow> untimed_ok w'"
  by (induction rule: wait_step.induct)
    (auto simp: untimed_ok_def worker_write_def frame_alive_def split: option.splits)

definition wait_ok :: "bool \<Rightarrow> 'r option \<Rightarrow> 'r \<Rightarrow> 'r wait_state \<Rightarrow> bool" where
  "wait_ok timed res init w \<longleftrightarrow> promise_ok res init w \<and> returned_ok res init w \<and> (timed \<or> untimed_ok w)"

lemma wait_steps_ok:
  assumes "wait_steps timed res (wait_new init) w"
  shows "wait_ok timed res init w"
  using assms
proof (rule wait_steps_invariant)
  show "wait_ok timed res init (wait_new init)"
    by (simp add: wait_ok_def promise_ok_def returned_ok_def untimed_ok_def wait_new_def)
next
  fix w w' assume "wait_step timed res w w'" "wait_ok timed res init w"
  then show "wait_ok timed res init w'"
    unfolding wait_ok_def
    using promise_step [of timed res w w'] returned_step [of timed res w w'] untimed_step [of timed res w w'] by metis
qed

lemma wait_values:
  assumes "wait_steps timed res (wait_new init) w"
  shows "(\<forall>v. ws_returned w = Some v \<longrightarrow> v = init \<or> res = Some v) \<and>
    (ws_woken w \<and> ws_returned w \<noteq> None \<longrightarrow> ws_returned w = res) \<and>
    (ws_caller w = C_thrown \<longrightarrow> res = None) \<and>
    (\<not> timed \<and> ws_returned w \<noteq> None \<longrightarrow> ws_returned w = res) \<and> (\<not> timed \<longrightarrow> \<not> ws_bad w)"
proof -
  have ok: "wait_ok timed res init w" using assms by (rule wait_steps_ok)
  then have "ws_woken w" if "\<not> timed" "ws_returned w \<noteq> None"
    using that by (auto simp: wait_ok_def untimed_ok_def returned_ok_def)
  moreover have "\<forall>v. ws_returned w = Some v \<longrightarrow> (v = init \<or> res = Some v) \<and> (ws_woken w \<longrightarrow> res = Some v)"
    using ok by (simp add: wait_ok_def returned_ok_def)
  moreover have "ws_caller w = C_thrown \<longrightarrow> res = None"
    using ok by (auto simp: wait_ok_def promise_ok_def)
  moreover have "\<not> timed \<longrightarrow> \<not> ws_bad w"
    using ok by (auto simp: wait_ok_def untimed_ok_def)
  ultimately show ?thesis by fastforce
qed

text \<open>
  \<open>wait_async\<close> of a function without a result: the flag \<open>complete\<close> of a timed wait is false at first and set to true
  with the promise; an untimed wait returns true.
\<close>

definition wait_async_new :: "bool \<Rightarrow> bool wait_state" where
  "wait_async_new timed = wait_new (\<not> timed)"

definition wait_async_step :: "bool \<Rightarrow> bool \<Rightarrow> bool wait_state \<Rightarrow> bool wait_state \<Rightarrow> bool" where
  "wait_async_step timed throws = wait_step timed (if throws then None else Some True)"

lemma wait_async_answer:
  assumes "wait_steps timed (if throws then None else Some True) (wait_async_new timed) w"
  shows "(ws_returned w = Some True \<longrightarrow> \<not> throws) \<and> (ws_returned w = Some False \<longrightarrow> timed) \<and>
    (ws_caller w = C_thrown \<longrightarrow> throws)"
  using wait_values [OF assms [unfolded wait_async_new_def]] by (auto split: if_splits)

text \<open>C32: Whatever the interleaving, a wait returns the initial result or the result of the function,
  the latter when it was woken in time; it throws only when the function threw; and an untimed
  wait returns only the result of the function, and never touches a frame that is gone.\<close>
theorem wait_async_result_values:
  assumes "wait_steps timed res (wait_new init) w"
  shows "(\<forall>v. ws_returned w = Some v \<longrightarrow> v = init \<or> res = Some v) \<and>
    (ws_woken w \<and> ws_returned w \<noteq> None \<longrightarrow> ws_returned w = res) \<and>
    (ws_caller w = C_thrown \<longrightarrow> res = None) \<and>
    (\<not> timed \<and> ws_returned w \<noteq> None \<longrightarrow> ws_returned w = res) \<and> (\<not> timed \<longrightarrow> \<not> ws_bad w)"
  using assms by (rule wait_values)

text \<open>The runs that a list of choices of the thread describes are runs.\<close>

lemma wait_steps_Cons: "wait_steps timed res w' w'' \<Longrightarrow> wait_step timed res w w' \<Longrightarrow> wait_steps timed res w w''"
  by (induction rule: wait_steps.induct) (blast intro: wait_steps.intros)+

lemma late_write_run:
  "wait_steps True (Some r) (wait_new init)
     \<lparr>ws_caller = C_done, ws_worker = K_unlock, ws_mutex = Some Worker, ws_result = init, ws_promise = P_empty,
      ws_woken = False, ws_returned = Some init, ws_bad = True\<rparr>"
proof -
  let ?w = "\<lambda>c k m v. \<lparr>ws_caller = c, ws_worker = k, ws_mutex = m, ws_result = init, ws_promise = P_empty,
      ws_woken = False, ws_returned = v, ws_bad = False\<rparr>"
  show ?thesis unfolding wait_new_def
    apply (rule wait_steps_Cons [where w' = "?w C_wait K_has None None"])
     apply (rule wait_steps_Cons [where w' = "?w C_wait K_result None None"])
      apply (rule wait_steps_Cons [where w' = "?w C_lock K_result None None"])
       apply (rule wait_steps_Cons [where w' = "?w C_locked K_result (Some Caller) None"])
        apply (rule wait_steps_Cons [where w' = "?w C_return K_result (Some Caller) (Some init)"])
         apply (rule wait_steps_Cons [where w' = "?w C_unlocked K_result None (Some init)"])
          apply (rule wait_steps_Cons [where w' = "?w C_unlocked K_locked (Some Worker) (Some init)"])
           apply (rule wait_steps_Cons [where w' = "?w C_unlocked K_write (Some Worker) (Some init)"])
            apply (rule wait_steps_Cons [where w' = "?w C_dropped K_write (Some Worker) (Some init)"])
             apply (rule wait_steps_Cons [where w' = "?w C_done K_write (Some Worker) (Some init)"])
              apply (rule wait_steps_Cons)
               apply (rule no_step)
    using w_write [of "?w C_done K_write (Some Worker) (Some init)" True "Some r"]
      w_check [of "?w C_unlocked K_locked (Some Worker) (Some init)" True "Some r"]
      w_enter [of "?w C_wait K_idle None None" True "Some r"] w_call [of "?w C_wait K_has None None" True "Some r"]
      c_timeout [of "?w C_wait K_result None None" True "Some r"] c_lock [of "?w C_lock K_result None None" True "Some r"]
      c_return [of "?w C_locked K_result (Some Caller) None" True "Some r"]
      c_unlock [of "?w C_return K_result (Some Caller) (Some init)" True "Some r"]
      w_lock [of "?w C_unlocked K_result None (Some init)" True "Some r"]
      c_drop [of "?w C_unlocked K_write (Some Worker) (Some init)" True "Some r"]
      c_done [of "?w C_dropped K_write (Some Worker) (Some init)" True "Some r"]
    by (simp_all add: worker_write_def frame_alive_def has_guard_def)
qed

text \<open>
  A timed wait does not protect its frame in every interleaving: the caller gives up its mutex
  before its pointer to it, so a worker that was waiting for the mutex still finds the use count
  above one, and writes the result and the promise after the caller has returned.\<close>
lemma timed_wait_late_write:
  "\<exists>w. wait_steps True (Some r) (wait_new init) w \<and> ws_returned w = Some init \<and> \<not> frame_alive w \<and> ws_bad w"
  using late_write_run [of r init] by (force simp: frame_alive_def)

definition abandoned :: "'r wait_state \<Rightarrow> bool" where
  "abandoned w \<longleftrightarrow> ws_worker w = K_destroyed \<and> ws_promise w = P_empty \<and> ws_caller w = C_wait \<and> ws_returned w = None"

lemma abandoned_step: "wait_step False res w w' \<Longrightarrow> abandoned w \<Longrightarrow> abandoned w'"
  by (induction rule: wait_step.induct) (simp_all add: abandoned_def)

text \<open>
  An untimed wait whose handler is destroyed uncalled, as it is when the loop it was posted to
  is stopped, never returns: in every later state the caller is still waiting.\<close>
lemma untimed_wait_abandoned:
  assumes "wait_steps False res (wait_new init) w" and "ws_worker w = K_destroyed"
    and "wait_steps False res w w'"
  shows "ws_caller w' = C_wait \<and> ws_returned w' = None"
proof -
  have "wait_ok False res init w" using assms(1) by (rule wait_steps_ok)
  then have "abandoned w"
    using assms(2) by (auto simp: wait_ok_def untimed_ok_def returned_ok_def abandoned_def)
  with assms(3) have "abandoned w'" by (rule wait_steps_invariant) (rule abandoned_step)
  then show ?thesis by (simp add: abandoned_def)
qed

lemma untimed_wait_abandoned_witness:
  "\<exists>w. wait_steps False (Some 5) (wait_new (0::nat)) w \<and> ws_worker w = K_destroyed \<and>
     (\<forall>w'. wait_steps False (Some 5) w w' \<longrightarrow> ws_returned w' = None)"
proof -
  let ?w = "(wait_new (0::nat))\<lparr>ws_worker := K_destroyed\<rparr>"
  have s: "wait_steps False (Some 5) (wait_new 0) ?w"
    by (rule wait_steps_Cons [OF no_step]) (rule w_destroy, simp add: wait_new_def)
  have d: "ws_worker ?w = K_destroyed" by simp
  from untimed_wait_abandoned [OF s d] s d show ?thesis by blast
qed

theorem wait_async_result_values_witness:
  "\<exists>w. wait_steps True (Some 5) (wait_new (0::nat)) w \<and> ws_bad w \<and> ws_returned w \<noteq> None \<and> \<not> ws_woken w \<and>
     (\<forall>v. ws_returned w = Some v \<longrightarrow> v = 0 \<or> Some 5 = Some v)"
proof -
  let ?w = "\<lparr>ws_caller = C_done, ws_worker = K_unlock, ws_mutex = Some Worker, ws_result = 0::nat, ws_promise = P_empty,
      ws_woken = False, ws_returned = Some 0, ws_bad = True\<rparr>"
  have s: "wait_steps True (Some 5) (wait_new 0) ?w" by (rule late_write_run)
  from wait_async_result_values [OF s] s show ?thesis by (intro exI [of _ ?w]) simp
qed

end
