(* ===== verification/Connection.thy ===== *)
theory Connection
  imports Unit_Builder_Manager Observers
begin

text \<open>
  A connection: the class \<open>connection\<close> of src/network/connection.cpp, which posts, commits and
  receives logical units, on top of \<open>asio_connection_impl\<close>
  (src/network/transport/asio_connection_impl.h), which owns the socket. The socket is the environment:
  a completion of a read brings any bytes, one of a write tells how many bytes it took. A
  subscriber answers with the calls it makes on the connection and the exception it throws,
  if any.
\<close>

section \<open>State\<close>

text \<open>What a callback of a client may do with its connection.\<close>

datatype user_act =
    U_post net_unit
  | U_commit
  | U_disconnect

datatype 'c conn_event =
    Received 'c net_unit
  | Gone_id 'c nat
  | Gone 'c
  | Closed

text \<open>
  The fields of both classes; \<open>cn_reading\<close> is the size of the read that waits for its
  completion, \<open>cn_writes\<close> are the buffers of the writes that do, \<open>cn_wire\<close> is what the socket
  took, \<open>cn_callbacks\<close> counts the registrations of \<open>on_diconnected\<close> with the raw connection.
\<close>

record ('b, 'c) connection =
  cn_id :: nat
  cn_chunk_size :: nat
  cn_socket :: bool
  cn_stopped :: bool
  cn_callbacks :: nat
  cn_manager :: "'b manager"
  cn_send :: string
  cn_receivers :: "'c list"
  cn_gone_id :: "'c list"
  cn_gone :: "'c list"
  cn_reading :: "nat option"
  cn_writes :: "string list"
  cn_wire :: string
  cn_log :: "'c conn_event list"

type_synonym 'c reaction = "'c conn_event \<Rightarrow> user_act list \<times> srv_error option"

definition set_disconnect_handler :: "bool \<Rightarrow> ('b, 'c) connection \<Rightarrow> ('b, 'c) connection" where
  "set_disconnect_handler callback c = c\<lparr>cn_callbacks := (if callback then Suc (cn_callbacks c) else 0)\<rparr>"

text \<open>The constructor, over a raw connection with its id, its chunk size and a socket.\<close>

definition connection_new ::
    "'b unit_builder_i \<Rightarrow> nat \<Rightarrow> nat \<Rightarrow> 'b option \<Rightarrow> ('b, 'c) connection result" where
  "connection_new vt rid chunk protocol =
     (case protocol of
        None \<Rightarrow> Inl (Logic_error ''protocol'')
      | Some b \<Rightarrow>
          rbind (mgr_set_builder (ub_clone vt b) (mgr_new None)) (\<lambda>m.
            Inr (set_disconnect_handler True
              \<lparr>cn_id = rid, cn_chunk_size = chunk, cn_socket = True, cn_stopped = False, cn_callbacks = 0,
               cn_manager = m, cn_send = [], cn_receivers = [], cn_gone_id = [], cn_gone = [],
               cn_reading = None, cn_writes = [], cn_wire = [], cn_log = []\<rparr>)))"

definition connection_destroy :: "('b, 'c) connection \<Rightarrow> ('b, 'c) connection" where
  "connection_destroy c = set_disconnect_handler False c"

definition is_connected :: "('b, 'c) connection \<Rightarrow> bool" where
  "is_connected c = cn_socket c"

section \<open>Sending\<close>

definition post_unit :: "net_unit \<Rightarrow> ('b, 'c) connection \<Rightarrow> ('b, 'c) connection" where
  "post_unit u c = c\<lparr>cn_send := cn_send c @ to_network u\<rparr>"

definition post_string ::
    "'b unit_builder_i \<Rightarrow> string \<Rightarrow> ('b, 'c) connection \<Rightarrow> srv_error option \<times> ('b, 'c) connection" where
  "post_string vt input c =
     (case rbind (mgr_builder (cn_manager c)) (\<lambda>b. ub_create vt b input) of
        Inl e \<Rightarrow> (Some e, c)
      | Inr u \<Rightarrow> (None, post_unit u c))"

definition async_write :: "string \<Rightarrow> ('b, 'c) connection \<Rightarrow> ('b, 'c) connection result" where
  "async_write buffer c = srv_assert (is_connected c) ''is_connected()'' (Inr (c\<lparr>cn_writes := cn_writes c @ [buffer]\<rparr>))"

text \<open>\<open>commit\<close> empties the send buffer first; an exception after that is only logged.\<close>

definition commit :: "('b, 'c) connection \<Rightarrow> ('b, 'c) connection" where
  "commit c =
     (let buffer = cn_send c; c' = c\<lparr>cn_send := []\<rparr>
      in case srv_assert (buffer \<noteq> []) ''!buffer.empty()'' (async_write buffer c') of
           Inl e \<Rightarrow> c'
         | Inr c'' \<Rightarrow> c'')"

definition send_unit :: "net_unit \<Rightarrow> ('b, 'c) connection \<Rightarrow> ('b, 'c) connection" where
  "send_unit u c = commit (post_unit u c)"

definition send_string ::
    "'b unit_builder_i \<Rightarrow> string \<Rightarrow> ('b, 'c) connection \<Rightarrow> srv_error option \<times> ('b, 'c) connection" where
  "send_string vt input c =
     (case post_string vt input c of (Some e, c') \<Rightarrow> (Some e, c') | (None, c') \<Rightarrow> (None, commit c'))"

section \<open>Disconnection\<close>

text \<open>
  The calls of a subscriber of the disconnection: the socket is released before it is called,
  so its \<open>disconnect()\<close> does nothing.
\<close>

fun closed_act :: "user_act \<Rightarrow> ('b, 'c) connection \<Rightarrow> ('b, 'c) connection" where
  "closed_act (U_post u) c = post_unit u c"
| "closed_act U_commit c = commit c"
| "closed_act U_disconnect c = c"

fun notify_gone ::
    "'c reaction \<Rightarrow> 'c conn_event list \<Rightarrow> ('b, 'c) connection \<Rightarrow> srv_error option \<times> ('b, 'c) connection" where
  "notify_gone react [] c = (None, c)"
| "notify_gone react (ev # evs) c =
     (let (acts, e) = react ev; c' = fold closed_act acts (c\<lparr>cn_log := cn_log c @ [ev]\<rparr>)
      in if e = None then notify_gone react evs c' else (e, c'))"

definition on_diconnected :: "'c reaction \<Rightarrow> ('b, 'c) connection \<Rightarrow> srv_error option \<times> ('b, 'c) connection" where
  "on_diconnected react c =
     notify_gone react (map (\<lambda>cb. Gone_id cb (cn_id c)) (cn_gone_id c) @ map Gone (cn_gone c)) (c\<lparr>cn_send := []\<rparr>)"

text \<open>The loop of the raw connection over its callbacks; each is \<open>on_diconnected\<close>.\<close>

fun call_disconnection ::
    "'c reaction \<Rightarrow> nat \<Rightarrow> ('b, 'c) connection \<Rightarrow> srv_error option \<times> ('b, 'c) connection" where
  "call_disconnection react 0 c = (None, c)"
| "call_disconnection react (Suc n) c =
     (if cn_callbacks c = 0 then (None, c)
      else (case on_diconnected react c of
              (Some e, c') \<Rightarrow> (Some e, c')
            | (None, c') \<Rightarrow> call_disconnection react n c'))"

definition raw_disconnect :: "'c reaction \<Rightarrow> ('b, 'c) connection \<Rightarrow> srv_error option \<times> ('b, 'c) connection" where
  "raw_disconnect react c =
     (if is_connected c
      then (case call_disconnection react (cn_callbacks c) (c\<lparr>cn_stopped := True, cn_socket := False\<rparr>) of
              (Some e, c') \<Rightarrow> (Some e, c')
            | (None, c') \<Rightarrow> (None, c'\<lparr>cn_log := cn_log c' @ [Closed]\<rparr>))
      else (None, c))"

section \<open>Receiving\<close>

text \<open>The calls of a subscriber to units; an exception of one of them leaves the subscriber.\<close>

fun run_acts ::
    "'c reaction \<Rightarrow> user_act list \<Rightarrow> ('b, 'c) connection \<Rightarrow> srv_error option \<times> ('b, 'c) connection" where
  "run_acts react [] c = (None, c)"
| "run_acts react (U_post u # acts) c = run_acts react acts (post_unit u c)"
| "run_acts react (U_commit # acts) c = run_acts react acts (commit c)"
| "run_acts react (U_disconnect # acts) c =
     (case raw_disconnect react c of (Some e, c') \<Rightarrow> (Some e, c') | (None, c') \<Rightarrow> run_acts react acts c')"

text \<open>\<open>_receive_observer.notify(hold_self, unit)\<close>.\<close>

fun notify_receive ::
    "'c reaction \<Rightarrow> net_unit \<Rightarrow> 'c list \<Rightarrow> ('b, 'c) connection \<Rightarrow> srv_error option \<times> ('b, 'c) connection" where
  "notify_receive react u [] c = (None, c)"
| "notify_receive react u (cb # cbs) c =
     (let (acts, e) = react (Received cb u)
      in case run_acts react acts (c\<lparr>cn_log := cn_log c @ [Received cb u]\<rparr>) of
           (Some e', c') \<Rightarrow> (Some e', c')
         | (None, c') \<Rightarrow> if e = None then notify_receive react u cbs c' else (e, c'))"

text \<open>The loop of \<open>on_raw_receive\<close>, once round for each reply that is available.\<close>

fun deliver ::
    "'c reaction \<Rightarrow> net_unit list \<Rightarrow> ('b, 'c) connection \<Rightarrow> srv_error option \<times> ('b, 'c) connection" where
  "deliver react [] c = (None, c)"
| "deliver react (u # us) c =
     (if is_connected c
      then (case notify_receive react u (cn_receivers c) (c\<lparr>cn_manager := (cn_manager c)\<lparr>um_replies := us\<rparr>\<rparr>) of
              (Some e, c') \<Rightarrow> (Some e, c')
            | (None, c') \<Rightarrow> deliver react us c')
      else (None, c))"

text \<open>\<open>async_read\<close> logs the exception of a connection that is closed.\<close>

definition async_read :: "('b, 'c) connection \<Rightarrow> ('b, 'c) connection" where
  "async_read c = (if is_connected c then c\<lparr>cn_reading := Some (cn_chunk_size c)\<rparr> else c)"

definition on_raw_receive ::
    "'b unit_builder_i \<Rightarrow> 'c reaction \<Rightarrow> string \<Rightarrow> ('b, 'c) connection \<Rightarrow> (srv_error option \<times> ('b, 'c) connection) option" where
  "on_raw_receive vt react bytes c =
     (case mgr_feed vt bytes (cn_manager c) of
        None \<Rightarrow> None
      | Some (Some e, m) \<Rightarrow> Some (raw_disconnect react (c\<lparr>cn_manager := m\<rparr>))
      | Some (None, m) \<Rightarrow>
          Some (case deliver react (um_replies m) (c\<lparr>cn_manager := m\<rparr>) of
                  (Some e, c') \<Rightarrow> (Some e, c')
                | (None, c') \<Rightarrow> (None, async_read c')))"

section \<open>Completions\<close>

text \<open>
  \<open>async_handler\<close>: nothing in a stopped scope; the failed case when the operation failed or
  the success case throws, and an exception of the failed case is tried once more.
\<close>

definition async_handler ::
    "bool \<Rightarrow> (('b, 'c) connection \<Rightarrow> (srv_error option \<times> ('b, 'c) connection) option) \<Rightarrow>
     (('b, 'c) connection \<Rightarrow> srv_error option \<times> ('b, 'c) connection) \<Rightarrow>
     ('b, 'c) connection \<Rightarrow> (srv_error option \<times> ('b, 'c) connection) option" where
  "async_handler ok success_case failed_case c =
     (if cn_stopped c then Some (None, c)
      else (case (if ok then success_case c else Some (failed_case c)) of
              None \<Rightarrow> None
            | Some (None, c') \<Rightarrow> Some (None, c')
            | Some (Some e, c') \<Rightarrow> Some (failed_case c')))"

text \<open>
  The completions: a read that brought \<open>bytes\<close>, no more than asked for, or failed; a write
  that took \<open>n\<close> bytes of the oldest buffer, or failed.
\<close>

definition read_done ::
    "'b unit_builder_i \<Rightarrow> 'c reaction \<Rightarrow> string option \<Rightarrow> ('b, 'c) connection \<Rightarrow>
     (srv_error option \<times> ('b, 'c) connection) option" where
  "read_done vt react result c =
     (let c' = c\<lparr>cn_reading := None\<rparr>
      in case result of
           Some bytes \<Rightarrow> async_handler True (on_raw_receive vt react bytes) (raw_disconnect react) c'
         | None \<Rightarrow> async_handler False (\<lambda>c. Some (None, c)) (raw_disconnect react) c')"

definition write_done ::
    "'c reaction \<Rightarrow> nat option \<Rightarrow> ('b, 'c) connection \<Rightarrow> (srv_error option \<times> ('b, 'c) connection) option" where
  "write_done react result c =
     (let c' = c\<lparr>cn_writes := tl (cn_writes c)\<rparr>
      in case result of
           Some n \<Rightarrow> async_handler True (\<lambda>c. Some (None, c)) (raw_disconnect react)
                       (c'\<lparr>cn_wire := cn_wire c @ take n (hd (cn_writes c))\<rparr>)
         | None \<Rightarrow> async_handler False (\<lambda>c. Some (None, c)) (raw_disconnect react) c')"

section \<open>A disconnection is announced once\<close>

definition is_gone :: "'c conn_event \<Rightarrow> bool" where
  "is_gone ev = (case ev of Gone_id _ _ \<Rightarrow> True | Gone _ \<Rightarrow> True | _ \<Rightarrow> False)"

definition gone_events :: "('b, 'c) connection \<Rightarrow> 'c conn_event list" where
  "gone_events c = map (\<lambda>cb. Gone_id cb (cn_id c)) (cn_gone_id c) @ map Gone (cn_gone c)"

definition gone_log :: "('b, 'c) connection \<Rightarrow> 'c conn_event list" where
  "gone_log c = filter is_gone (cn_log c)"

text \<open>What the operations leave alone, and the invariant.\<close>

definition same_subscribers :: "('b, 'c) connection \<Rightarrow> ('b, 'c) connection \<Rightarrow> bool" where
  "same_subscribers c c' \<longleftrightarrow>
     cn_id c' = cn_id c \<and> cn_gone_id c' = cn_gone_id c \<and> cn_gone c' = cn_gone c \<and>
     cn_receivers c' = cn_receivers c \<and> cn_chunk_size c' = cn_chunk_size c"

definition conn_ok :: "('b, 'c) connection \<Rightarrow> bool" where
  "conn_ok c \<longleftrightarrow> cn_callbacks c = 1 \<and> cn_stopped c = (\<not> cn_socket c) \<and>
     gone_log c = (if cn_socket c then [] else gone_events c)"

definition keeps :: "('b, 'c) connection \<Rightarrow> ('b, 'c) connection \<Rightarrow> bool" where
  "keeps c c' \<longleftrightarrow> same_subscribers c c' \<and> (conn_ok c \<longrightarrow> conn_ok c')"

text \<open>The subscribers of the disconnection do not throw.\<close>

definition gone_quiet :: "'c reaction \<Rightarrow> bool" where
  "gone_quiet react \<longleftrightarrow> (\<forall>ev. is_gone ev \<longrightarrow> snd (react ev) = None)"

lemma keeps_refl [intro, simp]: "keeps c c"
  by (simp add: keeps_def same_subscribers_def)

lemma keeps_trans [trans]: "keeps c c' \<Longrightarrow> keeps c' c'' \<Longrightarrow> keeps c c''"
  by (simp add: keeps_def same_subscribers_def)

lemma keeps_ok: "keeps c c' \<Longrightarrow> conn_ok c \<Longrightarrow> conn_ok c'"
  by (simp add: keeps_def)

lemma keeps_update:
  assumes "same_subscribers c c'" and "cn_callbacks c' = cn_callbacks c" and "cn_stopped c' = cn_stopped c"
    and "cn_socket c' = cn_socket c" and "gone_log c' = gone_log c"
  shows "keeps c c'"
  using assms by (simp add: keeps_def conn_ok_def gone_events_def same_subscribers_def)

lemma keeps_post [intro]: "keeps c (post_unit u c)"
  by (rule keeps_update) (simp_all add: same_subscribers_def post_unit_def gone_log_def)

lemma keeps_commit [intro]: "keeps c (commit c)"
  by (rule keeps_update)
    (auto simp: same_subscribers_def commit_def async_write_def gone_log_def srv_assert_def Let_def)

lemma commit_closed: "\<not> cn_socket c \<Longrightarrow> commit c = c\<lparr>cn_send := []\<rparr>"
  by (cases "cn_send c = []") (simp_all add: commit_def async_write_def is_connected_def Let_def)

lemma commit_open:
  "cn_socket c \<Longrightarrow> cn_send c \<noteq> [] \<Longrightarrow> commit c = c\<lparr>cn_send := [], cn_writes := cn_writes c @ [cn_send c]\<rparr>"
  by (simp add: commit_def async_write_def is_connected_def Let_def)

text \<open>What a subscriber that the closed connection calls can change.\<close>

lemma closed_act_fields:
  "cn_id (closed_act a c) = cn_id c \<and> cn_gone_id (closed_act a c) = cn_gone_id c \<and>
   cn_gone (closed_act a c) = cn_gone c \<and> cn_receivers (closed_act a c) = cn_receivers c \<and>
   cn_chunk_size (closed_act a c) = cn_chunk_size c \<and> cn_callbacks (closed_act a c) = cn_callbacks c \<and>
   cn_stopped (closed_act a c) = cn_stopped c \<and> cn_socket (closed_act a c) = cn_socket c \<and>
   cn_log (closed_act a c) = cn_log c \<and> cn_manager (closed_act a c) = cn_manager c"
  by (cases a) (auto simp: post_unit_def commit_def async_write_def srv_assert_def Let_def)

lemma closed_acts_fields [simp]:
  "cn_id (fold closed_act acts c) = cn_id c" "cn_gone_id (fold closed_act acts c) = cn_gone_id c"
  "cn_gone (fold closed_act acts c) = cn_gone c" "cn_receivers (fold closed_act acts c) = cn_receivers c"
  "cn_chunk_size (fold closed_act acts c) = cn_chunk_size c" "cn_callbacks (fold closed_act acts c) = cn_callbacks c"
  "cn_stopped (fold closed_act acts c) = cn_stopped c" "cn_socket (fold closed_act acts c) = cn_socket c"
  "cn_log (fold closed_act acts c) = cn_log c" "cn_manager (fold closed_act acts c) = cn_manager c"
  by (induction acts arbitrary: c) (simp_all add: closed_act_fields)

lemma notify_gone_quiet:
  assumes "\<forall>ev \<in> set evs. snd (react ev) = None"
  shows "\<exists>c'. notify_gone react evs c = (None, c') \<and> same_subscribers c c' \<and> cn_callbacks c' = cn_callbacks c \<and>
    cn_stopped c' = cn_stopped c \<and> cn_socket c' = cn_socket c \<and> cn_log c' = cn_log c @ evs"
  using assms
proof (induction evs arbitrary: c)
  case Nil
  then show ?case by (simp add: same_subscribers_def)
next
  case (Cons ev evs)
  let ?c = "fold closed_act (fst (react ev)) (c\<lparr>cn_log := cn_log c @ [ev]\<rparr>)"
  have "notify_gone react (ev # evs) c = notify_gone react evs ?c"
    using Cons.prems by (simp add: case_prod_unfold Let_def)
  moreover from Cons have "\<exists>c'. notify_gone react evs ?c = (None, c') \<and> same_subscribers ?c c' \<and>
    cn_callbacks c' = cn_callbacks ?c \<and> cn_stopped c' = cn_stopped ?c \<and> cn_socket c' = cn_socket ?c \<and>
    cn_log c' = cn_log ?c @ evs" by (intro Cons.IH) simp
  ultimately show ?case by (auto simp: same_subscribers_def)
qed

text \<open>The disconnection of a connection that is well: it does not throw, and everybody is told.\<close>

lemma raw_disconnect_ok:
  assumes "gone_quiet react" and "conn_ok c"
  shows "\<exists>c'. raw_disconnect react c = (None, c') \<and> keeps c c' \<and> \<not> cn_socket c' \<and>
    cn_log c' = cn_log c @ (if cn_socket c then gone_events c @ [Closed] else [])"
proof (cases "cn_socket c")
  case True
  let ?c = "c\<lparr>cn_stopped := True, cn_socket := False\<rparr>"
  have "\<forall>ev \<in> set (gone_events ?c). snd (react ev) = None"
    using assms(1) by (auto simp: gone_quiet_def gone_events_def is_gone_def)
  from notify_gone_quiet [OF this, of "?c\<lparr>cn_send := []\<rparr>"]
  obtain c' where c': "on_diconnected react ?c = (None, c')" "same_subscribers (?c\<lparr>cn_send := []\<rparr>) c'"
      "cn_callbacks c' = cn_callbacks c" "cn_stopped c'" "\<not> cn_socket c'" "cn_log c' = cn_log c @ gone_events c"
    by (auto simp: on_diconnected_def gone_events_def)
  have "cn_callbacks c = 1" "gone_log c = []" using assms(2) True by (simp_all add: conn_ok_def)
  then have d: "raw_disconnect react c = (None, c'\<lparr>cn_log := cn_log c' @ [Closed]\<rparr>)"
    using True c' by (simp add: raw_disconnect_def is_connected_def)
  have "filter is_gone (gone_events c) = gone_events c"
    by (auto simp: gone_events_def is_gone_def filter_id_conv)
  then have "keeps c (c'\<lparr>cn_log := cn_log c' @ [Closed]\<rparr>)"
    using c' True \<open>gone_log c = []\<close> assms(2)
    by (simp add: keeps_def conn_ok_def same_subscribers_def gone_log_def gone_events_def is_gone_def)
  with d c' True show ?thesis by simp
next
  case False
  then show ?thesis by (simp add: raw_disconnect_def is_connected_def)
qed

lemma keeps_log_received: "keeps c (c\<lparr>cn_log := cn_log c @ [Received cb u]\<rparr>)"
  by (rule keeps_update) (simp_all add: same_subscribers_def gone_log_def is_gone_def)

lemma run_acts_keeps:
  assumes "gone_quiet react" and "conn_ok c"
  shows "\<exists>c'. run_acts react acts c = (None, c') \<and> keeps c c'"
  using assms(2)
proof (induction acts arbitrary: c)
  case (Cons a acts)
  show ?case
  proof (cases a)
    case (U_post u)
    have k: "keeps c (post_unit u c)" by blast
    from Cons.IH [OF keeps_ok [OF k Cons.prems]] U_post keeps_trans [OF k] show ?thesis by fastforce
  next
    case U_commit
    have k: "keeps c (commit c)" by blast
    from Cons.IH [OF keeps_ok [OF k Cons.prems]] U_commit keeps_trans [OF k] show ?thesis by fastforce
  next
    case U_disconnect
    obtain c1 where "raw_disconnect react c = (None, c1)" and k: "keeps c c1"
      using raw_disconnect_ok [OF assms(1) Cons.prems] by blast
    with Cons.IH [OF keeps_ok [OF k Cons.prems]] U_disconnect keeps_trans [OF k] show ?thesis by fastforce
  qed
qed simp

text \<open>The loops over the subscribers and the units: they may end with an exception of a subscriber.\<close>

lemma notify_receive_keeps:
  assumes "gone_quiet react" and "conn_ok c"
  shows "keeps c (snd (notify_receive react u cbs c))"
  using assms(2)
proof (induction cbs arbitrary: c)
  case (Cons cb cbs)
  obtain acts e where r: "react (Received cb u) = (acts, e)" by fastforce
  have k: "keeps c (c\<lparr>cn_log := cn_log c @ [Received cb u]\<rparr>)" by (rule keeps_log_received)
  obtain c1 where c1: "run_acts react acts (c\<lparr>cn_log := cn_log c @ [Received cb u]\<rparr>) = (None, c1)"
    and k1: "keeps (c\<lparr>cn_log := cn_log c @ [Received cb u]\<rparr>) c1"
    using run_acts_keeps [OF assms(1) keeps_ok [OF k Cons.prems]] by blast
  have kc: "keeps c c1" using k k1 by (rule keeps_trans)
  show ?case
    using keeps_trans [OF kc Cons.IH [OF keeps_ok [OF kc Cons.prems]]] kc r c1 by simp
qed simp

lemma deliver_keeps:
  assumes "gone_quiet react" and "conn_ok c"
  shows "keeps c (snd (deliver react us c))"
  using assms(2)
proof (induction us arbitrary: c)
  case (Cons u us)
  let ?c = "c\<lparr>cn_manager := (cn_manager c)\<lparr>um_replies := us\<rparr>\<rparr>"
  have "keeps c ?c" by (rule keeps_update) (simp_all add: same_subscribers_def gone_log_def)
  moreover have "keeps ?c (snd (notify_receive react u (cn_receivers c) ?c))"
    using notify_receive_keeps [OF assms(1) keeps_ok [OF \<open>keeps c ?c\<close> Cons.prems]] .
  ultimately have k: "keeps c (snd (notify_receive react u (cn_receivers c) ?c))" by (rule keeps_trans)
  show ?case
    using k keeps_trans [OF k Cons.IH [OF keeps_ok [OF k Cons.prems]]]
    by (auto split: prod.split option.split)
qed simp

lemma on_raw_receive_keeps:
  assumes "gone_quiet react" and "conn_ok c" and "on_raw_receive vt react bytes c = Some (e, c')"
  shows "keeps c c'"
proof -
  obtain e1 m where f: "mgr_feed vt bytes (cn_manager c) = Some (e1, m)"
    using assms(3) by (cases "mgr_feed vt bytes (cn_manager c)") (auto simp: on_raw_receive_def)
  have k: "keeps c (c\<lparr>cn_manager := m\<rparr>)"
    by (rule keeps_update) (simp_all add: same_subscribers_def gone_log_def)
  show ?thesis
  proof (cases e1)
    case None
    obtain e2 c2 where d: "deliver react (um_replies m) (c\<lparr>cn_manager := m\<rparr>) = (e2, c2)" by fastforce
    have "keeps c c2"
      using keeps_trans [OF k deliver_keeps [OF assms(1) keeps_ok [OF k assms(2)], of "um_replies m"]] d by simp
    moreover have "keeps c2 (async_read c2)"
      by (rule keeps_update) (simp_all add: async_read_def same_subscribers_def gone_log_def)
    ultimately show ?thesis
      using assms(3) f None d by (cases e2) (auto simp: on_raw_receive_def intro: keeps_trans)
  next
    case (Some x)
    then show ?thesis
      using assms(3) f raw_disconnect_ok [OF assms(1) keeps_ok [OF k assms(2)]] keeps_trans [OF k]
      by (auto simp: on_raw_receive_def)
  qed
qed

lemma async_handler_keeps:
  assumes "gone_quiet react" and "conn_ok c"
    and "\<And>e c'. success_case c = Some (e, c') \<Longrightarrow> keeps c c'"
    and "async_handler ok success_case (raw_disconnect react) c = Some (e, c')"
  shows "keeps c c'"
proof -
  obtain c1 where c1: "raw_disconnect react c = (None, c1)" "keeps c c1"
    using raw_disconnect_ok [OF assms(1,2)] by blast
  show ?thesis
  proof (cases "cn_stopped c \<or> \<not> ok")
    case True
    with assms(4) c1 show ?thesis by (auto simp: async_handler_def split: if_splits)
  next
    case False
    then obtain e2 c2 where s: "success_case c = Some (e2, c2)"
      using assms(4) by (cases "success_case c") (auto simp: async_handler_def)
    have k: "keeps c c2" using assms(3) s by blast
    show ?thesis
    proof (cases e2)
      case (Some x)
      then show ?thesis
        using assms(4) False s raw_disconnect_ok [OF assms(1) keeps_ok [OF k assms(2)]] keeps_trans [OF k]
        by (auto simp: async_handler_def)
    qed (use assms(4) False s k in \<open>simp add: async_handler_def\<close>)
  qed
qed

section \<open>Runs of a connection\<close>

datatype conn_input =
    Read_done "string option"
  | Write_done "nat option"
  | Act user_act

definition conn_input_step ::
    "'b unit_builder_i \<Rightarrow> 'c reaction \<Rightarrow> conn_input \<Rightarrow> ('b, 'c) connection \<Rightarrow> ('b, 'c) connection option" where
  "conn_input_step vt react i c =
     (case i of
        Read_done r \<Rightarrow> map_option snd (read_done vt react r c)
      | Write_done r \<Rightarrow> map_option snd (write_done react r c)
      | Act a \<Rightarrow> Some (snd (run_acts react [a] c)))"

fun conn_run ::
    "'b unit_builder_i \<Rightarrow> 'c reaction \<Rightarrow> conn_input list \<Rightarrow> ('b, 'c) connection \<Rightarrow> ('b, 'c) connection option" where
  "conn_run vt react [] c = Some c"
| "conn_run vt react (i # is) c =
     (case conn_input_step vt react i c of None \<Rightarrow> None | Some c' \<Rightarrow> conn_run vt react is c')"

lemma conn_input_keeps:
  assumes "gone_quiet react" and "conn_ok c" and "conn_input_step vt react i c = Some c'"
  shows "keeps c c'"
proof (cases i)
  case (Read_done r)
  let ?c = "c\<lparr>cn_reading := None\<rparr>"
  have k: "keeps c ?c" by (rule keeps_update) (simp_all add: same_subscribers_def gone_log_def)
  have ok: "conn_ok ?c" using k assms(2) by (rule keeps_ok)
  show ?thesis
  proof (cases r)
    case None
    then obtain e where "async_handler False (\<lambda>c. Some (None, c)) (raw_disconnect react) ?c = Some (e, c')"
      using assms(3) Read_done by (auto simp: conn_input_step_def read_done_def)
    then have "keeps ?c c'" by (rule async_handler_keeps [OF assms(1) ok, rotated]) auto
    with k show ?thesis by (rule keeps_trans)
  next
    case (Some bytes)
    then obtain e where "async_handler True (on_raw_receive vt react bytes) (raw_disconnect react) ?c = Some (e, c')"
      using assms(3) Read_done by (auto simp: conn_input_step_def read_done_def)
    then have "keeps ?c c'"
      by (rule async_handler_keeps [OF assms(1) ok, rotated]) (rule on_raw_receive_keeps [OF assms(1) ok])
    with k show ?thesis by (rule keeps_trans)
  qed
next
  case (Write_done r)
  let ?n = "c\<lparr>cn_writes := tl (cn_writes c)\<rparr>"
  have k: "keeps c ?n" "keeps c (?n\<lparr>cn_wire := w\<rparr>)" for w
    by (rule keeps_update; simp add: same_subscribers_def gone_log_def)+
  show ?thesis
  proof (cases r)
    case None
    then obtain e where "async_handler False (\<lambda>c. Some (None, c)) (raw_disconnect react) ?n = Some (e, c')"
      using assms(3) Write_done by (auto simp: conn_input_step_def write_done_def)
    then have "keeps ?n c'" by (rule async_handler_keeps [OF assms(1) keeps_ok [OF k(1) assms(2)], rotated]) auto
    with k(1) show ?thesis by (rule keeps_trans)
  next
    case (Some n)
    let ?w = "?n\<lparr>cn_wire := cn_wire c @ take n (hd (cn_writes c))\<rparr>"
    obtain e where "async_handler True (\<lambda>c. Some (None, c)) (raw_disconnect react) ?w = Some (e, c')"
      using assms(3) Write_done Some by (auto simp: conn_input_step_def write_done_def)
    then have "keeps ?w c'" by (rule async_handler_keeps [OF assms(1) keeps_ok [OF k(2) assms(2)], rotated]) auto
    with k(2) show ?thesis by (rule keeps_trans)
  qed
next
  case (Act a)
  then show ?thesis using run_acts_keeps [OF assms(1,2), of "[a]"] assms(3) by (auto simp: conn_input_step_def)
qed

lemma conn_run_keeps:
  "gone_quiet react \<Longrightarrow> conn_ok c \<Longrightarrow> conn_run vt react is c = Some c' \<Longrightarrow> keeps c c'"
proof (induction "is" arbitrary: c)
  case (Cons i "is")
  obtain c1 where c1: "conn_input_step vt react i c = Some c1" "conn_run vt react is c1 = Some c'"
    using Cons.prems(3) by (auto split: option.splits)
  have k: "keeps c c1" using conn_input_keeps [OF Cons.prems(1,2) c1(1)] .
  show ?case using keeps_trans [OF k Cons.IH [OF Cons.prems(1) keeps_ok [OF k Cons.prems(2)] c1(2)]] .
qed simp

lemma closed_input:
  assumes "cn_stopped c" and "\<not> cn_socket c" and "conn_input_step vt react i c = Some c'"
  shows "cn_log c' = cn_log c \<and> cn_stopped c' \<and> \<not> cn_socket c'"
proof (cases i)
  case (Read_done r)
  with assms show ?thesis
    by (cases r) (auto simp: conn_input_step_def read_done_def async_handler_def)
next
  case (Write_done r)
  with assms show ?thesis
    by (cases r) (auto simp: conn_input_step_def write_done_def async_handler_def)
next
  case (Act a)
  with assms show ?thesis
    by (cases a) (auto simp: conn_input_step_def raw_disconnect_def is_connected_def post_unit_def commit_closed)
qed

lemma closed_run:
  "conn_run vt react is c = Some c' \<Longrightarrow> cn_stopped c \<Longrightarrow> \<not> cn_socket c \<Longrightarrow> cn_log c' = cn_log c"
proof (induction "is" arbitrary: c)
  case (Cons i "is")
  then obtain c1 where "conn_input_step vt react i c = Some c1" "conn_run vt react is c1 = Some c'"
    by (auto split: option.splits)
  with Cons closed_input [of c vt react i c1] show ?case by auto
qed simp

text \<open>A new connection with its subscribers.\<close>

definition connection_with ::
    "('b, 'c) connection \<Rightarrow> 'c list \<Rightarrow> 'c list \<Rightarrow> 'c list \<Rightarrow> ('b, 'c) connection" where
  "connection_with c receivers gone_id gone = c\<lparr>cn_receivers := receivers, cn_gone_id := gone_id, cn_gone := gone\<rparr>"

lemma connection_new_eq:
  assumes "connection_new vt rid chunk protocol = Inr c"
  shows "\<exists>b. protocol = Some b \<and> ub_clone vt b \<noteq> None \<and>
    c = \<lparr>cn_id = rid, cn_chunk_size = chunk, cn_socket = True, cn_stopped = False, cn_callbacks = 1,
         cn_manager = mgr_new (ub_clone vt b), cn_send = [], cn_receivers = [], cn_gone_id = [], cn_gone = [],
         cn_reading = None, cn_writes = [], cn_wire = [], cn_log = []\<rparr>"
  using assms
  by (cases protocol)
    (auto simp: connection_new_def mgr_set_builder_def set_disconnect_handler_def mgr_new_def)

lemma connection_with_ok:
  "connection_new vt rid chunk protocol = Inr c \<Longrightarrow> conn_ok (connection_with c rs gs hs)"
  by (drule connection_new_eq) (auto simp: conn_ok_def connection_with_def gone_log_def)


definition quiet :: "nat reaction" where
  "quiet ev = ([], None)"

lemma quiet_gone: "gone_quiet quiet"
  by (simp add: gone_quiet_def quiet_def)

definition msg_conn :: "(msg_builder, nat) connection" where
  "msg_conn = \<lparr>cn_id = 7, cn_chunk_size = 100, cn_socket = True, cn_stopped = False, cn_callbacks = 1,
     cn_manager = mgr_new (Some (msg_builder_new 10)), cn_send = [], cn_receivers = [], cn_gone_id = [], cn_gone = [],
     cn_reading = None, cn_writes = [], cn_wire = [], cn_log = []\<rparr>"

lemma msg_conn_new: "connection_new msg_protocol 7 100 (Some (msg_builder_new 10)) = Inr msg_conn"
  by (simp add: connection_new_def mgr_set_builder_def set_disconnect_handler_def mgr_new_def msg_protocol_def
      msg_clone_def msg_conn_def msg_builder_new_def)


section \<open>From the messages of one connection to the subscribers of another\<close>

text \<open>Reads that succeed, one after the other.\<close>

fun read_all ::
    "'b unit_builder_i \<Rightarrow> 'c reaction \<Rightarrow> string list \<Rightarrow> ('b, 'c) connection \<Rightarrow> (srv_error option \<times> ('b, 'c) connection) option" where
  "read_all vt react [] c = Some (None, c)"
| "read_all vt react (d # ds) c =
     (case read_done vt react (Some d) c of
        None \<Rightarrow> None
      | Some (Some e, c') \<Rightarrow> Some (Some e, c')
      | Some (None, c') \<Rightarrow> read_all vt react ds c')"

text \<open>A subscriber that answers, but does not disconnect and does not throw.\<close>

definition stays :: "'c reaction \<Rightarrow> bool" where
  "stays react \<longleftrightarrow> (\<forall>ev. U_disconnect \<notin> set (fst (react ev)) \<and> snd (react ev) = None)"

definition received :: "('b, 'c) connection \<Rightarrow> ('c \<times> net_unit) list" where
  "received c = concat (map (\<lambda>ev. case ev of Received cb u \<Rightarrow> [(cb, u)] | _ \<Rightarrow> []) (cn_log c))"

text \<open>The connection but for what it sends, and its log.\<close>

definition same_but_sends :: "('b, 'c) connection \<Rightarrow> ('b, 'c) connection \<Rightarrow> bool" where
  "same_but_sends c c' \<longleftrightarrow>
     cn_socket c' = cn_socket c \<and> cn_stopped c' = cn_stopped c \<and> cn_manager c' = cn_manager c \<and>
     cn_receivers c' = cn_receivers c \<and> cn_chunk_size c' = cn_chunk_size c"

lemma same_but_sends_trans: "same_but_sends c c' \<Longrightarrow> same_but_sends c' c'' \<Longrightarrow> same_but_sends c c''"
  by (simp add: same_but_sends_def)

lemma run_acts_stay:
  "U_disconnect \<notin> set acts \<Longrightarrow>
   \<exists>c'. run_acts react acts c = (None, c') \<and> same_but_sends c c' \<and> cn_log c' = cn_log c"
proof (induction acts arbitrary: c)
  case (Cons a acts)
  have "same_but_sends c (closed_act a c)" "cn_log (closed_act a c) = cn_log c"
    by (simp_all add: same_but_sends_def closed_act_fields)
  moreover have "run_acts react (a # acts) c = run_acts react acts (closed_act a c)"
    using Cons.prems by (cases a) auto
  moreover obtain c' where "run_acts react acts (closed_act a c) = (None, c')" "same_but_sends (closed_act a c) c'"
      "cn_log c' = cn_log (closed_act a c)"
    using Cons by auto
  ultimately show ?case using same_but_sends_trans by fastforce
qed (simp add: same_but_sends_def)

lemma notify_receive_stay:
  assumes "stays react"
  shows "\<exists>c'. notify_receive react u cbs c = (None, c') \<and> same_but_sends c c' \<and>
    received c' = received c @ map (\<lambda>cb. (cb, u)) cbs"
proof (induction cbs arbitrary: c)
  case (Cons cb cbs)
  let ?c = "c\<lparr>cn_log := cn_log c @ [Received cb u]\<rparr>"
  obtain acts where r: "react (Received cb u) = (acts, None)" and a: "U_disconnect \<notin> set acts"
    using assms by (metis prod.collapse stays_def)
  from run_acts_stay [OF a, of react ?c] obtain c1
    where c1: "run_acts react acts ?c = (None, c1)" "same_but_sends ?c c1" "cn_log c1 = cn_log ?c" by blast
  from Cons [of c1] obtain c' where c': "notify_receive react u cbs c1 = (None, c')" "same_but_sends c1 c'"
      "received c' = received c1 @ map (\<lambda>cb. (cb, u)) cbs" by blast
  have "received c1 = received c @ [(cb, u)]" using c1(3) by (simp add: received_def)
  moreover have "same_but_sends c c'" using c1(2) c'(2) by (simp add: same_but_sends_def)
  ultimately show ?case using c' r c1(1) by simp
qed (simp add: same_but_sends_def)

lemma deliver_stay:
  assumes "stays react"
  shows "cn_socket c \<Longrightarrow> um_replies (cn_manager c) = us \<Longrightarrow>
    \<exists>c'. deliver react us c = (None, c') \<and>
      same_but_sends (c\<lparr>cn_manager := (cn_manager c)\<lparr>um_replies := []\<rparr>\<rparr>) c' \<and>
      received c' = received c @ concat (map (\<lambda>u. map (\<lambda>cb. (cb, u)) (cn_receivers c)) us)"
proof (induction us arbitrary: c)
  case Nil
  then show ?case by (cases "cn_manager c") (simp add: same_but_sends_def)
next
  case (Cons u us)
  let ?c = "c\<lparr>cn_manager := (cn_manager c)\<lparr>um_replies := us\<rparr>\<rparr>"
  from notify_receive_stay [OF assms, of u "cn_receivers c" ?c] obtain c1
    where c1: "notify_receive react u (cn_receivers c) ?c = (None, c1)" "same_but_sends ?c c1"
      "received c1 = received ?c @ map (\<lambda>cb. (cb, u)) (cn_receivers c)" by blast
  have "received ?c = received c" by (simp add: received_def)
  moreover from Cons.IH [of c1] c1(2) Cons.prems(1) obtain c' where c': "deliver react us c1 = (None, c')"
      "same_but_sends (c1\<lparr>cn_manager := (cn_manager c1)\<lparr>um_replies := []\<rparr>\<rparr>) c'"
      "received c' = received c1 @ concat (map (\<lambda>u. map (\<lambda>cb. (cb, u)) (cn_receivers c1)) us)"
    by (auto simp: same_but_sends_def)
  moreover have "cn_receivers c1 = cn_receivers c" using c1(2) by (simp add: same_but_sends_def)
  moreover have "same_but_sends (c\<lparr>cn_manager := (cn_manager c)\<lparr>um_replies := []\<rparr>\<rparr>) c'"
    using c1(2) c'(2) by (simp add: same_but_sends_def)
  ultimately show ?case using c1 Cons.prems(1) by (simp add: is_connected_def)
qed

text \<open>One read, and a sequence of them, in terms of the manager.\<close>

lemma read_done_stay:
  assumes "stays react" and "cn_socket c" and "\<not> cn_stopped c"
    and "mgr_feed vt d (cn_manager c) = Some (None, m)" and "um_replies (cn_manager c) = []"
  shows "\<exists>c'. read_done vt react (Some d) c = Some (None, c') \<and> cn_socket c' \<and> \<not> cn_stopped c' \<and>
    cn_manager c' = m\<lparr>um_replies := []\<rparr> \<and> cn_receivers c' = cn_receivers c \<and>
    received c' = received c @ concat (map (\<lambda>u. map (\<lambda>cb. (cb, u)) (cn_receivers c)) (um_replies m))"
proof -
  let ?c = "c\<lparr>cn_reading := None, cn_manager := m\<rparr>"
  obtain c1 where c1: "deliver react (um_replies m) ?c = (None, c1)"
      "same_but_sends (?c\<lparr>cn_manager := (cn_manager ?c)\<lparr>um_replies := []\<rparr>\<rparr>) c1"
      "received c1 = received ?c @ concat (map (\<lambda>u. map (\<lambda>cb. (cb, u)) (cn_receivers ?c)) (um_replies m))"
    using deliver_stay [OF assms(1), of ?c "um_replies m"] assms(2) by auto
  have "read_done vt react (Some d) c = Some (None, async_read c1)"
    using assms c1 by (simp add: read_done_def async_handler_def on_raw_receive_def)
  moreover have "cn_socket c1" "\<not> cn_stopped c1" "cn_manager c1 = m\<lparr>um_replies := []\<rparr>" "cn_receivers c1 = cn_receivers c"
    using c1(2) assms(2,3) by (simp_all add: same_but_sends_def)
  moreover have "received ?c = received c" by (simp add: received_def)
  ultimately show ?thesis using c1(3) by (simp add: async_read_def received_def is_connected_def)
qed

lemma read_all_stay:
  assumes "stays react"
  shows "cn_socket c \<Longrightarrow> \<not> cn_stopped c \<Longrightarrow> um_replies (cn_manager c) = [] \<Longrightarrow>
    mgr_feed_all vt ds (cn_manager c) = Some (None, m) \<Longrightarrow>
    \<exists>c'. read_all vt react ds c = Some (None, c') \<and> cn_socket c' \<and> cn_manager c' = m\<lparr>um_replies := []\<rparr> \<and>
      received c' = received c @ concat (map (\<lambda>u. map (\<lambda>cb. (cb, u)) (cn_receivers c)) (um_replies m))"
proof (induction ds arbitrary: c m)
  case Nil
  then show ?case by auto
next
  case (Cons d ds)
  then obtain m1 where f: "mgr_feed vt d (cn_manager c) = Some (None, m1)" and fs: "mgr_feed_all vt ds m1 = Some (None, m)"
    by (auto split: option.splits prod.splits)
  obtain c1 where c1: "read_done vt react (Some d) c = Some (None, c1)" "cn_socket c1" "\<not> cn_stopped c1"
      "cn_manager c1 = m1\<lparr>um_replies := []\<rparr>" "cn_receivers c1 = cn_receivers c"
      "received c1 = received c @ concat (map (\<lambda>u. map (\<lambda>cb. (cb, u)) (cn_receivers c)) (um_replies m1))"
    using read_done_stay [OF assms Cons.prems(1,2) f Cons.prems(3)] by blast
  let ?m = "m1\<lparr>um_replies := []\<rparr>"
  have p: "m1 = prepend (um_replies m1) ?m" by (cases m1) simp
  then obtain eo m' where m': "mgr_feed_all vt ds ?m = Some (eo, m')"
    using fs feed_all_returns_prepend [of vt ds "um_replies m1" ?m] by auto
  have "mgr_feed_all vt ds m1 = Some (eo, prepend (um_replies m1) m')"
    using feed_all_prepend [OF m', of "um_replies m1"] p by simp
  with fs have eo: "eo = None" and m: "m = prepend (um_replies m1) m'" by simp_all
  from Cons.IH [of c1 m'] c1 m' eo obtain c' where c': "read_all vt react ds c1 = Some (None, c')" "cn_socket c'"
      "cn_manager c' = m'\<lparr>um_replies := []\<rparr>"
      "received c' = received c1 @ concat (map (\<lambda>u. map (\<lambda>cb. (cb, u)) (cn_receivers c1)) (um_replies m'))"
    by auto
  then show ?case using c1 m by (cases m') simp
qed

text \<open>Posting messages one after the other.\<close>

fun post_strings :: "'b unit_builder_i \<Rightarrow> string list \<Rightarrow> ('b, 'c) connection \<Rightarrow> srv_error option \<times> ('b, 'c) connection" where
  "post_strings vt [] c = (None, c)"
| "post_strings vt (s # ss) c =
     (case post_string vt s c of (Some e, c') \<Rightarrow> (Some e, c') | (None, c') \<Rightarrow> post_strings vt ss c')"

lemma post_strings_msg:
  "um_builder (cn_manager c) = Some (msg_builder_new mx) \<Longrightarrow> map (msg_encode mx) msgs = map Inr wires \<Longrightarrow>
   post_strings msg_protocol msgs c = (None, c\<lparr>cn_send := cn_send c @ concat wires\<rparr>)"
proof (induction msgs arbitrary: c wires)
  case (Cons s msgs)
  then obtain w ws where w: "wires = w # ws" "msg_encode mx s = Inr w" "map (msg_encode mx) msgs = map Inr ws"
    by (cases wires) auto
  then obtain u where u: "msg_create (msg_builder_new mx) s = Inr u" "w = to_network u"
    by (auto simp: msg_encode_def)
  have "post_string msg_protocol s c = (None, c\<lparr>cn_send := cn_send c @ w\<rparr>)"
    using Cons.prems(1) u by (simp add: post_string_def mgr_builder_def msg_protocol_def post_unit_def)
  then show ?case using Cons.IH [of "c\<lparr>cn_send := cn_send c @ w\<rparr>" ws] Cons.prems(1) w by simp
qed simp



section \<open>A malformed unit\<close>

lemma msg_feed_oversized:
  assumes "msg_start mx b" and "mx < unat n"
  shows "\<exists>b' s'. msg_feed b (pack n @ r) = (Some (Logic_error ''sz <= _msg_max_size''), b', s')"
  using msg_feed_in_header [of b "pack n @ r"] assms by (simp add: msg_start_def unpack_pack)

lemma oversized_fails:
  assumes "msg_frames.mgr_between mx m" and "um_buffer m = []" and "mx < unat n"
  shows "\<exists>m1. mgr_feed msg_protocol (pack n) m = Some (Some (Logic_error ''sz <= _msg_max_size''), m1)"
proof -
  obtain b where b: "um_builder m = Some b" "msg_start mx b"
    using assms(1) by (auto simp: msg_frames.mgr_between_def)
  obtain b' s' where f: "msg_feed b (pack n) = (Some (Logic_error ''sz <= _msg_max_size''), b', s')"
    using msg_feed_oversized [OF b(2) assms(3), of "[]"] by auto
  have "pack n \<noteq> []" using unpack_pack [of n "[]"] unpack_pack [of "n + 1" "[]"]
    by (cases "pack n") (auto simp: unpack_def unpack_loop.simps)
  then have "mgr_build_unit msg_protocol (m\<lparr>um_buffer := pack n\<rparr>) =
      (Some (Logic_error ''sz <= _msg_max_size''), False, m\<lparr>um_builder := Some b', um_buffer := s'\<rparr>)"
    using b f by (simp add: mgr_build_unit_def msg_protocol_def)
  from mgr_drain_error [OF this] show ?thesis using assms(2) by (simp add: mgr_feed_def)
qed

text \<open>A read that fails disconnects, and delivers nothing.\<close>

lemma read_done_malformed:
  assumes "gone_quiet react" and "conn_ok c" and "cn_socket c" and "mgr_feed vt d (cn_manager c) = Some (Some e, m)"
  shows "\<exists>c'. read_done vt react (Some d) c = Some (None, c') \<and> \<not> cn_socket c' \<and>
    cn_log c' = cn_log c @ gone_events c @ [Closed]"
proof -
  let ?c = "c\<lparr>cn_reading := None, cn_manager := m\<rparr>"
  have "keeps c ?c" by (rule keeps_update) (simp_all add: same_subscribers_def gone_log_def)
  from raw_disconnect_ok [OF assms(1) keeps_ok [OF this assms(2)]] obtain c'
    where c': "raw_disconnect react ?c = (None, c')" "\<not> cn_socket c'" "cn_log c' = cn_log c @ gone_events c @ [Closed]"
    using assms(3) by (auto simp: gone_events_def)
  have "\<not> cn_stopped c" using assms(2,3) by (simp add: conn_ok_def)
  with c' assms(4) show ?thesis by (auto simp: read_done_def async_handler_def on_raw_receive_def)
qed

text \<open>
  A message that is too long disconnects the receiver; whether a complete message before it
  is delivered depends on how the bytes were cut: in a read of its own it is, in one read with
  the header that fails it is dropped.\<close>
lemma malformed_message_drops_its_read:
  fixes cb :: 'c
  assumes "connection_new msg_protocol i k (Some (msg_builder_new mx)) = Inr c0"
    and "msg_encode mx s = Inr w" and "mx < unat n" and "stays react"
  defines "c \<equiv> connection_with c0 [cb] [] []"
  shows "\<exists>c1 c2. read_all msg_protocol react [w, pack n] c = Some (None, c1) \<and> received c1 = [(cb, msg_unit s)] \<and>
    read_all msg_protocol react [w @ pack n] c = Some (None, c2) \<and> received c2 = [] \<and>
    \<not> is_connected c1 \<and> \<not> is_connected c2"
proof -
  have q: "gone_quiet react" using assms(4) by (simp add: stays_def gone_quiet_def)
  have ok: "conn_ok c" unfolding c_def using assms(1) by (rule connection_with_ok)
  have c: "cn_socket c" "\<not> cn_stopped c" "cn_log c = []" "cn_manager c = mgr_new (Some (msg_builder_new mx))"
      "cn_gone_id c = []" "cn_gone c = []" "cn_receivers c = [cb]"
    using connection_new_eq [OF assms(1)]
    by (auto simp: c_def connection_with_def msg_protocol_def msg_clone_def msg_builder_new_def)
  have bt: "msg_frames.mgr_between mx (cn_manager c)" by (simp add: c(4) msg_frames.mgr_between_def msg_start_new)
  obtain m1 where m1: "mgr_feed msg_protocol w (cn_manager c) = Some (None, m1)" "msg_frames.mgr_between mx m1"
      "um_buffer m1 = []" "um_replies m1 = [msg_unit s]"
    using msg_frames.drain_frames [of mx "cn_manager c\<lparr>um_buffer := w\<rparr>" "[s]" "[w]"] bt assms(2) c(4)
    by (auto simp: mgr_feed_def msg_frames.mgr_between_def)
  let ?m = "m1\<lparr>um_replies := []\<rparr>"
  obtain d1 where d1: "read_done msg_protocol react (Some w) c = Some (None, d1)" "cn_socket d1"
      "cn_manager d1 = ?m" "received d1 = [(cb, msg_unit s)]"
    using read_done_stay [OF assms(4) c(1,2) m1(1)] c m1(4) by (auto simp: received_def)
  have okd: "conn_ok d1"
    using conn_input_keeps [OF q ok, of msg_protocol "Read_done (Some w)" d1] d1(1) keeps_ok ok
    by (auto simp: conn_input_step_def)
  obtain e1 where e1: "mgr_feed msg_protocol (pack n) (cn_manager d1) = Some (Some (Logic_error ''sz <= _msg_max_size''), e1)"
    using oversized_fails [of mx ?m n] m1(2,3) assms(3) d1(3) by (auto simp: msg_frames.mgr_between_def)
  obtain c1 where c1: "read_done msg_protocol react (Some (pack n)) d1 = Some (None, c1)" "\<not> cn_socket c1"
      "cn_log c1 = cn_log d1 @ gone_events d1 @ [Closed]"
    using read_done_malformed [OF q okd d1(2) e1] by blast
  have none: "(case ev of Received cb u \<Rightarrow> [(cb, u)] | _ \<Rightarrow> []) = []" if "ev \<in> set (gone_events x)"
    for ev :: "'c conn_event" and x :: "(msg_builder, 'c) connection"
    using that by (auto simp: gone_events_def)
  have "received c1 = received d1" using c1(3) none by (auto simp: received_def)
  obtain e2 where "mgr_feed msg_protocol (pack n) m1 = Some (Some (Logic_error ''sz <= _msg_max_size''), e2)"
    using oversized_fails [OF m1(2,3) assms(3)] by blast
  then have "mgr_feed msg_protocol (w @ pack n) (cn_manager c) = Some (Some (Logic_error ''sz <= _msg_max_size''), e2)"
    using msg.feed_feed [OF _ m1(1), of "pack n"] msg_frames.mgr_between_inv [OF bt] by simp
  from read_done_malformed [OF q ok c(1) this] obtain c2
    where c2: "read_done msg_protocol react (Some (w @ pack n)) c = Some (None, c2)" "\<not> cn_socket c2"
      "cn_log c2 = gone_events c @ [Closed]" using c(3) by auto
  have "received c2 = []" using c2(3) none by (auto simp: received_def)
  with \<open>received c1 = received d1\<close> d1 c1 c2 show ?thesis by (simp add: is_connected_def)
qed

lemma malformed_message_drops_its_read_witness:
  "\<exists>c1 c2. read_all msg_protocol quiet [pack 2 @ ''ab'', pack 11] (connection_with msg_conn [4] [] []) = Some (None, c1) \<and>
     received c1 = [(4, msg_unit ''ab'')] \<and>
     read_all msg_protocol quiet [(pack 2 @ ''ab'') @ pack 11] (connection_with msg_conn [4] [] []) = Some (None, c2) \<and>
     received c2 = []"
proof -
  have e: "msg_encode 10 ''ab'' = Inr (pack 2 @ ''ab'')" by (simp add: msg_encode_eq)
  have q: "stays quiet" by (simp add: stays_def quiet_def)
  have n: "10 < unat (11 :: 32 word)" by simp
  from malformed_message_drops_its_read [OF msg_conn_new e n q, of 4] show ?thesis by blast
qed

end
