(* ===== verification/Net_Endpoints.thy ===== *)
theory Net_Endpoints
  imports Connection
begin

text \<open>
  The ends that own connections: \<open>server\<close> with \<open>tcp_server_impl\<close> and \<open>unix_local_server_impl\<close>
  (src/network/server.cpp, src/network/transport/), and \<open>client\<close> (src/network/client.cpp). The operating
  system accepts connections, or fails to; each connection is a state of the theory of connections, to
  whose disconnection the owner subscribes before anybody else.
\<close>

section \<open>The server\<close>

text \<open>The subscribers of a connection: its owner, and those of the user.\<close>

datatype 'u subscriber = Owner | User 'u

datatype accept_result = Accepted | Aborted | Accept_error string

datatype server_event =
    Started
  | New_connection nat
  | Failed string

text \<open>
  The fields of both classes. \<open>sv_accepting\<close> is the id of the connection that waits in the acceptor;
  \<open>sv_accepted\<close> and \<open>sv_lost\<close> remember the ids that were stored and those whose disconnection was
  announced to the server.
\<close>

record ('b, 'u) server =
  sv_running :: bool
  sv_protocol :: "'b option"
  sv_chunk :: nat
  sv_acceptor :: bool
  sv_next :: nat
  sv_accepting :: "nat option"
  sv_conns :: "nat \<rightharpoonup> ('b, 'u subscriber) connection"
  sv_log :: "server_event list"
  sv_accepted :: "nat set"
  sv_lost :: "nat set"

text \<open>What the subscribers of new connections do with one: the subscriptions they make, their calls, their exception.\<close>

record 'u newcomer =
  wc_receivers :: "'u list"
  wc_gone_id :: "'u list"
  wc_gone :: "'u list"
  wc_acts :: "user_act list"
  wc_throws :: "srv_error option"

definition server_new :: "('b, 'u) server" where
  "server_new = \<lparr>sv_running = False, sv_protocol = None, sv_chunk = 0, sv_acceptor = False, sv_next = 0, sv_accepting = None,
     sv_conns = Map.empty, sv_log = [], sv_accepted = {}, sv_lost = {}\<rparr>"

text \<open>\<open>on_client_disconnected\<close>, when the connection announces its end to its owner.\<close>

definition on_client_disconnected :: "nat \<Rightarrow> ('b, 'u) server \<Rightarrow> ('b, 'u) server" where
  "on_client_disconnected i s = s\<lparr>sv_conns := (sv_conns s)(i := None), sv_lost := insert i (sv_lost s)\<rparr>"

text \<open>The state of a connection that the server holds changes to \<open>c\<close>.\<close>

definition update_server_conn :: "nat \<Rightarrow> ('b, 'u subscriber) connection \<Rightarrow> ('b, 'u) server \<Rightarrow> ('b, 'u) server" where
  "update_server_conn i c s =
     (if Gone_id Owner (cn_id c) \<in> set (cn_log c) then on_client_disconnected i s
      else s\<lparr>sv_conns := (sv_conns s)(i \<mapsto> c)\<rparr>)"

text \<open>\<open>accept\<close>: the next connection waits in the acceptor.\<close>

definition accept :: "('b, 'u) server \<Rightarrow> ('b, 'u) server" where
  "accept s = s\<lparr>sv_accepting := Some (sv_next s), sv_next := Suc (sv_next s)\<rparr>"

text \<open>
  \<open>start\<close> with a configuration that is valid or not; the handler of the start of the pool, in
  which opening, binding and listening may throw \<open>err\<close>. The id of the first connection is the transport's.
\<close>

definition server_start :: "bool \<Rightarrow> nat \<Rightarrow> nat \<Rightarrow> 'b \<Rightarrow> ('b, 'u) server \<Rightarrow> ('b, 'u) server" where
  "server_start valid first chunk protocol s =
     (if sv_running s \<or> \<not> valid then s
      else s\<lparr>sv_running := True, sv_protocol := Some protocol, sv_chunk := chunk, sv_next := first,
             sv_accepting := None, sv_acceptor := False, sv_accepted := {}, sv_lost := {}\<rparr>)"

definition server_listen :: "string option \<Rightarrow> ('b, 'u) server \<Rightarrow> ('b, 'u) server" where
  "server_listen err s =
     (case err of
        Some what \<Rightarrow> s\<lparr>sv_log := sv_log s @ [Failed what]\<rparr>
      | None \<Rightarrow> (accept (s\<lparr>sv_acceptor := True\<rparr>))\<lparr>sv_log := sv_log s @ [Started]\<rparr>)"

text \<open>
  \<open>on_new_client\<close>: the exception, if any, goes to the handler of the acceptor. The connection
  stays with the server when a subscriber throws.
\<close>

definition subscribe_user ::
    "'u newcomer \<Rightarrow> ('b, 'u subscriber) connection \<Rightarrow> ('b, 'u subscriber) connection" where
  "subscribe_user w c = connection_with c (map User (wc_receivers w)) (Owner # map User (wc_gone_id w)) (map User (wc_gone w))"

definition on_new_client ::
    "'b unit_builder_i \<Rightarrow> 'u subscriber reaction \<Rightarrow> 'u newcomer \<Rightarrow> nat \<Rightarrow> ('b, 'u) server \<Rightarrow> srv_error option \<times> ('b, 'u) server" where
  "on_new_client vt react w i s =
     (if \<not> sv_running s then (None, s)
      else case connection_new vt i (sv_chunk s) (sv_protocol s) of
        Inl e \<Rightarrow> (Some e, s)
      | Inr c0 \<Rightarrow>
          (let s1 = s\<lparr>sv_accepted := insert i (sv_accepted s), sv_log := sv_log s @ [New_connection i]\<rparr>;
               (e, c) = run_acts react (wc_acts w) (subscribe_user w c0)
           in case (case e of None \<Rightarrow> wc_throws w | Some x \<Rightarrow> Some x) of
                Some x \<Rightarrow> (Some x, update_server_conn i c s1)
              | None \<Rightarrow> (None, update_server_conn i (async_read c) s1)))"

text \<open>The handler of the acceptor: it accepts the next connection before it serves this one.\<close>

definition accept_done ::
    "'b unit_builder_i \<Rightarrow> 'u subscriber reaction \<Rightarrow> 'u newcomer \<Rightarrow> accept_result \<Rightarrow> ('b, 'u) server \<Rightarrow> ('b, 'u) server" where
  "accept_done vt react w r s =
     (case sv_accepting s of
        None \<Rightarrow> s
      | Some i \<Rightarrow>
          (let s' = (if r = Aborted then s\<lparr>sv_accepting := None\<rparr> else accept s)
           in case r of
                Aborted \<Rightarrow> s'
              | Accept_error msg \<Rightarrow> s'\<lparr>sv_log := sv_log s' @ [Failed msg]\<rparr>
              | Accepted \<Rightarrow>
                  (case on_new_client vt react w i s' of
                     (None, s'') \<Rightarrow> s''
                   | (Some e, s'') \<Rightarrow> s''\<lparr>sv_log := sv_log s'' @ [Failed ''exception'']\<rparr>)))"

text \<open>Something happens on a connection that the server holds.\<close>

definition conn_event ::
    "'b unit_builder_i \<Rightarrow> 'u subscriber reaction \<Rightarrow> nat \<Rightarrow> conn_input \<Rightarrow> ('b, 'u) server \<Rightarrow> ('b, 'u) server" where
  "conn_event vt react i inp s =
     (case sv_conns s i of
        None \<Rightarrow> s
      | Some c \<Rightarrow> (case conn_input_step vt react inp c of None \<Rightarrow> s | Some c' \<Rightarrow> update_server_conn i c' s))"

text \<open>
  \<open>stop\<close>: refused in a thread of the pool, after the acceptor was closed. With \<open>wait_for_removal\<close>
  every connection is disconnected, those in \<open>order\<close>; without it they are only released.
\<close>

definition disconnect_conn ::
    "'b unit_builder_i \<Rightarrow> 'u subscriber reaction \<Rightarrow> nat \<Rightarrow> ('b, 'u) server \<Rightarrow> ('b, 'u) server" where
  "disconnect_conn vt react i = conn_event vt react i (Act U_disconnect)"

definition server_stop ::
    "'b unit_builder_i \<Rightarrow> 'u subscriber reaction \<Rightarrow> bool \<Rightarrow> bool \<Rightarrow> nat list \<Rightarrow> ('b, 'u) server \<Rightarrow> srv_error option \<times> ('b, 'u) server" where
  "server_stop vt react in_worker wait_for_removal order s =
     (if \<not> sv_running s then (None, s)
      else (let s1 = s\<lparr>sv_acceptor := False, sv_accepting := None\<rparr>
            in if in_worker
               then (Some (Logic_error ''Can't initiate thread stop in the same thread. It is the way to deadlock''), s1)
               else (let s2 = (if wait_for_removal then fold (disconnect_conn vt react) order s1 else s1)
                     in (None, s2\<lparr>sv_running := False, sv_conns := Map.empty, sv_protocol := None\<rparr>))))"

text \<open>
  \<open>wait\<close>, which for a running server and its stop does not return, which is none; and \<open>post\<close>, which drops
  the task of a server that does not run.
\<close>

definition server_wait :: "bool \<Rightarrow> ('b, 'u) server \<Rightarrow> bool option" where
  "server_wait wait_until_stop s =
     (if \<not> sv_running s then Some False else if wait_until_stop then None else Some True)"

definition server_post :: "'t \<Rightarrow> ('b, 'u) server \<Rightarrow> 't list \<Rightarrow> 't list" where
  "server_post callback s queue = (if sv_running s then queue @ [callback] else queue)"

text \<open>A server that cannot bind or listen tells its subscribers, goes on running, and accepts nothing.\<close>

lemma deaf_stream_server:
  assumes "\<not> sv_running s"
  shows "let s' = server_listen (Some e) (server_start True first chunk protocol s)
    in server_wait True s' = None \<and> sv_log s' = sv_log s @ [Failed e] \<and> accept_done vt react w r s' = s'"
  using assms by (simp add: server_listen_def server_start_def server_wait_def accept_done_def Let_def)

section \<open>The server holds the connections that are connected\<close>

definition holds :: "('b, 'u) server \<Rightarrow> bool" where
  "holds s \<longleftrightarrow>
     (\<forall>i c. sv_conns s i = Some c \<longrightarrow> conn_ok c \<and> cn_socket c \<and> cn_id c = i \<and> (\<exists>gs. cn_gone_id c = Owner # gs)) \<and>
     (if sv_running s then dom (sv_conns s) = sv_accepted s - sv_lost s else sv_conns s = Map.empty) \<and>
     sv_lost s \<subseteq> sv_accepted s \<and>
     (\<forall>i \<in> sv_accepted s. i < sv_next s) \<and> (\<forall>i. sv_accepting s = Some i \<longrightarrow> i < sv_next s \<and> i \<notin> sv_accepted s)"

lemma gone_id_logged:
  assumes "conn_ok c" and "cn_gone_id c = Owner # gs"
  shows "Gone_id Owner (cn_id c) \<in> set (cn_log c) \<longleftrightarrow> \<not> cn_socket c"
proof -
  have "Gone_id Owner (cn_id c) \<in> set (cn_log c) \<longleftrightarrow> Gone_id Owner (cn_id c) \<in> set (gone_log c)"
    by (simp add: gone_log_def is_gone_def)
  also have "\<dots> \<longleftrightarrow> \<not> cn_socket c" using assms by (auto simp: conn_ok_def gone_events_def)
  finally show ?thesis .
qed

lemma update_server_conn_holds:
  assumes "holds s" and "i \<in> dom (sv_conns s)" and "conn_ok c" and "cn_id c = i" and "cn_gone_id c = Owner # gs"
  shows "holds (update_server_conn i c s)"
proof -
  have r: "sv_running s" using assms(1,2) by (auto simp: holds_def split: if_splits)
  show ?thesis
  proof (cases "cn_socket c")
    case True
    then have "Gone_id Owner (cn_id c) \<notin> set (cn_log c)" using gone_id_logged [OF assms(3,5)] by simp
    then show ?thesis using assms True r by (auto simp: update_server_conn_def holds_def)
  next
    case False
    then have "Gone_id Owner (cn_id c) \<in> set (cn_log c)" using gone_id_logged [OF assms(3,5)] by simp
    then show ?thesis using assms r by (auto simp: update_server_conn_def on_client_disconnected_def holds_def)
  qed
qed

lemma update_server_conn_new:
  assumes "holds s" and "sv_running s" and "i \<notin> sv_accepted s" and "i < sv_next s" and "sv_accepting s \<noteq> Some i"
    and "conn_ok c" and "cn_id c = i" and "cn_gone_id c = Owner # gs"
  shows "holds (update_server_conn i c (s\<lparr>sv_accepted := insert i (sv_accepted s), sv_log := l\<rparr>))"
proof (cases "cn_socket c")
  case True
  then have "Gone_id Owner (cn_id c) \<notin> set (cn_log c)" using gone_id_logged [OF assms(6,8)] by simp
  then show ?thesis using assms True by (auto simp: update_server_conn_def holds_def)
next
  case False
  then have "Gone_id Owner (cn_id c) \<in> set (cn_log c)" using gone_id_logged [OF assms(6,8)] by simp
  then show ?thesis using assms by (auto simp: update_server_conn_def on_client_disconnected_def holds_def)
qed

lemma conn_event_holds:
  assumes "holds s" and "gone_quiet react"
  shows "holds (conn_event vt react i inp s)"
proof (cases "sv_conns s i")
  case (Some c)
  then have c: "conn_ok c" "cn_id c = i" and gs: "\<exists>gs. cn_gone_id c = Owner # gs"
    using assms(1) by (auto simp: holds_def)
  show ?thesis
  proof (cases "conn_input_step vt react inp c")
    case (Some c')
    have k: "keeps c c'" using conn_input_keeps [OF assms(2) c(1) Some] .
    then have "cn_id c' = i" "cn_gone_id c' = cn_gone_id c" using c(2) by (auto simp: keeps_def same_subscribers_def)
    with gs \<open>sv_conns s i = Some c\<close> Some keeps_ok [OF k c(1)] show ?thesis
      using update_server_conn_holds [OF assms(1), of i c'] by (auto simp: conn_event_def)
  qed (use assms(1) Some in \<open>simp add: conn_event_def\<close>)
qed (use assms(1) in \<open>simp add: conn_event_def\<close>)

lemma on_new_client_holds:
  fixes s :: "('a, 'b) server"
  assumes "holds s" and "gone_quiet react" and "i \<notin> sv_accepted s" and "i < sv_next s" and "sv_accepting s \<noteq> Some i"
  shows "holds (snd (on_new_client vt react w i s))"
proof (cases "sv_running s")
  case True
  show ?thesis
  proof (cases "connection_new vt i (sv_chunk s) (sv_protocol s) :: ('a, 'b subscriber) connection result")
    case (Inr c0)
    let ?c = "subscribe_user w c0"
    have ok: "conn_ok ?c" unfolding subscribe_user_def using Inr by (rule connection_with_ok)
    have id: "cn_id ?c = i" "cn_gone_id ?c = Owner # map User (wc_gone_id w)"
      using connection_new_eq [OF Inr] by (auto simp: subscribe_user_def connection_with_def)
    obtain c where c: "run_acts react (wc_acts w) ?c = (None, c)" and k: "keeps ?c c"
      using run_acts_keeps [OF assms(2) ok] by blast
    have "cn_id c = i" "cn_gone_id c = Owner # map User (wc_gone_id w)" "conn_ok c"
      using k id keeps_ok [OF k ok] by (auto simp: keeps_def same_subscribers_def)
    moreover have "conn_ok (async_read c)" "cn_id (async_read c) = cn_id c" "cn_gone_id (async_read c) = cn_gone_id c"
      using \<open>conn_ok c\<close> by (auto simp: async_read_def conn_ok_def gone_log_def gone_events_def)
    ultimately show ?thesis
      using update_server_conn_new [OF assms(1) True assms(3-5)] Inr c True
      by (cases "wc_throws w") (auto simp: on_new_client_def)
  qed (use assms(1) True in \<open>simp add: on_new_client_def\<close>)
qed (use assms(1) in \<open>simp add: on_new_client_def\<close>)

lemma holds_log: "holds (s\<lparr>sv_log := l\<rparr>) = holds s"
  by (simp add: holds_def)

lemma accept_done_holds:
  assumes "holds s" and "gone_quiet react"
  shows "holds (accept_done vt react w r s)"
proof (cases "sv_accepting s")
  case (Some i)
  have a: "holds (accept s)"
    using assms(1) by (auto simp: holds_def accept_def less_Suc_eq)
  have i: "i \<notin> sv_accepted (accept s)" "i < sv_next (accept s)" "sv_accepting (accept s) \<noteq> Some i"
    using assms(1) Some by (auto simp: holds_def accept_def)
  have n: "holds (snd (on_new_client vt react w i (accept s)))"
    using on_new_client_holds [OF a assms(2) i] .
  show ?thesis
  proof (cases r)
    case Aborted
    then show ?thesis using Some assms(1) by (simp add: accept_done_def holds_def)
  next
    case (Accept_error msg)
    then show ?thesis using Some a by (simp add: accept_done_def holds_log Let_def)
  next
    case Accepted
    then show ?thesis using Some n by (auto simp: accept_done_def holds_log Let_def split: prod.splits option.splits)
  qed
qed (use assms(1) in \<open>simp add: accept_done_def\<close>)

lemma fold_disconnect_holds:
  assumes "gone_quiet react"
  shows "holds s \<Longrightarrow> holds (fold (disconnect_conn vt react) order s)"
  by (induction order arbitrary: s) (simp_all add: disconnect_conn_def conn_event_holds assms)

lemma holds_stopped: "holds s \<Longrightarrow> holds (s\<lparr>sv_running := False, sv_conns := Map.empty, sv_protocol := None\<rparr>)"
  by (auto simp: holds_def)

lemma server_stop_holds:
  assumes "holds s" and "gone_quiet react"
  shows "holds (snd (server_stop vt react in_worker wait order s))"
proof -
  have "holds (s\<lparr>sv_acceptor := False, sv_accepting := None\<rparr>)" using assms(1) by (simp add: holds_def)
  from fold_disconnect_holds [OF assms(2) this] this show ?thesis
    using assms(1) by (simp add: server_stop_def holds_stopped Let_def)
qed

section \<open>Runs of a server\<close>

datatype ('b, 'u) server_input =
    Sv_start bool nat nat 'b
  | Sv_listen "string option"
  | Sv_accept "'u newcomer" accept_result
  | Sv_conn nat conn_input
  | Sv_stop bool bool "nat list"

fun server_step ::
    "'b unit_builder_i \<Rightarrow> 'u subscriber reaction \<Rightarrow> ('b, 'u) server_input \<Rightarrow> ('b, 'u) server \<Rightarrow> ('b, 'u) server" where
  "server_step vt react (Sv_start valid first chunk protocol) s = server_start valid first chunk protocol s"
| "server_step vt react (Sv_listen err) s = (if sv_running s \<and> sv_accepting s = None then server_listen err s else s)"
| "server_step vt react (Sv_accept w r) s = accept_done vt react w r s"
| "server_step vt react (Sv_conn i inp) s = conn_event vt react i inp s"
| "server_step vt react (Sv_stop in_worker wait order) s = snd (server_stop vt react in_worker wait order s)"

lemma server_step_holds:
  assumes "holds s" and "gone_quiet react"
  shows "holds (server_step vt react inp s)"
proof (cases inp)
  case (Sv_listen err)
  have "holds (accept (s\<lparr>sv_acceptor := True\<rparr>))"
    using assms(1) by (auto simp: holds_def accept_def less_Suc_eq)
  then show ?thesis using Sv_listen assms(1) by (auto simp: server_listen_def holds_log split: option.splits)
next
  case (Sv_start valid first chunk protocol)
  then show ?thesis using assms(1) by (auto simp: server_start_def holds_def)
qed (use assms in \<open>simp_all add: accept_done_holds conn_event_holds server_stop_holds\<close>)

lemma server_run_holds:
  assumes "gone_quiet react"
  shows "holds s \<Longrightarrow> holds (fold (server_step vt react) inps s)"
  by (induction inps arbitrary: s) (simp_all add: server_step_holds assms)

lemma server_new_holds: "holds server_new"
  by (simp add: holds_def server_new_def)


definition calm :: "nat subscriber reaction" where
  "calm ev = ([], None)"


section \<open>The client\<close>

text \<open>
  \<open>cl_past\<close> remembers the connections that the client has let go. \<open>cl_failed\<close> is what its
  subscribers to failures were told.
\<close>

record ('b, 'u) client =
  cl_impl :: bool
  cl_protocol :: "'b option"
  cl_conn :: "('b, 'u subscriber) connection option"
  cl_past :: "('b, 'u subscriber) connection list"
  cl_failed :: "string list"

definition client_new :: "('b, 'u) client" where
  "client_new = \<lparr>cl_impl = False, cl_protocol = None, cl_conn = None, cl_past = [], cl_failed = []\<rparr>"

text \<open>\<open>on_diconnect_impl\<close>: the id of the connection that ended is that of the one the client has, or it throws.\<close>

definition client_on_disconnect :: "('b, 'u subscriber) connection \<Rightarrow> ('b, 'u) client \<Rightarrow> ('b, 'u) client" where
  "client_on_disconnect c k = k\<lparr>cl_conn := None, cl_past := cl_past k @ [c]\<rparr>"

definition client_update :: "('b, 'u subscriber) connection \<Rightarrow> ('b, 'u) client \<Rightarrow> ('b, 'u) client" where
  "client_update c k =
     (if Gone_id Owner (cn_id c) \<in> set (cn_log c) then client_on_disconnect c k else k\<lparr>cl_conn := Some c\<rparr>)"

definition client_clear :: "'u subscriber reaction \<Rightarrow> ('b, 'u) client \<Rightarrow> srv_error option \<times> ('b, 'u) client" where
  "client_clear react k =
     (case cl_conn k of
        None \<Rightarrow> (None, k\<lparr>cl_impl := False, cl_protocol := None\<rparr>)
      | Some c \<Rightarrow>
          (case raw_disconnect react c of
             (Some e, c') \<Rightarrow> (Some e, client_update c' k)
           | (None, c') \<Rightarrow> (None, (client_update c' k)\<lparr>cl_conn := None, cl_impl := False, cl_protocol := None\<rparr>)))"

text \<open>
  \<open>connect_impl\<close>: \<open>config\<close> is the protocol of a valid configuration, or the exception of
  \<open>create_impl\<close>; \<open>started\<close> is the answer of the transport.
\<close>

definition client_connect ::
    "'u subscriber reaction \<Rightarrow> 'b result \<Rightarrow> bool \<Rightarrow> ('b, 'u) client \<Rightarrow> bool \<times> ('b, 'u) client" where
  "client_connect react config started k =
     (case client_clear react k of
        (Some e, k') \<Rightarrow> (False, k')
      | (None, k') \<Rightarrow>
          (case config of
             Inl e \<Rightarrow> (False, k')
           | Inr b \<Rightarrow> (started, k'\<lparr>cl_impl := True, cl_protocol := Some b\<rparr>)))"

definition client_on_connect ::
    "'b unit_builder_i \<Rightarrow> 'u subscriber reaction \<Rightarrow> 'u newcomer \<Rightarrow> nat \<Rightarrow> nat \<Rightarrow> ('b, 'u) client \<Rightarrow> ('b, 'u) client" where
  "client_on_connect vt react w i chunk k =
     (if \<not> cl_impl k then k
      else case connection_new vt i chunk (cl_protocol k) of
        Inl e \<Rightarrow> k
      | Inr c0 \<Rightarrow>
          (let (e, c) = run_acts react (wc_acts w) (subscribe_user w c0)
           in client_update (if e = None \<and> wc_throws w = None then async_read c else c) k))"

definition client_on_fail :: "string \<Rightarrow> ('b, 'u) client \<Rightarrow> ('b, 'u) client" where
  "client_on_fail msg k = k\<lparr>cl_failed := cl_failed k @ [msg]\<rparr>"

definition client_conn_event ::
    "'b unit_builder_i \<Rightarrow> 'u subscriber reaction \<Rightarrow> conn_input \<Rightarrow> ('b, 'u) client \<Rightarrow> ('b, 'u) client" where
  "client_conn_event vt react inp k =
     (case cl_conn k of
        None \<Rightarrow> k
      | Some c \<Rightarrow> (case conn_input_step vt react inp c of None \<Rightarrow> k | Some c' \<Rightarrow> client_update c' k))"

text \<open>The connection of a client is connected, and all that it has let go were told.\<close>

definition client_ok :: "('b, 'u) client \<Rightarrow> bool" where
  "client_ok k \<longleftrightarrow>
     (\<forall>c. cl_conn k = Some c \<longrightarrow> conn_ok c \<and> cn_socket c \<and> (\<exists>gs. cn_gone_id c = Owner # gs)) \<and>
     (\<forall>c \<in> set (cl_past k). gone_log c = gone_events c \<and> \<not> cn_socket c)"

lemma client_update_ok:
  assumes "client_ok k" and "conn_ok c" and "cn_gone_id c = Owner # gs"
  shows "client_ok (client_update c k)"
  using assms gone_id_logged [OF assms(2,3)]
  by (auto simp: client_ok_def client_update_def client_on_disconnect_def conn_ok_def split: if_splits)

lemma client_clear_ok:
  assumes "client_ok k" and "gone_quiet react"
  shows "\<exists>k'. client_clear react k = (None, k') \<and> client_ok k' \<and> cl_conn k' = None \<and>
    length (cl_past k') = length (cl_past k) + (if cl_conn k = None then 0 else 1)"
proof (cases "cl_conn k")
  case (Some c)
  then obtain gs where c: "conn_ok c" "cn_socket c" "cn_gone_id c = Owner # gs"
    using assms(1) by (auto simp: client_ok_def)
  obtain c' where c': "raw_disconnect react c = (None, c')" "keeps c c'" "\<not> cn_socket c'"
    using raw_disconnect_ok [OF assms(2) c(1)] by blast
  have ok: "conn_ok c'" "cn_gone_id c' = Owner # gs"
    using c'(2) c keeps_ok by (auto simp: keeps_def same_subscribers_def)
  then have "client_update c' k = client_on_disconnect c' k"
    using gone_id_logged [OF ok] c'(3) by (simp add: client_update_def)
  then show ?thesis
    using Some c' client_update_ok [OF assms(1) ok]
    by (auto simp: client_clear_def client_ok_def client_on_disconnect_def)
qed (use assms(1) in \<open>simp add: client_clear_def client_ok_def\<close>)

lemma client_conn_event_ok:
  assumes "client_ok k" and "gone_quiet react"
  shows "client_ok (client_conn_event vt react inp k)"
proof (cases "cl_conn k")
  case (Some c)
  then obtain gs where c: "conn_ok c" "cn_gone_id c = Owner # gs" using assms(1) by (auto simp: client_ok_def)
  show ?thesis
  proof (cases "conn_input_step vt react inp c")
    case (Some c')
    have k: "keeps c c'" using conn_input_keeps [OF assms(2) c(1) Some] .
    have "cn_gone_id c' = Owner # gs" using k c(2) by (simp add: keeps_def same_subscribers_def)
    with client_update_ok [OF assms(1) keeps_ok [OF k c(1)]] Some \<open>cl_conn k = Some c\<close> show ?thesis
      by (simp add: client_conn_event_def)
  qed (use assms(1) Some in \<open>simp add: client_conn_event_def\<close>)
qed (use assms(1) in \<open>simp add: client_conn_event_def\<close>)

end
