(* ===== verification/Version.thy ===== *)
theory Version
  imports Prelude "HOL-Library.Char_ord"
begin

unbundle bit_operations_syntax

text \<open>
  Versions: \<open>version\<close> and \<open>version_ext\<close> (src/version.cpp), their order, their rendering and
  their parser, with the formatted input of \<open>std::stringstream\<close> that it uses.
\<close>

section \<open>Versions\<close>

datatype version = Version (v_num: "32 word")

definition version_new :: "8 word \<Rightarrow> 8 word \<Rightarrow> 16 word \<Rightarrow> version" where
  "version_new major minor patch =
     (let v = push_bit 8 (0 OR ucast major :: 32 word);
          v = push_bit 16 (v OR ucast minor)
      in Version (v OR ucast patch))"

definition major_v :: "version \<Rightarrow> 8 word" where
  "major_v v = ucast (drop_bit 24 (v_num v) AND 0x000000FF)"

definition minor_v :: "version \<Rightarrow> 8 word" where
  "minor_v v = ucast (drop_bit 16 (v_num v) AND 0x000000FF)"

definition patch :: "version \<Rightarrow> 16 word" where
  "patch v = ucast (v_num v AND 0x0000FFFF)"

definition version_le :: "version \<Rightarrow> version \<Rightarrow> bool" where
  "version_le a b \<longleftrightarrow> v_num a \<le> v_num b"

definition version_lt :: "version \<Rightarrow> version \<Rightarrow> bool" where
  "version_lt a b \<longleftrightarrow> v_num a < v_num b"

instantiation version :: linorder
begin

definition less_eq_version :: "version \<Rightarrow> version \<Rightarrow> bool" where
  "less_eq_version = version_le"

definition less_version :: "version \<Rightarrow> version \<Rightarrow> bool" where
  "less_version = version_lt"

instance
  by standard (auto simp: less_eq_version_def less_version_def version_le_def version_lt_def version.expand)

end

definition version_empty :: "version \<Rightarrow> bool" where
  "version_empty v \<longleftrightarrow> v_num v = 0"

definition version_to_string :: "version \<Rightarrow> string" where
  "version_to_string v =
     to_dec (unat (major_v v)) @ ''.'' @ to_dec (unat (minor_v v)) @ ''.'' @ to_dec (unat (patch v))"

lemma bit_8: "bit (w :: 8 word) n \<Longrightarrow> n < 8"
  using bit_imp_le_length [of w n] by simp

lemma bit_16: "bit (w :: 16 word) n \<Longrightarrow> n < 16"
  using bit_imp_le_length [of w n] by simp

lemma v_num_new:
  "unat (v_num (version_new a b c)) = unat a * 2 ^ 24 + unat b * 2 ^ 16 + unat c"
proof -
  let ?a = "push_bit 24 (ucast a :: 32 word)" and ?b = "push_bit 16 (ucast b :: 32 word)" and ?c = "ucast c :: 32 word"
  have v: "v_num (version_new a b c) = ?a OR ?b OR ?c"
    by (simp add: version_new_def Let_def push_bit_or or.assoc)
  have n: "unat a < 256" "unat b < 256" "unat c < 65536"
    using unsigned_less [of a, where ?'a = nat] unsigned_less [of b, where ?'a = nat] unsigned_less [of c, where ?'a = nat]
    by simp_all
  have d1: "?b OR ?c = ?b + ?c"
    by (rule disjunctive_add [symmetric]) (auto simp: bit_push_bit_iff bit_ucast_iff dest: bit_16)
  have d2: "?a OR (?b OR ?c) = ?a + (?b OR ?c)"
    by (rule disjunctive_add [symmetric])
      (auto simp: bit_push_bit_iff bit_ucast_iff bit_or_iff dest: bit_16 bit_8)
  have ua: "unat ?a = unat a * 2 ^ 24"
    using n(1) by (simp only: unsigned_push_bit_eq unsigned_ucast_eq take_bit_nat_eq_self push_bit_nat_def)
      (simp add: take_bit_nat_eq_self push_bit_eq_mult unsigned_ucast_eq)
  have ub: "unat ?b = unat b * 2 ^ 16"
    using n(2) by (simp only: unsigned_push_bit_eq unsigned_ucast_eq take_bit_nat_eq_self push_bit_nat_def)
      (simp add: take_bit_nat_eq_self push_bit_eq_mult unsigned_ucast_eq)
  have uc: "unat ?c = unat c"
    using n(3) by (simp add: unsigned_ucast_eq take_bit_nat_eq_self)
  have s: "unat (?b + ?c) = unat b * 2 ^ 16 + unat c"
    using n ub uc by (subst unat_add_lem [THEN iffD1]) simp_all
  have "unat (?a + (?b + ?c)) = unat a * 2 ^ 24 + (unat b * 2 ^ 16 + unat c)"
    using n ua s by (subst unat_add_lem [THEN iffD1]) simp_all
  then show ?thesis using v d1 d2 by (simp add: or.assoc)
qed

lemma and_mask_nat: "(n :: nat) AND 255 = n mod 256" "(n :: nat) AND 65535 = n mod 65536"
  using take_bit_eq_mask [of 8 n] take_bit_eq_mask [of 16 n]
  by (simp_all add: mask_eq_exp_minus_1 take_bit_eq_mod)

lemma packed_parts:
  assumes "y < 256" "z < 65536"
  shows "((x :: nat) * 16777216 + y * 65536 + z) div 65536 mod 256 = y"
    and "(x * 16777216 + y * 65536 + z) mod 65536 = z"
proof -
  have e: "x * 16777216 + y * 65536 + z = z + (y + x * 256) * 65536" by simp
  show "(x * 16777216 + y * 65536 + z) div 65536 mod 256 = y"
    unfolding e using assms by (subst div_mult_self1) simp_all
  show "(x * 16777216 + y * 65536 + z) mod 65536 = z"
    unfolding e using assms by (subst mod_mult_self1) simp
qed

lemma unpacked_whole: "(x :: nat) div 16777216 * 16777216 + x div 65536 mod 256 * 65536 + x mod 65536 = x"
proof -
  let ?y = "x div 65536"
  have d: "x div 16777216 = ?y div 256" by (simp add: div_mult2_eq [symmetric])
  have y: "?y div 256 * 256 + ?y mod 256 = ?y" by (rule div_mult_mod_eq)
  have "?y * 65536 + x mod 65536 = x" by (rule div_mult_mod_eq)
  moreover have "?y div 256 * 16777216 + ?y mod 256 * 65536 = (?y div 256 * 256 + ?y mod 256) * 65536"
    unfolding add_mult_distrib mult.assoc by simp
  ultimately show ?thesis unfolding d by (simp only: y)
qed

lemma unat_parts:
  "unat (major_v v) = unat (v_num v) div 2 ^ 24"
  "unat (minor_v v) = unat (v_num v) div 2 ^ 16 mod 256"
  "unat (patch v) = unat (v_num v) mod 2 ^ 16"
proof -
  have "unat (v_num v) < 2 ^ 32" using unsigned_less [of "v_num v", where ?'a = nat] by simp
  then have m: "unat (v_num v) mod 4294967296 = unat (v_num v)" "unat (v_num v) div 2 ^ 24 < 256" by simp_all
  then show "unat (major_v v) = unat (v_num v) div 2 ^ 24"
    by (simp add: major_v_def unsigned_ucast_eq unsigned_drop_bit_eq unsigned_and_eq and_mask_nat
        drop_bit_nat_def take_bit_eq_mod)
  show "unat (minor_v v) = unat (v_num v) div 2 ^ 16 mod 256" "unat (patch v) = unat (v_num v) mod 2 ^ 16"
    using m(1) by (simp_all add: minor_v_def patch_def unsigned_ucast_eq unsigned_drop_bit_eq unsigned_and_eq and_mask_nat
        drop_bit_nat_def take_bit_eq_mod)
qed

lemma parts_new:
  "major_v (version_new a b c) = a" "minor_v (version_new a b c) = b" "patch (version_new a b c) = c"
proof -
  have n: "unat b < 256" "unat c < 65536"
    using unsigned_less [of b, where ?'a = nat] unsigned_less [of c, where ?'a = nat] by simp_all
  then show "major_v (version_new a b c) = a" "minor_v (version_new a b c) = b" "patch (version_new a b c) = c"
    by (simp_all add: word_unat_eq_iff unat_parts v_num_new packed_parts)
qed

text \<open>
  The comparison of versions is that of the triples of their components, and the components are what
  the version was constructed from.\<close>
lemma version_order_is_lexicographic:
  "major_v (version_new a b c) = a \<and> minor_v (version_new a b c) = b \<and> patch (version_new a b c) = c \<and>
   (version_new a b c < version_new a' b' c' \<longleftrightarrow>
      a < a' \<or> a = a' \<and> (b < b' \<or> b = b' \<and> c < c')) \<and>
   (version_new a b c = version_new a' b' c' \<longleftrightarrow> a = a' \<and> b = b' \<and> c = c')"
proof -
  have n: "unat a < 256" "unat b < 256" "unat c < 65536" "unat a' < 256" "unat b' < 256" "unat c' < 65536"
    using unsigned_less [of a, where ?'a = nat] unsigned_less [of b, where ?'a = nat] unsigned_less [of c, where ?'a = nat]
      unsigned_less [of a', where ?'a = nat] unsigned_less [of b', where ?'a = nat] unsigned_less [of c', where ?'a = nat]
    by simp_all
  have "version_new a b c < version_new a' b' c' \<longleftrightarrow>
      a < a' \<or> a = a' \<and> (b < b' \<or> b = b' \<and> c < c')"
    using n by (auto simp: less_version_def version_lt_def word_less_nat_alt word_unat_eq_iff v_num_new)
  moreover have "version_new a b c = version_new a' b' c' \<longleftrightarrow> a = a' \<and> b = b' \<and> c = c'"
    by (metis parts_new)
  ultimately show ?thesis using parts_new by simp
qed

section \<open>Formatted input\<close>

text \<open>
  A \<open>std::stringstream\<close> that is read: what is left of it, \<open>eofbit\<close> and \<open>failbit\<close>. \<open>sentry\<close> is what every
  formatted input starts with: on a stream that is not good it only sets \<open>failbit\<close>, otherwise it skips white
  space and sets both bits when there is nothing else. \<open>read_u32\<close> is \<open>operator>>\<close> for \<open>uint32_t\<close> (a negative
  number wraps, one that does not fit leaves the greatest value and \<open>failbit\<close>, no digits leave zero and
  \<open>failbit\<close>), \<open>read_char\<close> the one for \<open>char\<close>. Both leave their target alone when the sentry fails.
\<close>

record istream =
  is_rest :: string
  is_eof :: bool
  is_fail :: bool

definition is_new :: "string \<Rightarrow> istream" where
  "is_new s = \<lparr>is_rest = s, is_eof = False, is_fail = False\<rparr>"

definition sentry :: "istream \<Rightarrow> bool \<times> istream" where
  "sentry s =
     (if is_eof s \<or> is_fail s then (False, s\<lparr>is_fail := True\<rparr>)
      else
        let r = dropWhile is_space (is_rest s)
        in if r = [] then (False, s\<lparr>is_rest := [], is_eof := True, is_fail := True\<rparr>)
           else (True, s\<lparr>is_rest := r\<rparr>))"

definition read_u32 :: "32 word \<Rightarrow> istream \<Rightarrow> 32 word \<times> istream" where
  "read_u32 old s =
     (case sentry s of
        (False, s) \<Rightarrow> (old, s)
      | (True, s) \<Rightarrow>
          let (neg, r) = split_sign (is_rest s);
              ds = digits_prefix 10 r;
              n = nat_of_digits 10 ds;
              rest = drop (length ds) r;
              s = s\<lparr>is_rest := rest, is_eof := (rest = [])\<rparr>
          in if ds = [] then (0, s\<lparr>is_fail := True\<rparr>)
             else if n \<ge> 2 ^ 32 then (- 1, s\<lparr>is_fail := True\<rparr>)
             else (if neg then - word_of_nat n else word_of_nat n, s))"

definition read_char :: "char \<Rightarrow> istream \<Rightarrow> char \<times> istream" where
  "read_char old s =
     (case sentry s of
        (False, s) \<Rightarrow> (old, s)
      | (True, s) \<Rightarrow> (hd (is_rest s), s\<lparr>is_rest := tl (is_rest s)\<rparr>))"

section \<open>The parser\<close>

definition version_from_string :: "string \<Rightarrow> version result" where
  "version_from_string input =
     (let (major, s) = read_u32 0 (is_new input);
          (dot_a, s) = read_char (char_of (0::nat)) s;
          (hardfork, s) = read_u32 0 s;
          (dot_b, s) = read_char (char_of (0::nat)) s;
          (revision, s) = read_u32 0 s
      in srv_assert ((dot_a = CHR ''.'' \<or> dot_a = CHR ''_'') \<and> dot_a = dot_b)
           ''Input string does not contain proper dotted decimal format''
           (srv_assert (major \<le> 0xFF) ''Major version is out of range''
           (srv_assert (hardfork \<le> 0xFF) ''Minor/Hardfork version is out of range''
           (srv_assert (revision \<le> 0xFFFF) ''Patch/Revision version is out of range''
           (srv_assert (is_eof s) ''Extra information at end of version string''
           (Inr (Version (0 OR push_bit 24 major OR push_bit 16 hardfork OR revision))))))))"

text \<open>\<open>version_ext\<close>: the version, and what follows the first \<open>+\<close>.\<close>

record version_ext =
  ve_base :: version
  ve_metadata :: string

definition version_ext_to_string :: "version_ext \<Rightarrow> string" where
  "version_ext_to_string v =
     (let result = version_to_string (ve_base v)
      in if ve_metadata v \<noteq> [] then (result @ ''+'') @ ve_metadata v else result)"

fun split_plus :: "string \<Rightarrow> string \<times> string" where
  "split_plus [] = ([], [])"
| "split_plus (ch # it) =
     (if ch = CHR ''+'' then ([], ch # it) else let (base, rest) = split_plus it in (ch # base, rest))"

definition version_ext_from_string :: "string \<Rightarrow> version_ext result" where
  "version_ext_from_string input =
     (let (base, it) = split_plus input
      in rbind (version_from_string base) (\<lambda>b.
           Inr \<lparr>ve_base = b, ve_metadata = (if it \<noteq> [] then drop 1 it else [])\<rparr>))"

definition version_ext_eq :: "version_ext \<Rightarrow> version_ext \<Rightarrow> bool" where
  "version_ext_eq a b \<longleftrightarrow>
     major_v (ve_base a) = major_v (ve_base b) \<and> minor_v (ve_base a) = minor_v (ve_base b)"

section \<open>Round trips\<close>

lemma digits_prefix_length:
  assumes "no_digit_head r"
  shows "length (digits_prefix 10 (to_dec n @ r)) = length (to_dec n)"
proof -
  have l: "length (digits_prefix 10 s) = length s" if "\<forall>c \<in> set s. digit_val 10 c \<noteq> None" for s
    using that by (induction s) auto
  have "digits_prefix 10 r = []"
    using assms by (cases r) (auto simp: no_digit_head_def digit_val_10 [symmetric])
  moreover have "digits_prefix 10 (to_dec n @ r) = digits_prefix 10 (to_dec n) @ digits_prefix 10 r"
    using to_dec_digits by (intro digits_prefix_append) blast
  ultimately show ?thesis using l [of "to_dec n"] to_dec_digits by auto
qed

lemma to_dec_head:
  "split_sign (to_dec n @ r) = (False, to_dec n @ r)" "dropWhile is_space (to_dec n @ r) = to_dec n @ r"
proof -
  obtain c cs where c: "to_dec n = c # cs" using to_dec_nonempty [of n] by (cases "to_dec n") auto
  then have "is_digit c" using to_dec_digits [of n] by auto
  with c show "split_sign (to_dec n @ r) = (False, to_dec n @ r)" "dropWhile is_space (to_dec n @ r) = to_dec n @ r"
    by (auto simp: split_sign_def is_digit_head_facts)
qed

lemma read_u32_to_dec:
  assumes "n < 2 ^ 32" "no_digit_head r"
  shows "read_u32 old \<lparr>is_rest = to_dec n @ r, is_eof = False, is_fail = False\<rparr> =
    (word_of_nat n, \<lparr>is_rest = r, is_eof = (r = []), is_fail = False\<rparr>)"
proof -
  have "digits_prefix 10 (to_dec n @ r) \<noteq> []"
    using digits_prefix_length [OF assms(2)] by (metis length_0_conv to_dec_nonempty)
  then show ?thesis
    using assms digits_prefix_to_dec_append [OF assms(2)]
    by (simp add: read_u32_def sentry_def to_dec_head digits_prefix_length)
qed

lemma ucast_of_nat_small:
  "a < 256 \<Longrightarrow> ucast (word_of_nat a :: 8 word) = (word_of_nat a :: 32 word)"
  "c < 65536 \<Longrightarrow> ucast (word_of_nat c :: 16 word) = (word_of_nat c :: 32 word)"
  by (simp_all add: word_unat_eq_iff unsigned_ucast_eq unsigned_of_nat take_bit_nat_eq_self)

lemma of_nat_le_mask:
  "n < 2 ^ 32 \<Longrightarrow> (word_of_nat n :: 32 word) \<le> 0xFF \<longleftrightarrow> n \<le> 255"
  "n < 2 ^ 32 \<Longrightarrow> (word_of_nat n :: 32 word) \<le> 0xFFFF \<longleftrightarrow> n \<le> 65535"
  by (simp_all add: word_le_nat_alt unsigned_of_nat take_bit_nat_eq_self)

lemma version_packed:
  "a \<le> 255 \<Longrightarrow> b \<le> 255 \<Longrightarrow> c \<le> 65535 \<Longrightarrow>
   Version (push_bit 24 (word_of_nat a) OR push_bit 16 (word_of_nat b) OR word_of_nat c) =
   version_new (word_of_nat a) (word_of_nat b) (word_of_nat c)"
  by (simp add: version_new_def Let_def push_bit_or ucast_of_nat_small or.assoc)

lemma read_char_head:
  "\<not> is_space c \<Longrightarrow> read_char old \<lparr>is_rest = c # r, is_eof = False, is_fail = False\<rparr> =
    (c, \<lparr>is_rest = r, is_eof = False, is_fail = False\<rparr>)"
  by (simp add: read_char_def sentry_def)

lemma version_from_parts:
  assumes "a < 2 ^ 32" "b < 2 ^ 32" "c < 2 ^ 32" "sep = CHR ''.'' \<or> sep = CHR ''_''" "no_digit_head r"
  shows "version_from_string (to_dec a @ sep # to_dec b @ sep # to_dec c @ r) =
    srv_assert (a \<le> 255) ''Major version is out of range''
    (srv_assert (b \<le> 255) ''Minor/Hardfork version is out of range''
    (srv_assert (c \<le> 65535) ''Patch/Revision version is out of range''
    (srv_assert (r = []) ''Extra information at end of version string''
    (Inr (version_new (word_of_nat a) (word_of_nat b) (word_of_nat c))))))"
proof -
  have sp: "\<not> is_space sep" using assms(4) by (auto simp: is_space_def)
  have nd: "no_digit_head (sep # t)" for t using assms(4) by (auto simp: no_digit_head_def is_digit_def)
  note steps = read_u32_to_dec [OF assms(1) nd] read_u32_to_dec [OF assms(2) nd]
    read_u32_to_dec [OF assms(3,5)] read_char_head [OF sp]
  show ?thesis
    using assms(1-4)
    by (simp add: version_from_string_def is_new_def steps of_nat_le_mask srv_assert_def version_packed
        del: push_bit_of_nat)
qed

lemma split_plus_append:
  "CHR ''+'' \<notin> set s \<Longrightarrow> split_plus (s @ CHR ''+'' # t) = (s, CHR ''+'' # t)"
  "CHR ''+'' \<notin> set s \<Longrightarrow> split_plus s = (s, [])"
  by (induction s) auto

lemma version_text_no_plus: "CHR ''+'' \<notin> set (version_to_string v)"
proof -
  have "CHR ''+'' \<notin> set (to_dec n)" for n
    using to_dec_digits [of n] by (auto simp: is_digit_def)
  then show ?thesis by (simp add: version_to_string_def)
qed

lemma version_round_trip: "version_from_string (version_to_string v) = Inr v"
proof -
  have n: "unat (major_v v) < 256" "unat (minor_v v) < 256" "unat (patch v) < 65536"
    using unsigned_less [of "major_v v", where ?'a = nat] unsigned_less [of "minor_v v", where ?'a = nat]
      unsigned_less [of "patch v", where ?'a = nat] by simp_all
  have v: "version_new (major_v v) (minor_v v) (patch v) = v"
  proof -
    have "unat (v_num (version_new (major_v v) (minor_v v) (patch v))) = unat (v_num v)"
      by (simp add: v_num_new unat_parts unpacked_whole)
    then show ?thesis by (simp add: version.expand word_unat_eq_iff)
  qed
  show ?thesis
    using version_from_parts [of "unat (major_v v)" "unat (minor_v v)" "unat (patch v)" "CHR ''.''" "[]"] n v
    by (simp add: version_to_string_def no_digit_head_def)
qed

text \<open>
  What a version with metadata is rendered to is read back as the same version and the same metadata,
  whatever the metadata holds.\<close>
lemma version_ext_round_trip:
  "version_ext_from_string (version_ext_to_string v) = Inr v"
  by (simp add: version_ext_from_string_def version_ext_to_string_def Let_def split_plus_append
      version_text_no_plus version_round_trip)

text \<open>C40: Three decimal numbers with the same separator, a dot or an underscore, between them are a version exactly
  when they fit 8, 8 and 16 bits and nothing follows; the first number that is out of range is the one reported.\<close>
theorem version_parse_ranges:
  assumes "a < 2 ^ 32" "b < 2 ^ 32" "c < 2 ^ 32" "sep = CHR ''.'' \<or> sep = CHR ''_''" "no_digit_head r"
  shows "version_from_string (to_dec a @ sep # to_dec b @ sep # to_dec c @ r) =
    (if a > 255 then Inl (Logic_error ''Major version is out of range'')
     else if b > 255 then Inl (Logic_error ''Minor/Hardfork version is out of range'')
     else if c > 65535 then Inl (Logic_error ''Patch/Revision version is out of range'')
     else if r \<noteq> [] then Inl (Logic_error ''Extra information at end of version string'')
     else Inr (version_new (word_of_nat a) (word_of_nat b) (word_of_nat c)))"
  unfolding version_from_parts [OF assms] srv_assert_def by simp

theorem version_parse_ranges_witness:
  "version_from_string (to_dec 1 @ CHR ''_'' # to_dec 256 @ CHR ''_'' # to_dec 7 @ ''x'') =
    Inl (Logic_error ''Minor/Hardfork version is out of range'')"
  using version_parse_ranges [of 1 256 7 "CHR ''_''" "''x''"]
  by (simp add: no_digit_head_def is_digit_def)

text \<open>
  The parser does not ask whether the numbers were read: a version that ends with its second separator is
  accepted with patch zero, and so is one whose third number is only a sign.\<close>
lemma version_missing_patch_accepted:
  "version_from_string ''1.2.'' = Inr (version_new 1 2 0) \<and>
   version_from_string ''1.2.-'' = Inr (version_new 1 2 0) \<and>
   version_from_string ''1.2'' = Inl (Logic_error ''Input string does not contain proper dotted decimal format'')"
  by (simp add: version_from_string_def is_new_def read_u32_def sentry_def read_char_def split_sign_def
      is_space_def digit_val_def nat_of_digits_def version_new_def char_of_def srv_assert_def)

end
