(* ===== verification/Options.thy ===== *)
theory Options
  imports Prelude
begin

text \<open>
  The extension of \<open>boost::program_options\<close> (src/options_helper.cpp): the template of the configuration file
  and its printed form, the quotes around a value, the version banner, the choice and the creation of the
  configuration file, and the approximate relative time.
\<close>

section \<open>Option descriptions\<close>

text \<open>
  What the code asks a \<open>bpo::option_description\<close>: its names, whether \<open>apply_default\<close> finds a default value,
  and \<open>format_parameter\<close>, which boost renders as \<open>arg (=<default>)\<close>, as nothing for a switch, and as the bare
  name of the argument when the default has no text.
\<close>

record option_description =
  od_long_name :: string
  od_description :: string
  od_has_default :: bool
  od_format_parameter :: string

text \<open>\<open>std::string::erase(pos)\<close> and \<open>erase(0, n)\<close>.\<close>

definition erase_from :: "nat \<Rightarrow> string \<Rightarrow> string result" where
  "erase_from p s = (if p > length s then Inl (Failure ''out_of_range'') else Inr (take p s))"

definition erase_front :: "nat \<Rightarrow> string \<Rightarrow> string" where
  "erase_front n s = drop n s"

text \<open>The position \<open>length() - 1\<close> is \<open>npos\<close> for the empty string, beyond the end of every string.\<close>

definition erase_last :: "string \<Rightarrow> string result" where
  "erase_last s = (if s = [] then Inl (Failure ''out_of_range'') else erase_from (length s - 1) s)"

section \<open>The template of the configuration file\<close>

text \<open>\<open>impl::deduplicator\<close>: its \<open>seen\<close>, and \<open>next\<close>, which gives nothing for a name it has seen.\<close>

definition dedup_next :: "string set \<Rightarrow> option_description \<Rightarrow> option_description option \<times> string set" where
  "dedup_next seen o' =
     (let name = od_long_name o'
      in if name \<in> seen then (None, seen) else (Some o', insert name seen))"

text \<open>The body of the loop of \<open>create_new_config_file\<close> for one option: what it writes.\<close>

definition config_value :: "string \<Rightarrow> string \<Rightarrow> string result" where
  "config_value description example =
     (if example = [] then Inr (''false'' @ [NL])
      else if length example > 6 then
        rbind (erase_last (erase_front 6 example)) (\<lambda>example.
          let suggest_bool_type =
                (length example = 1 \<and> (example ! 0 = CHR ''1'' \<or> example ! 0 = CHR ''0'') \<and>
                 find_sub ''Switch'' description \<noteq> None)
          in Inr (if suggest_bool_type then (if example ! 0 = CHR ''1'' then ''true'' else ''false'') @ [NL]
                  else example @ [NL]))
      else Inr [NL])"

definition config_entry :: "option_description \<Rightarrow> string result" where
  "config_entry od =
     (let d = (if od_description od \<noteq> [] then ''# '' @ od_description od @ [NL] else [])
      in if \<not> od_has_default od
         then Inr (d @ ''# '' @ od_long_name od @ '' = '' @ [NL] @ [NL])
         else rbind (config_value (od_description od) (od_format_parameter od)) (\<lambda>v.
           Inr (d @ od_long_name od @ '' = '' @ v @ [NL])))"

fun config_loop :: "string set \<Rightarrow> string \<Rightarrow> option_description list \<Rightarrow> string result" where
  "config_loop seen out [] = Inr out"
| "config_loop seen out (opt # opts) =
     (case dedup_next seen opt of
        (None, seen) \<Rightarrow> config_loop seen out opts
      | (Some od, seen) \<Rightarrow> rbind (config_entry od) (\<lambda>t. config_loop seen (out @ t) opts))"

definition create_new_config_file :: "option_description list \<Rightarrow> string result" where
  "create_new_config_file cfg_options = config_loop {} [] cfg_options"

text \<open>
  \<open>options::print_options\<close>: what is on the stream when the loop ends or throws. It erases the frame
  \<open>arg (=\<close> and the closing bracket without asking how long the parameter is.
\<close>

fun print_options_to :: "string \<Rightarrow> option_description list \<Rightarrow> string \<times> unit result" where
  "print_options_to stream [] = (stream, Inr ())"
| "print_options_to stream (od # ods) =
     (let stream = (if od_description od \<noteq> [] then stream @ ''# '' @ od_description od @ [NL] else stream)
      in if \<not> od_has_default od
         then print_options_to (stream @ ''# '' @ od_long_name od @ '' = '' @ [NL] @ [NL]) ods
         else
           let example = od_format_parameter od
           in if example = []
              then print_options_to (stream @ od_long_name od @ '' = '' @ ''false'' @ [NL] @ [NL]) ods
              else (case erase_last (erase_front 6 example) of
                      Inl e \<Rightarrow> (stream, Inl e)
                    | Inr example \<Rightarrow>
                        print_options_to (stream @ od_long_name od @ '' = '' @ example @ [NL] @ [NL]) ods))"

text \<open>The specification of the template: one entry for the first option of each name, in their order.\<close>

fun first_of_name :: "string set \<Rightarrow> option_description list \<Rightarrow> option_description list" where
  "first_of_name seen [] = []"
| "first_of_name seen (od # ods) =
     (if od_long_name od \<in> seen then first_of_name seen ods
      else od # first_of_name (insert (od_long_name od) seen) ods)"

definition framed :: "string \<Rightarrow> string" where
  "framed t = ''arg (='' @ t @ '')''"

definition value_line :: "option_description \<Rightarrow> string" where
  "value_line od =
     (let p = od_format_parameter od; v = take (length p - 7) (drop 6 p)
      in if p = [] then ''false''
         else if length p \<le> 6 then []
         else if find_sub ''Switch'' (od_description od) \<noteq> None \<and> v = ''1'' then ''true''
         else if find_sub ''Switch'' (od_description od) \<noteq> None \<and> v = ''0'' then ''false''
         else v)"

definition template_entry :: "option_description \<Rightarrow> string" where
  "template_entry od =
     (if od_description od \<noteq> [] then ''# '' @ od_description od @ [NL] else []) @
     (if od_has_default od then od_long_name od @ '' = '' @ value_line od @ [NL, NL]
      else ''# '' @ od_long_name od @ '' = '' @ [NL, NL])"

lemma erase_last_Inr: "s \<noteq> [] \<Longrightarrow> erase_last s = Inr (take (length s - 1) s)"
  by (simp add: erase_last_def erase_from_def)

lemma suggested_value:
  "(if length v = 1 \<and> (v ! 0 = CHR ''1'' \<or> v ! 0 = CHR ''0'') \<and> S
    then (if v ! 0 = CHR ''1'' then ''true'' else ''false'') @ [NL] else v @ [NL]) =
   (if S \<and> v = ''1'' then ''true'' else if S \<and> v = ''0'' then ''false'' else v) @ [NL]"
proof (cases v)
  case (Cons c w)
  then show ?thesis by (cases w) auto
qed simp

lemma config_value_spec:
  "config_value (od_description od) (od_format_parameter od) = Inr (value_line od @ [NL])"
proof (cases "length (od_format_parameter od) > 6")
  case True
  let ?p = "od_format_parameter od"
  let ?v = "take (length ?p - 7) (drop 6 ?p)"
  have "erase_last (drop 6 ?p) = Inr ?v"
    using True by (subst erase_last_Inr) (auto simp: diff_diff_left)
  moreover have "?p \<noteq> []" "(length ?p \<le> 6) = False" using True by auto
  ultimately show ?thesis
    using True suggested_value [of ?v "find_sub ''Switch'' (od_description od) \<noteq> None"]
    by (simp only: config_value_def value_line_def Let_def erase_front_def rbind_simps if_False if_True
        simp_thms)
qed (simp add: config_value_def value_line_def)

lemma config_entry_spec: "config_entry od = Inr (template_entry od)"
  by (simp add: config_entry_def config_value_spec template_entry_def Let_def)

lemma config_loop_spec:
  "config_loop seen out opts = Inr (out @ concat (map template_entry (first_of_name seen opts)))"
  by (induction opts arbitrary: seen out) (auto simp: dedup_next_def Let_def config_entry_spec)

lemma first_of_name_names:
  "distinct (map od_long_name (first_of_name seen opts)) \<and>
   od_long_name ` set (first_of_name seen opts) = od_long_name ` set opts - seen"
  by (induction opts arbitrary: seen) auto

text \<open>
  The template of the configuration file is never abandoned, whatever boost says of an option: it holds one
  entry for each name, that of the first option with the name, in the order of the options.\<close>
lemma config_template_complete:
  "create_new_config_file opts = Inr (concat (map template_entry (first_of_name {} opts))) \<and>
   distinct (map od_long_name (first_of_name {} opts)) \<and>
   od_long_name ` set (first_of_name {} opts) = od_long_name ` set opts"
  using first_of_name_names [of "{}" opts] by (simp add: create_new_config_file_def config_loop_spec)

definition printable :: "option_description \<Rightarrow> bool" where
  "printable od = (\<not> (od_has_default od \<and> od_format_parameter od \<noteq> [] \<and> length (od_format_parameter od) \<le> 6))"

definition plain_option :: "option_description \<Rightarrow> bool" where
  "plain_option od = (printable od \<and> find_sub ''Switch'' (od_description od) = None)"

lemma print_options_result:
  "snd (print_options_to stream opts) =
     (if list_all printable opts then Inr () else Inl (Failure ''out_of_range''))"
proof (induction opts arbitrary: stream)
  case (Cons od ods)
  have "erase_last (erase_front 6 p) = (if length p \<le> 6 then Inl (Failure ''out_of_range'') else Inr (take (length p - 7) (drop 6 p)))" for p
    by (auto simp: erase_last_def erase_from_def erase_front_def diff_diff_left)
  with Cons show ?case by (auto simp: Let_def printable_def)
qed simp

lemma print_options_plain:
  "list_all plain_option opts \<Longrightarrow>
   print_options_to stream opts = (stream @ concat (map template_entry opts), Inr ())"
proof (induction opts arbitrary: stream)
  case (Cons od ods)
  have "erase_last (erase_front 6 p) = Inr (take (length p - 7) (drop 6 p))" if "length p > 6" for p
    using that by (auto simp: erase_last_def erase_from_def erase_front_def diff_diff_left)
  with Cons show ?case
    by (auto simp: Let_def plain_option_def printable_def template_entry_def value_line_def)
qed simp

lemma first_of_name_distinct:
  "distinct (map od_long_name opts) \<Longrightarrow> od_long_name ` set opts \<inter> seen = {} \<Longrightarrow>
   first_of_name seen opts = opts"
  by (induction opts arbitrary: seen) auto

text \<open>
  The printer of the options has no such guard: it throws \<open>out_of_range\<close> exactly when some option with a
  default value has a parameter that is rendered as one to six characters (boost writes \<open>arg\<close> when the default
  has no text).\<close>
lemma print_options_throws_iff:
  "snd (print_options_to stream opts) =
     (if list_all printable opts then Inr () else Inl (Failure ''out_of_range''))"
  by (rule print_options_result)

text \<open>
  For options with different names, each of which is printable and is not described as a switch, the
  printer shows what is written to the template.\<close>
lemma printed_options_are_the_template:
  assumes "distinct (map od_long_name opts)" "list_all plain_option opts"
  shows "print_options_to [] opts = (projr (create_new_config_file opts), Inr ())"
  using print_options_plain [OF assms(2), of "[]"] first_of_name_distinct [OF assms(1), of "{}"]
  by (simp add: create_new_config_file_def config_loop_spec)

lemma printed_options_are_the_template_witness:
  "let a = \<lparr>od_long_name = ''port'', od_description = ''Port'', od_has_default = True,
            od_format_parameter = framed ''80''\<rparr>;
       b = \<lparr>od_long_name = ''host'', od_description = [], od_has_default = False,
            od_format_parameter = ''arg''\<rparr>
   in print_options_to [] [a, b] = (projr (create_new_config_file [a, b]), Inr ()) \<and>
      fst (print_options_to [] [a, b]) =
        ''# Port'' @ [NL] @ ''port = 80'' @ [NL, NL] @ ''# host = '' @ [NL, NL]"
  using printed_options_are_the_template
    [of "[\<lparr>od_long_name = ''port'', od_description = ''Port'', od_has_default = True,
            od_format_parameter = framed ''80''\<rparr>,
          \<lparr>od_long_name = ''host'', od_description = [], od_has_default = False,
            od_format_parameter = ''arg''\<rparr>]"]
  by (simp add: plain_option_def printable_def framed_def erase_last_def erase_from_def erase_front_def)

section \<open>Quotes\<close>

text \<open>
  \<open>remove_quotes_impl\<close>, for strings and wide strings alike: an iterator is the number of characters before it.
  \<open>right_scan\<close> is the loop of the reverse iterator, \<open>base()\<close> of which is what is left of the string.
\<close>

definition is_pass_char :: "char \<Rightarrow> bool" where
  "is_pass_char ch = (ch = CHR 0x27 \<or> ch = CHR 0x22 \<or> ch = CHR '' '' \<or> ch = CHR 0x09 \<or> ch = NL \<or> ch = CHR 0x0D)"

function left_scan :: "string \<Rightarrow> nat \<Rightarrow> nat" where
  "left_scan s i = (if i < length s \<and> is_pass_char (s ! i) then left_scan s (i + 1) else i)"
  by pat_completeness auto
termination by (relation "measure (\<lambda>(s, i). length s - i)") auto

fun right_scan :: "string \<Rightarrow> nat \<Rightarrow> nat" where
  "right_scan s 0 = 0"
| "right_scan s (Suc i) = (if is_pass_char (s ! i) then right_scan s i else Suc i)"

declare left_scan.simps [simp del]

definition remove_quotes :: "string \<Rightarrow> string" where
  "remove_quotes s =
     (let left = left_scan s 0
      in if left = length s then []
         else take (right_scan s (length s) - left) (drop left s))"

text \<open>The specification: drop the characters of the set from both ends.\<close>

definition trim :: "('a \<Rightarrow> bool) \<Rightarrow> 'a list \<Rightarrow> 'a list" where
  "trim P s = rev (dropWhile P (rev (dropWhile P s)))"

lemma left_scan_spec: "left_scan (a @ b) (length a) = length a + length (takeWhile is_pass_char b)"
proof (induction b arbitrary: a)
  case Nil
  then show ?case by (simp add: left_scan.simps)
next
  case (Cons c b)
  show ?case
    using Cons [of "a @ [c]"] by (subst left_scan.simps) simp
qed

lemma right_scan_spec: "right_scan (s @ t) (length s) = length (dropWhile is_pass_char (rev s))"
proof (induction s arbitrary: t rule: rev_induct)
  case (snoc c s)
  then show ?case using snoc [of "c # t"] by simp
qed simp

lemma remove_quotes_trim: "remove_quotes s = trim is_pass_char s"
proof -
  let ?n = "length (takeWhile is_pass_char s)" and ?r = "dropWhile is_pass_char s"
  have l: "left_scan s 0 = ?n" using left_scan_spec [of "[]" s] by simp
  have d: "drop ?n s = ?r" by (simp add: dropWhile_eq_drop)
  have all: "?n = length s \<longleftrightarrow> ?r = []"
    by (metis append_Nil2 d drop_eq_Nil length_takeWhile_le nle_le takeWhile_eq_all_conv dropWhile_eq_Nil_conv)
  show ?thesis
  proof (cases "?r = []")
    case True
    then have "remove_quotes s = []" using l all by (simp only: remove_quotes_def Let_def if_True simp_thms)
    then show ?thesis unfolding trim_def True by simp
  next
    case False
    have hd: "\<not> is_pass_char (hd ?r)" using False by (rule hd_dropWhile)
    have "dropWhile is_pass_char (rev s) = dropWhile is_pass_char (rev ?r @ rev (takeWhile is_pass_char s))"
      by (metis rev_append takeWhile_dropWhile_id)
    also have "\<dots> = dropWhile is_pass_char (rev ?r) @ rev (takeWhile is_pass_char s)"
      using False hd by (subst dropWhile_append1 [of "hd ?r"]) auto
    finally have r: "right_scan s (length s) - ?n = length (dropWhile is_pass_char (rev ?r))"
      using right_scan_spec [of s "[]"] by simp
    have "take (length (dropWhile is_pass_char (rev ?r))) ?r = rev (dropWhile is_pass_char (rev ?r))"
    proof -
      obtain w where w: "rev ?r = w @ dropWhile is_pass_char (rev ?r)"
        by (metis takeWhile_dropWhile_id)
      then have e: "?r = rev (dropWhile is_pass_char (rev ?r)) @ rev w"
        by (metis rev_append rev_rev_ident)
      show ?thesis
        by (subst (2) e) simp
    qed
    moreover have "(?n = length s) = False" using all False by simp
    ultimately show ?thesis using r l d by (simp only: remove_quotes_def trim_def Let_def if_False)
  qed
qed

text \<open>
  Removing the quotes trims quotes and white space from both ends, and nothing inside; doing it again
  changes nothing.\<close>
lemma remove_quotes_is_trim:
  "remove_quotes s = trim is_pass_char s \<and> remove_quotes (remove_quotes s) = remove_quotes s"
proof -
  have hd: "dropWhile P (trim P s) = trim P s" for P :: "char \<Rightarrow> bool"
  proof (cases "trim P s")
    case (Cons c w)
    have "hd (trim P s) = hd (dropWhile P s)" and "dropWhile P s \<noteq> []"
    proof -
      obtain w where w: "rev (dropWhile P s) = w @ dropWhile P (rev (dropWhile P s))"
        by (metis takeWhile_dropWhile_id)
      then have e: "dropWhile P s = trim P s @ rev w"
        unfolding trim_def by (metis rev_append rev_rev_ident)
      show "hd (trim P s) = hd (dropWhile P s)" using Cons by (metis e append_Cons list.sel(1))
      show "dropWhile P s \<noteq> []" using Cons e by auto
    qed
    then have "\<not> P c" using hd_dropWhile [of P s] Cons by simp
    then show ?thesis using Cons by simp
  qed simp
  have "trim P (trim P s) = trim P s" for P :: "char \<Rightarrow> bool"
    using hd [of P] by (simp add: trim_def)
  then show ?thesis by (simp add: remove_quotes_trim)
qed

section \<open>Approximate relative times\<close>

text \<open>
  The two times are \<open>int64_t\<close>. Their difference may leave its type, it is cut to \<open>int32_t\<close>, and both the
  negation of the least value and the addition of thirty to one near the greatest leave that type: all but the cut
  are undefined. From the minutes on the values are \<open>uint32_t\<close> below \<open>2^32 / 60\<close>, where nothing wraps.
\<close>

definition unit_text :: "int \<Rightarrow> string \<Rightarrow> bool \<Rightarrow> string" where
  "unit_text n u plural = to_dec (nat n) @ '' '' @ u @ (if plural then ''s'' else [])"

text \<open>The cascade from the minutes on.\<close>

definition relative_long :: "int \<Rightarrow> string \<Rightarrow> string" where
  "relative_long minutes_ago ago =
     (if minutes_ago < 90 then unit_text minutes_ago ''minute'' (minutes_ago > 1) @ ago
      else let hours_ago = (minutes_ago + 30) div 60
      in if hours_ago < 90 then unit_text hours_ago ''hour'' (hours_ago > 1) @ ago
      else let days_ago = (hours_ago + 12) div 24
      in if days_ago < 90 then unit_text days_ago ''day'' (days_ago > 1) @ ago
      else let weeks_ago = (days_ago + 3) div 7
      in if weeks_ago < 70 then unit_text weeks_ago ''week'' (weeks_ago > 1) @ ago
      else let months_ago = (days_ago + 15) div 30
      in if months_ago < 12 then unit_text months_ago ''month'' (months_ago > 1) @ ago
      else let years_ago = days_ago div 365;
               result = unit_text years_ago ''year'' (months_ago > 1);
               leftover_days = days_ago - years_ago * 365;
               leftover_months = (leftover_days + 15) div 30
      in (if months_ago < 12 * 5 \<and> leftover_months \<noteq> 0
          then result @ unit_text leftover_months ''month'' (months_ago > 1) else result) @ ago)"

definition get_approximate_relative_time_string :: "64 word \<Rightarrow> 64 word \<Rightarrow> string \<Rightarrow> string result" where
  "get_approximate_relative_time_string event_time relative_to_time default_ago =
     srv_assert (sint relative_to_time \<ge> sint event_time) ''relative_to_time >= event_time''
       (let d = sint relative_to_time - sint event_time
        in if d \<ge> 2 ^ 63 then Inl (Undefined ''int64_t overflow'')
           else
             let cut = sint (word_of_int d :: 32 word);
                 ago = (if cut < 0 then '' in the future'' else default_ago);
                 seconds_ago = (if cut < 0 then - cut else cut)
             in if seconds_ago > 2 ^ 31 - 1 then Inl (Undefined ''int32_t overflow'')
                else if seconds_ago < 90
                then Inr (unit_text seconds_ago ''second'' (seconds_ago > 1) @ ago)
                else if seconds_ago + 30 > 2 ^ 31 - 1 then Inl (Undefined ''int32_t overflow'')
                else Inr (relative_long ((seconds_ago + 30) div 60) ago))"

text \<open>
  The specification: each unit is the difference divided once, rounded to the nearest, and the unit is chosen by the
  seconds.
\<close>

definition relative_spec :: "int \<Rightarrow> string" where
  "relative_spec d =
     (if d < 90 then unit_text d ''second'' (d > 1)
      else if d < 5370 then unit_text ((d + 30) div 60) ''minute'' True
      else if d < 322170 then unit_text ((d + 1830) div 3600) ''hour'' True
      else if d < 7730970 then unit_text ((d + 45030) div 86400) ''day'' True
      else if d < 42031770 then unit_text ((d + 304230) div 604800) ''week'' True
      else
        let days = (d + 45030) div 86400; months = (days mod 365 + 15) div 30
        in unit_text (days div 365) ''year'' True @
           (if days < 1785 \<and> months \<noteq> 0 then unit_text months ''month'' True else []))"

lemma sint_cut:
  "- (2 ^ 31) \<le> d \<Longrightarrow> d < 2 ^ 31 \<Longrightarrow> sint (word_of_int d :: 32 word) = d"
  by (simp add: sint_sbintrunc' signed_take_bit_int_eq_self)

lemma sint_cut_upper:
  assumes "2 ^ 31 \<le> d" "d < 2 ^ 32"
  shows "sint (word_of_int d :: 32 word) = d - 2 ^ 32"
proof -
  have "(word_of_int d :: 32 word) = word_of_int (d - 2 ^ 32)"
    by (simp add: word_of_int_eq_iff take_bit_eq_mod)
  moreover have "sint (word_of_int (d - 2 ^ 32) :: 32 word) = d - 2 ^ 32"
    using assms by (intro sint_cut) simp_all
  ultimately show ?thesis by (simp only:)
qed

lemma div_div_round: "((x :: int) div a + c) div b = (x + c * a) div (a * b)" if "a > 0" "b > 0"
proof -
  have "(x + c * a) div (a * b) = (x + c * a) div a div b"
    using that by (simp add: zdiv_zmult2_eq)
  also have "(x + c * a) div a = x div a + c" using that by simp
  finally show ?thesis by (rule sym)
qed

lemma relative_long_spec:
  assumes "d \<ge> 90"
  shows "relative_long ((d + 30) div 60) ago = relative_spec d @ ago"
proof -
  have h: "((d + 30) div 60 + 30) div 60 = (d + 1830) div 3600"
    by (subst div_div_round) simp_all
  have dd: "((d + 1830) div 3600 + 12) div 24 = (d + 45030) div 86400"
    by (subst div_div_round) simp_all
  have w: "((d + 45030) div 86400 + 3) div 7 = (d + 304230) div 604800"
    by (subst div_div_round) simp_all
  have t: "(d + 30) div 60 < 90 \<longleftrightarrow> d < 5370" "(d + 1830) div 3600 < 90 \<longleftrightarrow> d < 322170"
    "(d + 45030) div 86400 < 90 \<longleftrightarrow> d < 7730970" "(d + 304230) div 604800 < 70 \<longleftrightarrow> d < 42031770"
    by linarith+
  have p: "(d + 30) div 60 > 1" "\<not> d < 5370 \<Longrightarrow> (d + 1830) div 3600 > 1"
    "\<not> d < 322170 \<Longrightarrow> (d + 45030) div 86400 > 1" "\<not> d < 7730970 \<Longrightarrow> (d + 304230) div 604800 > 1"
    using assms by linarith+
  let ?days = "(d + 45030) div 86400"
  have m: "\<not> (?days + 15) div 30 < 12" "(?days + 15) div 30 > 1" if "d \<ge> 42031770"
    using that by linarith+
  have five: "(?days + 15) div 30 < 12 * 5 \<longleftrightarrow> ?days < 1785" by linarith
  have left: "?days - ?days div 365 * 365 = ?days mod 365" by (simp add: minus_div_mult_eq_mod)
  note unfold = relative_long_def relative_spec_def Let_def h dd w t five left
  have nd: "\<not> d < 90" using assms by simp
  show ?thesis
  proof (cases "d < 7730970")
    case True
    then show ?thesis
      using p nd by (cases "d < 5370"; cases "d < 322170") (simp_all only: unfold if_True if_False simp_thms append_assoc)
  next
    case False
    then have n: "\<not> d < 5370" "\<not> d < 322170" by simp_all
    show ?thesis
    proof (cases "d < 42031770")
      case True
      then show ?thesis using p(4) False n nd by (simp only: unfold if_True if_False simp_thms append_assoc)
    next
      case gt: False
      then have mm: "((?days + 15) div 30 < 12) = False" "((?days + 15) div 30 > 1) = True"
        using m by simp_all
      show ?thesis using False n nd gt
        by (cases "?days < 1785 \<and> (?days mod 365 + 15) div 30 \<noteq> 0")
          (simp_all only: unfold mm if_True if_False simp_thms append_assoc append_Nil2)
    qed
  qed
qed

text \<open>
  For a difference of less than \<open>2^31 - 30\<close> seconds the cascade of units is one division, rounded to the
  nearest, with the unit chosen by the seconds alone. The branch that would print months by themselves is never
  taken: 70 weeks are more than a year.\<close>
lemma relative_time_spec:
  assumes "0 \<le> sint relative - sint event" "sint relative - sint event < 2 ^ 31 - 30"
  shows "get_approximate_relative_time_string event relative ago =
    Inr (relative_spec (sint relative - sint event) @ ago)"
proof -
  let ?d = "sint relative - sint event"
  have c: "sint (word_of_int ?d :: 32 word) = ?d" using assms by (intro sint_cut) auto
  show ?thesis
  proof (cases "?d < 90")
    case True
    then show ?thesis using assms unfolding get_approximate_relative_time_string_def Let_def c
      by (simp add: relative_spec_def)
  next
    case False
    then show ?thesis using assms relative_long_spec [of ?d ago]
      unfolding get_approximate_relative_time_string_def Let_def c
      by simp
  qed
qed

lemma relative_time_spec_witness:
  "get_approximate_relative_time_string 0 42031770 '' ago'' = Inr (''1 years4 months ago'')"
  using relative_time_spec [of 42031770 0 "'' ago''"]
  by (simp add: relative_spec_def unit_text_def to_dec.simps digit_char_def char_of_def bit_0)

text \<open>
  An event that lies between \<open>2^31\<close> and \<open>2^32\<close> seconds in the past is reported as being in the
  future: the cut to 32 bits is read as a negative difference.\<close>
lemma far_past_is_in_the_future:
  assumes "2 ^ 31 + 30 < sint relative - sint event" "sint relative - sint event < 2 ^ 32"
  shows "get_approximate_relative_time_string event relative ago =
    Inr (relative_spec (2 ^ 32 - (sint relative - sint event)) @ '' in the future'')"
proof -
  let ?d = "sint relative - sint event"
  have c: "sint (word_of_int ?d :: 32 word) = ?d - 2 ^ 32" using assms by (intro sint_cut_upper) auto
  have e: "- (?d - 2 ^ 32) = 2 ^ 32 - ?d" by simp
  have n: "?d - 2 ^ 32 < 0" using assms by simp
  show ?thesis
  proof (cases "2 ^ 32 - ?d < 90")
    case True
    then show ?thesis using assms n unfolding get_approximate_relative_time_string_def Let_def c
      by (simp add: relative_spec_def)
  next
    case False
    then show ?thesis using assms n relative_long_spec [of "2 ^ 32 - ?d" "'' in the future''"]
      unfolding get_approximate_relative_time_string_def Let_def c
      by simp
  qed
qed

lemma far_past_is_in_the_future_witness:
  "get_approximate_relative_time_string 0 4294967295 '' ago'' = Inr (''1 second in the future'')"
  using far_past_is_in_the_future [of 4294967295 0 "'' ago''"]
  by (simp add: relative_spec_def unit_text_def to_dec.simps digit_char_def char_of_def bit_0)

section \<open>The banner\<close>

text \<open>
  \<open>print_version\<close>: the names are pointers that may be null. The project name, its version, its revision, the
  versions of boost and of the TLS library come from the build and are arguments.
\<close>

record build_info =
  bi_prj_name :: string
  bi_prj_ver :: string
  bi_git_sha :: string
  bi_boost_version :: string
  bi_ssl_text :: string

definition given :: "string option \<Rightarrow> string" where
  "given p = (case p of None \<Rightarrow> [] | Some s \<Rightarrow> s)"

definition print_version :: "build_info \<Rightarrow> string option \<Rightarrow> string option \<Rightarrow> string option \<Rightarrow> string" where
  "print_version bi name art_name internal_ver =
     (let art = (if given art_name \<noteq> [] then given art_name @ [NL] else []);
          ver = (if given internal_ver \<noteq> []
                 then '' - '' @ (if given name \<noteq> [] then given name else ''Version'') @ '': '' @ given internal_ver @ [NL]
                 else []);
          header = (given art_name \<noteq> [] \<or> given internal_ver \<noteq> [])
      in art @ ver @ (if header then [NL] else []) @ ''Linked with: '' @ [NL] @
         '' - '' @ bi_prj_name bi @ '': '' @ bi_prj_ver bi @ '' ('' @ bi_git_sha bi @ '')'' @ [NL] @
         '' - '' @ ''Boost C++ Lib: '' @ map (\<lambda>c. if c = CHR ''_'' then CHR ''.'' else c) (bi_boost_version bi) @ [NL] @
         '' - '' @ ''SSL: '' @ bi_ssl_text bi @ [NL])"

section \<open>The configuration file\<close>

text \<open>
  The file system: the directories that exist and the files with their contents. How \<open>boost::filesystem\<close> joins
  paths, makes them absolute, finds the parent and quotes a path for a stream are parameters. A file can be written
  when its directory exists.
\<close>

record path_ops =
  po_join :: "string \<Rightarrow> string \<Rightarrow> string"
  po_absolute :: "string \<Rightarrow> string"
  po_is_absolute :: "string \<Rightarrow> bool"
  po_parent :: "string \<Rightarrow> string"
  po_quoted :: "string \<Rightarrow> string"

record file_system =
  fs_dirs :: "string \<Rightarrow> bool"
  fs_files :: "string \<Rightarrow> string option"

definition fs_exists :: "string \<Rightarrow> file_system \<Rightarrow> bool" where
  "fs_exists p fs = (fs_dirs fs p \<or> fs_files fs p \<noteq> None)"

text \<open>\<open>create_directories\<close> of a path that does not exist; \<open>ancestors\<close> is the path and those above it.\<close>

definition create_directories :: "(string \<Rightarrow> string list) \<Rightarrow> string \<Rightarrow> file_system \<Rightarrow> file_system" where
  "create_directories ancestors p fs = fs\<lparr>fs_dirs := (\<lambda>d. fs_dirs fs d \<or> d \<in> set (ancestors p))\<rparr>"

definition write_file :: "path_ops \<Rightarrow> string \<Rightarrow> string \<Rightarrow> file_system \<Rightarrow> file_system" where
  "write_file po p t fs = (if fs_dirs fs (po_parent po p) then fs\<lparr>fs_files := (fs_files fs)(p \<mapsto> t)\<rparr> else fs)"

definition get_config_file_path ::
  "path_ops \<Rightarrow> string \<Rightarrow> string \<Rightarrow> (string \<Rightarrow> string option) \<Rightarrow> string \<Rightarrow> string" where
  "get_config_file_path po current_path config_file_name options opt_name =
     (let config_ini_path = po_join po current_path config_file_name
      in case options opt_name of
           None \<Rightarrow> config_ini_path
         | Some v \<Rightarrow> po_absolute po v)"

definition create_config_file_if_not_exist ::
  "path_ops \<Rightarrow> (string \<Rightarrow> string list) \<Rightarrow> string \<Rightarrow> string \<Rightarrow> option_description list \<Rightarrow> file_system \<Rightarrow>
   (string \<times> file_system) result" where
  "create_config_file_if_not_exist po ancestors stream p cfg_options fs =
     (let stream = (if \<not> po_is_absolute po p
                    then stream @ ''config-file path '' @ po_quoted po p @ '' should be absolute and exist'' @ [NL]
                    else stream)
      in if \<not> fs_exists p fs then
           let stream = stream @ ''Writing new config file template at '' @ p @ [NL];
               fs = (if \<not> fs_exists (po_parent po p) fs then create_directories ancestors (po_parent po p) fs else fs)
           in rbind (create_new_config_file cfg_options) (\<lambda>t. Inr (stream, write_file po p t fs))
         else Inr (stream, fs))"

text \<open>
  The creation of the configuration file leaves the contents of every file that exists as they are, and when
  the parent is not a file and is one of its own ancestors the file exists afterwards: with the contents it had, or
  with the template.\<close>
lemma config_file_created_once:
  assumes "fs_files fs (po_parent po p) = None" "po_parent po p \<in> set (ancestors (po_parent po p))"
    and "\<not> fs_dirs fs p"
  shows "\<exists>stream' fs'. create_config_file_if_not_exist po ancestors stream p opts fs = Inr (stream', fs') \<and>
    (\<forall>q. q = p \<or> fs_files fs' q = fs_files fs q) \<and>
    fs_files fs' p = (case fs_files fs p of
       Some t \<Rightarrow> Some t | None \<Rightarrow> Some (concat (map template_entry (first_of_name {} opts))))"
proof (cases "fs_files fs p")
  case None
  then show ?thesis
    using assms
    by (auto simp: create_config_file_if_not_exist_def Let_def fs_exists_def create_new_config_file_def
        config_loop_spec write_file_def create_directories_def)
next
  case (Some t)
  then show ?thesis
    using assms by (simp add: create_config_file_if_not_exist_def Let_def fs_exists_def)
qed

lemma config_file_created_once_witness:
  "let po = \<lparr>po_join = (\<lambda>a b. a @ ''/'' @ b), po_absolute = (\<lambda>p. p), po_is_absolute = (\<lambda>p. True),
             po_parent = (\<lambda>p. ''/etc/srv''), po_quoted = (\<lambda>p. p)\<rparr>;
       fs = \<lparr>fs_dirs = (\<lambda>d. d = ''/etc''), fs_files = (\<lambda>f. None)\<rparr>
   in \<exists>stream' fs'. create_config_file_if_not_exist po (\<lambda>p. [''/etc'', ''/etc/srv'']) [] ''/etc/srv/c.ini'' [] fs =
        Inr (stream', fs') \<and> fs_files fs' ''/etc/srv/c.ini'' = Some []"
  using config_file_created_once
    [of "\<lparr>fs_dirs = (\<lambda>d. d = ''/etc''), fs_files = (\<lambda>f. None)\<rparr>"
        "\<lparr>po_join = (\<lambda>a b. a @ ''/'' @ b), po_absolute = (\<lambda>p. p), po_is_absolute = (\<lambda>p. True),
             po_parent = (\<lambda>p. ''/etc/srv''), po_quoted = (\<lambda>p. p)\<rparr>"
        "''/etc/srv/c.ini''" "\<lambda>p. [''/etc'', ''/etc/srv'']" "[]" "[]"]
  unfolding Let_def by fastforce

end
