(* ===== verification/Log_Watchdog.thy ===== *)
theory Log_Watchdog
  imports Prelude "HOL-Library.Product_Lexorder" "HOL-Library.Sublist"
begin

text \<open>
  The watchdog of the log files (src/log_files_watchdog.cpp): the matching of a file name with the pattern of the
  log, and the removal or the packing of the oldest files when there are more than allowed. An iterator into a
  string is what is left of the string; the text between two iterators is \<open>between\<close>. The parser of
  \<open>boost::posix_time\<close> is a parameter: for a pattern and a text it gives the position after the time it read, or
  none when it fails. The files of the directory, with what the file system says of them, are an argument.
\<close>

unbundle bit_operations_syntax

section \<open>Iterators\<close>

definition between :: "'a list \<Rightarrow> 'a list \<Rightarrow> 'a list" where
  "between a b = take (length a - length b) a"

definition scroll :: "nat \<Rightarrow> string \<Rightarrow> string" where
  "scroll chars it = drop chars it"

fun scroll_to_separator :: "string \<Rightarrow> string" where
  "scroll_to_separator [] = []"
| "scroll_to_separator (ch # it) = (if ch = CHR ''%'' then ch # it else scroll_to_separator it)"

definition NUL :: char where
  "NUL = char_of (0 :: nat)"

lemma NUL_neq [simp]: "NUL \<noteq> CHR ''N''" "NUL \<noteq> CHR ''%''" "CHR ''N'' \<noteq> NUL" "CHR ''%'' \<noteq> NUL" "\<not> is_digit NUL"
  by (simp_all add: NUL_def char_of_def is_digit_def)

fun read_symbol :: "string \<Rightarrow> char \<times> string" where
  "read_symbol [] = (NUL, [])"
| "read_symbol (c # it) = (c, it)"

text \<open>
  \<open>std::atoi\<close> of digits, as the C library of the platform has it: \<open>strtol\<close>, which saturates, cut to \<open>int\<close>.
\<close>

definition atoi_digits :: "string \<Rightarrow> int" where
  "atoi_digits ss = sint (word_of_nat (min (nat_of_digits 10 (digits_prefix 10 ss)) (2 ^ 63 - 1)) :: 32 word)"

text \<open>The loop of \<open>scroll_number\<close>: the digits it collects, and the iterator after \<open>if (s) --it\<close>.\<close>

fun number_loop :: "string \<Rightarrow> string \<times> string" where
  "number_loop [] = ([], [])"
| "number_loop (c # it) =
     (if c \<noteq> NUL \<and> is_digit c then (let (ss, r) = number_loop it in (c # ss, r))
      else if c \<noteq> NUL then ([], c # it) else ([], it))"

definition scroll_number :: "string \<Rightarrow> string option" where
  "scroll_number it =
     (let (ss, r) = number_loop it;
          none_zero = (\<exists>s \<in> set ss. s \<noteq> CHR ''0'')
      in if atoi_digits ss < 1 \<and> none_zero then None else Some r)"

text \<open>\<open>read_pattern\<close>: the letter of a pattern such as \<open>%3N\<close>, zero when there is none.\<close>

fun pattern_symbol :: "string \<Rightarrow> char \<times> string" where
  "pattern_symbol [] = (NUL, [])"
| "pattern_symbol (c # it) = (if c \<noteq> NUL \<and> is_digit c then pattern_symbol it else (c, it))"

definition read_pattern :: "string \<Rightarrow> char \<times> string" where
  "read_pattern it = (if it = [] \<or> hd it \<noteq> CHR ''%'' then (NUL, it) else pattern_symbol (scroll 1 it))"

definition check_pattern :: "string \<Rightarrow> bool" where
  "check_pattern p = (length p \<ge> 2 \<and> find_char CHR ''%'' p \<noteq> None)"

lemma scroll_to_separator_length: "length (scroll_to_separator it) \<le> length it"
  by (induction it) auto

lemma scroll_to_separator_Nil [simp]: "CHR ''%'' \<notin> set it \<Longrightarrow> scroll_to_separator it = []"
  by (induction it) auto

lemma scroll_to_separator_append [simp]:
  "CHR ''%'' \<notin> set a \<Longrightarrow> scroll_to_separator (a @ CHR ''%'' # b) = CHR ''%'' # b"
  by (induction a) auto

lemma scroll_to_separator_cases: "scroll_to_separator it = [] \<or> (\<exists>r. scroll_to_separator it = CHR ''%'' # r)"
  by (induction it) auto

lemma pattern_symbol_length: "length (snd (pattern_symbol it)) \<le> length it"
  by (induction it) auto

lemma read_pattern_length: "length (snd (read_pattern it)) \<le> length it"
  using pattern_symbol_length [of "drop 1 it"] by (auto simp: read_pattern_def scroll_def)

lemma read_after_separator:
  "scroll_to_separator it \<noteq> [] \<Longrightarrow> length (snd (read_pattern (scroll_to_separator it))) < length it"
  using scroll_to_separator_cases [of it] scroll_to_separator_length [of it]
    pattern_symbol_length [of "drop 1 (scroll_to_separator it)"]
  by (auto simp: read_pattern_def scroll_def)

section \<open>Matching\<close>

text \<open>
  The search for the end of the time pattern: from the letter that was read, where the iterator is, and the end found
  so far, up to the next number pattern or the end.
\<close>

function time_end :: "char \<Rightarrow> string \<Rightarrow> string \<Rightarrow> string \<times> string" where
  "time_end s time_it end_it =
     (if s \<noteq> CHR ''N'' \<and> time_it \<noteq> [] then
        let time_it' = scroll_to_separator time_it;
            (s', time_it'') = read_pattern time_it'
        in time_end s' time_it'' time_it'
      else (time_it, end_it))"
  by pat_completeness auto

termination
proof (relation "measure (\<lambda>(s, t, e). length t)")
  fix s t e x y s' t'
  assume a: "s \<noteq> CHR ''N'' \<and> t \<noteq> []" "x = scroll_to_separator t" "y = read_pattern x" "(s', t') = y"
  have "length t' < length t"
  proof (cases "x = []")
    case True
    then show ?thesis using a by (auto simp: read_pattern_def)
  next
    case False
    then show ?thesis using a read_after_separator [of t] by (metis snd_conv)
  qed
  then show "((s', t', x), (s, t, e)) \<in> measure (\<lambda>(s, t, e). length t)" by simp
qed simp

declare time_end.simps [simp del]

text \<open>
  The branch of a time pattern: the \<open>time_pattern\<close> of the context, which is worked out for the first file and kept,
  and where the pattern continues; none is the exception.
\<close>

definition find_time_pattern :: "string \<Rightarrow> string option \<times> string" where
  "find_time_pattern separator =
     (let (s, time_it) = read_pattern separator;
          (time_it, end_it) = time_end s time_it separator;
          end_it = (if time_it = [] then time_it else end_it);
          time_pattern = between separator end_it
      in (if time_pattern = [] then None else Some time_pattern, end_it))"

definition time_branch ::
  "(string \<Rightarrow> string \<Rightarrow> nat option) \<Rightarrow> string \<Rightarrow> string \<Rightarrow> string \<Rightarrow> string \<times> (string \<times> string) option" where
  "time_branch parse_time separator file_it time_pattern =
     (let (tp, pattern_it) =
            (if time_pattern = [] then find_time_pattern separator
             else (Some time_pattern, scroll (length time_pattern) separator))
      in case tp of
           None \<Rightarrow> ([], None)
         | Some tp \<Rightarrow>
             (tp, case parse_time tp file_it of
                    None \<Rightarrow> None
                  | Some n \<Rightarrow> Some (pattern_it, scroll n file_it)))"

text \<open>The branch of a number: the number, then the literal text up to the next pattern.\<close>

definition number_branch :: "string \<Rightarrow> string \<Rightarrow> (string \<times> string) option" where
  "number_branch pattern_it file_it =
     (case scroll_number file_it of
        None \<Rightarrow> None
      | Some file_it \<Rightarrow>
          let separator = scroll_to_separator pattern_it;
              after = snd (read_pattern separator);
              pattern_rest = between pattern_it separator
          in if pattern_rest \<noteq> [] then
               (if length file_it < length pattern_rest \<or> take (length pattern_rest) file_it \<noteq> pattern_rest then None
                else Some (pattern_it, scroll (length pattern_rest) file_it))
             else Some (after, file_it))"

text \<open>
  One round of the loop: the time pattern of the context, whether a time may still come, and the iterators, or none
  for the exception.
\<close>

definition match_round ::
  "(string \<Rightarrow> string \<Rightarrow> nat option) \<Rightarrow> string \<Rightarrow> bool \<Rightarrow> string \<Rightarrow> string \<Rightarrow>
   string \<times> bool \<times> (string \<times> string) option" where
  "match_round parse_time time_pattern single pattern_it file_it =
     (let separator = scroll_to_separator pattern_it;
          (s, pattern_it) = read_pattern separator
      in if s = CHR ''N'' then (time_pattern, single, number_branch pattern_it file_it)
         else if s = CHR ''%'' then
           let (c, file_it) = read_symbol file_it
           in (time_pattern, single, if c \<noteq> CHR ''%'' then None else Some (pattern_it, file_it))
         else if s = NUL then (time_pattern, single, Some (pattern_it, file_it))
         else if single then
           let (tp, r) = time_branch parse_time separator file_it time_pattern in (tp, False, r)
         else (time_pattern, single, None))"

lemma between_nonempty: "between a b \<noteq> [] \<Longrightarrow> length b < length a"
  by (auto simp: between_def)

lemma time_branch_progress:
  assumes "time_branch parse_time separator f tp = (tp', Some (p', f'))" "separator \<noteq> []"
  shows "length p' < length separator"
proof (cases "tp = []")
  case True
  obtain t e where ft: "find_time_pattern separator = (t, e)" by fastforce
  with assms True obtain t' where t: "t = Some t'" and p: "p' = e"
    by (auto simp: time_branch_def split: option.splits)
  have "t' = between separator e \<and> t' \<noteq> []"
    using ft t by (auto simp: find_time_pattern_def Let_def split: prod.splits if_splits)
  then show ?thesis using between_nonempty p by blast
next
  case False
  then show ?thesis using assms by (auto simp: time_branch_def scroll_def split: option.splits)
qed

lemma number_branch_progress:
  "number_branch p f = Some (p', f') \<Longrightarrow> length p' \<le> length p"
  using scroll_to_separator_length [of p] read_pattern_length [of "scroll_to_separator p"]
  by (auto simp: number_branch_def Let_def split: option.splits if_splits)

lemma match_round_progress:
  assumes "match_round parse_time tp single p f = (tp', single', Some (p', f'))"
  shows "p' = [] \<or> length p' < length p"
proof -
  obtain s q where rp: "read_pattern (scroll_to_separator p) = (s, q)" by fastforce
  show ?thesis
  proof (cases "scroll_to_separator p = []")
    case True
    then have "s = NUL" "q = []" using rp by (auto simp: read_pattern_def)
    then show ?thesis using assms rp by (auto simp: match_round_def Let_def)
  next
    case False
    have q: "length q < length p" using read_after_separator [OF False] rp by simp
    consider "s = CHR ''N''" | "s = CHR ''%''" | "s = NUL" | "s \<noteq> CHR ''N''" "s \<noteq> CHR ''%''" "s \<noteq> NUL" by blast
    then show ?thesis
    proof cases
      case 1
      then have "number_branch q f = Some (p', f')" using assms rp by (simp add: match_round_def)
      then show ?thesis using number_branch_progress q by fastforce
    next
      case 2
      then have "p' = q" using assms rp by (auto simp: match_round_def split: prod.splits if_splits)
      then show ?thesis using q by simp
    next
      case 3
      then have "p' = q" using assms rp by (simp add: match_round_def)
      then show ?thesis using q by simp
    next
      case 4
      then obtain t where "time_branch parse_time (scroll_to_separator p) f tp = (t, Some (p', f'))"
        using assms rp by (auto simp: match_round_def split: prod.splits if_splits)
      then show ?thesis using time_branch_progress False scroll_to_separator_length [of p] by fastforce
    qed
  qed
qed

text \<open>The loop: the \<open>time_pattern\<close> it leaves in the context, and whether the file matches.\<close>

function match_loop ::
  "(string \<Rightarrow> string \<Rightarrow> nat option) \<Rightarrow> string \<Rightarrow> bool \<Rightarrow> string \<Rightarrow> string \<Rightarrow> string \<times> bool" where
  "match_loop parse_time time_pattern single pattern_it file_it =
     (case match_round parse_time time_pattern single pattern_it file_it of
        (time_pattern, single, None) \<Rightarrow> (time_pattern, False)
      | (time_pattern, single, Some (pattern_it, file_it)) \<Rightarrow>
          if pattern_it \<noteq> [] \<and> file_it \<noteq> [] then match_loop parse_time time_pattern single pattern_it file_it
          else (time_pattern, True))"
  by pat_completeness auto

termination
  by (relation "measure (\<lambda>(parse, tp, single, p, f). length p)") (auto dest: match_round_progress [OF sym])

declare match_loop.simps [simp del]

text \<open>
  The configuration, and what the file system says of a file: its name, whether it is a regular file, its extension
  (empty when it has none), the time of its last write, and the device and the inode, or none when \<open>stat\<close> fails.
\<close>

record watchdog_config =
  wc_dir_path :: string
  wc_log_name :: string
  wc_log_variable_pattern :: string
  wc_log_extension :: string
  wc_max_files :: nat
  wc_pack_command :: string

record log_file =
  lf_name :: string
  lf_regular :: bool
  lf_extension :: string
  lf_time :: int
  lf_stat :: "(nat \<times> nat) option"

definition match_file ::
  "(string \<Rightarrow> string \<Rightarrow> nat option) \<Rightarrow> watchdog_config \<Rightarrow> string \<Rightarrow> log_file \<Rightarrow> string \<times> bool" where
  "match_file parse_time config time_pattern file =
     (if \<not> lf_regular file \<or> wc_log_variable_pattern config = [] then (time_pattern, False)
      else
        let file_name = lf_name file; n = length (wc_log_name config)
        in if wc_log_name config \<noteq> [] \<and> (n > length file_name \<or> take n file_name \<noteq> wc_log_name config)
           then (time_pattern, False)
           else if wc_log_extension config \<noteq> [] \<and>
                   (lf_extension file = [] \<or> lf_extension file \<noteq> wc_log_extension config)
           then (time_pattern, False)
           else match_loop parse_time time_pattern True (wc_log_variable_pattern config) (scroll n file_name))"

section \<open>The oldest files\<close>

text \<open>The identifiers are cut to \<open>unsigned\<close> in the tuple.\<close>

definition get_file_sequence_id :: "log_file \<Rightarrow> int \<times> nat \<times> nat" where
  "get_file_sequence_id file =
     (case lf_stat file of
        Some (dev_id, fs_id) \<Rightarrow> (lf_time file, dev_id mod 2 ^ 32, fs_id mod 2 ^ 32)
      | None \<Rightarrow> (lf_time file, 0, 0))"

fun matched_loop ::
  "(string \<Rightarrow> string \<Rightarrow> nat option) \<Rightarrow> watchdog_config \<Rightarrow> string \<Rightarrow> log_file list \<Rightarrow> log_file list" where
  "matched_loop parse_time config tp [] = []"
| "matched_loop parse_time config tp (file # files) =
     (let (tp, m) = match_file parse_time config tp file
      in if m then file # matched_loop parse_time config tp files else matched_loop parse_time config tp files)"

text \<open>
  The multimap keeps the files by their identifiers, those with the same one in the order they were emplaced; the loop
  over it acts on as many as there are too many.
\<close>

fun act_loop :: "nat \<Rightarrow> log_file list \<Rightarrow> log_file list" where
  "act_loop to_remove [] = []"
| "act_loop to_remove (item # items) = (if to_remove = 0 then [] else item # act_loop (to_remove - 1) items)"

definition base_max_files_strategy ::
  "(string \<Rightarrow> string \<Rightarrow> nat option) \<Rightarrow> watchdog_config \<Rightarrow> log_file list \<Rightarrow> log_file list" where
  "base_max_files_strategy parse_time config files =
     (if \<not> check_pattern (wc_log_variable_pattern config) then []
      else
        let matched_files = sort_key get_file_sequence_id (matched_loop parse_time config [] files)
        in if length matched_files > wc_max_files config
           then act_loop (length matched_files - wc_max_files config) matched_files else [])"

definition normalize_extension :: "string \<Rightarrow> string" where
  "normalize_extension extension =
     (if extension \<noteq> [] \<and> hd extension \<noteq> CHR ''.'' then ''.'' @ extension else extension)"

definition watchdog_config_new ::
  "string \<Rightarrow> string \<Rightarrow> string \<Rightarrow> string \<Rightarrow> nat \<Rightarrow> string \<Rightarrow> watchdog_config result" where
  "watchdog_config_new dir_path log_name log_variable_pattern log_extension max_files pack_command =
     srv_assert (check_pattern log_variable_pattern) ''Invalid log pattern''
       (srv_assert (max_files \<noteq> 0) ''Invalid max files value''
         (Inr \<lparr>wc_dir_path = dir_path, wc_log_name = log_name, wc_log_variable_pattern = log_variable_pattern,
               wc_log_extension = normalize_extension log_extension, wc_max_files = max_files,
               wc_pack_command = pack_command\<rparr>))"

text \<open>Removing: what is left in the directory. A file of the directory is known by its name.\<close>

definition remove_excess_logs ::
  "(string \<Rightarrow> string \<Rightarrow> nat option) \<Rightarrow> watchdog_config \<Rightarrow> log_file list \<Rightarrow> log_file list" where
  "remove_excess_logs parse_time config files =
     (let removed = map lf_name (base_max_files_strategy parse_time config files)
      in filter (\<lambda>f. lf_name f \<notin> set removed) files)"

text \<open>Packing: the commands that are run; their results are only logged. \<open>absolute\<close> is the path of a file.\<close>

definition pack_excess_logs ::
  "(string \<Rightarrow> string \<Rightarrow> nat option) \<Rightarrow> bool \<Rightarrow> (string \<Rightarrow> string) \<Rightarrow> watchdog_config \<Rightarrow> log_file list \<Rightarrow>
   string list result" where
  "pack_excess_logs parse_time have_shell absolute config files =
     srv_assert (wc_pack_command config \<noteq> []) ''!config.pack_command.empty()''
       (srv_assert have_shell ''Command processor is not available''
         (Inr (map (\<lambda>f. wc_pack_command config @ '' '' @ absolute (lf_name f))
                 (base_max_files_strategy parse_time config files))))"

lemma act_loop_take: "act_loop n items = take n items"
  by (induction items arbitrary: n) (auto simp: take_Cons split: nat.splits)

lemma matched_loop_subseq: "subseq (matched_loop parse_time config tp files) files"
  by (induction files arbitrary: tp) (auto split: prod.split)

lemma base_strategy_spec:
  "check_pattern (wc_log_variable_pattern config) \<Longrightarrow>
   base_max_files_strategy parse_time config files =
     (let m = sort_key get_file_sequence_id (matched_loop parse_time config [] files)
      in take (length m - wc_max_files config) m)"
  by (simp add: base_max_files_strategy_def Let_def act_loop_take)

lemma sorted_take_drop:
  assumes "sorted (map f xs)" "x \<in> set (take k xs)" "y \<in> set (drop k xs)"
  shows "f x \<le> f y"
proof -
  have "sorted (map f (take k xs) @ map f (drop k xs))"
    using assms(1) by (metis append_take_drop_id map_append)
  then show ?thesis using assms(2,3) by (auto simp: sorted_append)
qed



section \<open>What matches\<close>

lemma number_loop_digits:
  assumes "list_all is_digit ds" "no_digit_head rest" "NUL \<notin> set rest"
  shows "number_loop (ds @ rest) = (ds, rest)"
  using assms
proof (induction ds)
  case Nil
  then show ?case by (cases rest) (auto simp: no_digit_head_def)
next
  case (Cons d ds)
  then show ?case by (auto simp: Let_def)
qed

lemma pattern_symbol_digits:
  "list_all is_digit w \<Longrightarrow> \<not> is_digit c \<Longrightarrow> pattern_symbol (w @ c # r) = (c, r)"
  by (induction w) auto

definition number_ok :: "string \<Rightarrow> bool" where
  "number_ok ds = (\<not> (atoi_digits ds < 1 \<and> (\<exists>s \<in> set ds. s \<noteq> CHR ''0'')))"

lemma match_loop_rest:
  "CHR ''%'' \<notin> set p \<Longrightarrow> match_loop parse_time tp single p f = (tp, True)"
  by (subst match_loop.simps) (simp add: match_round_def read_pattern_def)

lemma match_loop_number:
  assumes "CHR ''%'' \<notin> set name" "list_all is_digit w" "CHR ''%'' \<notin> set lit"
    and "list_all is_digit ds" "no_digit_head rest" "NUL \<notin> set rest"
  shows "match_loop parse_time tp True (name @ ''%'' @ w @ ''N'' @ lit) (ds @ rest) =
    (tp, number_ok ds \<and> take (length lit) rest = lit)"
proof -
  have rp: "read_pattern (CHR ''%'' # w @ CHR ''N'' # lit) = (CHR ''N'', lit)"
    using assms(2) by (simp add: read_pattern_def scroll_def pattern_symbol_digits is_digit_def)
  have sn: "scroll_number (ds @ rest) = (if number_ok ds then Some rest else None)"
    using number_loop_digits [OF assms(4-6)] by (auto simp: scroll_number_def number_ok_def Let_def)
  have pre: "take (length lit) rest = lit \<longleftrightarrow>
      \<not> (length rest < length lit \<or> take (length lit) rest \<noteq> lit)"
    by (metis length_take min.cobounded1 not_less)
  have nb: "number_branch lit (ds @ rest) =
      (if number_ok ds \<and> take (length lit) rest = lit then Some (lit, drop (length lit) rest) else None)"
    using assms(3) pre
    by (cases "lit = []") (auto simp: number_branch_def sn Let_def between_def read_pattern_def scroll_def)
  show ?thesis
    using assms(1,3) rp nb
    by (subst match_loop.simps) (simp add: match_round_def match_loop_rest)
qed

text \<open>
  For a pattern with one number and no time the match is decided by the name of the log, the extension, the
  digits after the name and the literal text after the number. The text before the number in the pattern is not
  looked at (the name of the log stands for it), there need not be a digit, and whatever follows in the file name
  is accepted.\<close>
lemma number_pattern_match:
  assumes "wc_log_variable_pattern config = name @ ''%'' @ w @ ''N'' @ lit"
    and "CHR ''%'' \<notin> set name" "list_all is_digit w" "CHR ''%'' \<notin> set lit"
    and "lf_name file = wc_log_name config @ ds @ rest"
    and "list_all is_digit ds" "no_digit_head rest" "NUL \<notin> set rest"
  shows "snd (match_file parse_time config tp file) =
    (lf_regular file \<and> (wc_log_extension config = [] \<or> lf_extension file = wc_log_extension config) \<and>
     number_ok ds \<and> take (length lit) rest = lit)"
  using match_loop_number [OF assms(2,3,4,6,7,8), of parse_time tp] assms(1,5)
  by (auto simp: match_file_def Let_def scroll_def)

lemma number_pattern_match_witness:
  "snd (match_file (\<lambda>p t. None)
     \<lparr>wc_dir_path = [], wc_log_name = ''srv_'', wc_log_variable_pattern = ''srv_%3N.log'', wc_log_extension = ''.log'',
      wc_max_files = 2, wc_pack_command = []\<rparr> []
     \<lparr>lf_name = ''srv_012.log'', lf_regular = True, lf_extension = ''.log'', lf_time = 0, lf_stat = None\<rparr>)"
  by (subst number_pattern_match [where name = "''srv_''" and w = "''3''" and lit = "''.log''" and ds = "''012''" and
        rest = "''.log''"])
    (simp_all add: is_digit_def no_digit_head_def NUL_def number_ok_def atoi_digits_def digit_val_def
      nat_of_digits_def char_of_def)

text \<open>
  A file that the logger never wrote is removed in the place of a log: with the pattern \<open>app_%N\<close> and the
  extension \<open>.log\<close> the file \<open>app_notes.log\<close> counts as a log without a number.\<close>
lemma foreign_file_removed:
  "let config = \<lparr>wc_dir_path = [], wc_log_name = ''app_'', wc_log_variable_pattern = ''app_%N'',
                 wc_log_extension = ''.log'', wc_max_files = 1, wc_pack_command = []\<rparr>;
       notes = \<lparr>lf_name = ''app_notes.log'', lf_regular = True, lf_extension = ''.log'', lf_time = 1, lf_stat = None\<rparr>;
       log1 = \<lparr>lf_name = ''app_1.log'', lf_regular = True, lf_extension = ''.log'', lf_time = 2, lf_stat = None\<rparr>
   in remove_excess_logs parse_time config [log1, notes] = [log1]"
proof -
  let ?c = "\<lparr>wc_dir_path = [], wc_log_name = ''app_'', wc_log_variable_pattern = ''app_%N'',
                 wc_log_extension = ''.log'', wc_max_files = 1, wc_pack_command = []\<rparr>"
  note one = match_loop_number [of "''app_''" "[]" "[]" "''1''" "''.log''" parse_time]
    match_loop_number [of "''app_''" "[]" "[]" "[]" "''notes.log''" parse_time]
  show ?thesis
    using one
    by (simp add: remove_excess_logs_def base_max_files_strategy_def match_file_def scroll_def check_pattern_def
        get_file_sequence_id_def is_digit_def no_digit_head_def NUL_def number_ok_def atoi_digits_def digit_val_def
        nat_of_digits_def char_of_def)
qed

text \<open>
  A number that directly follows the time is cut off from the time pattern only when something comes after it:
  at the end of the pattern it is handed to the parser of the time. A time that directly follows a number is skipped,
  and anything matches in its place.\<close>
lemma adjacent_patterns:
  "find_time_pattern ''%Y-%m-%d_%N.log'' = (Some ''%Y-%m-%d_'', ''%N.log'') \<and>
   find_time_pattern ''%Y-%m-%d_%N'' = (Some ''%Y-%m-%d_%N'', []) \<and>
   match_loop parse_time [] True ''%N%Y'' ''7garbage'' = ([], True)"
  by (simp add: find_time_pattern_def time_end.simps read_pattern_def scroll_def is_digit_def between_def
      match_loop.simps match_round_def number_branch_def scroll_number_def number_loop.simps NUL_def char_of_def
      atoi_digits_def digit_val_def nat_of_digits_def)

section \<open>Watching\<close>

text \<open>
  What is posted to the loop of the watchdog: a strategy that is run once, or again and again, after so many seconds. A
  strategy works on the directory, or throws, which leaves the loop.
\<close>

datatype watch_task = Watch_repeat nat | Watch_once

definition post_watch :: "nat \<Rightarrow> watch_task \<Rightarrow> (nat \<times> watch_task) list \<Rightarrow> (nat \<times> watch_task) list result" where
  "post_watch seconds t posted =
     srv_assert (0 < seconds) ''1 millisecond is minimum timer accuracy'' (Inr (posted @ [(seconds, t)]))"

definition watch :: "nat \<Rightarrow> (nat \<times> watch_task) list \<Rightarrow> (nat \<times> watch_task) list result" where
  "watch seconds posted = post_watch seconds (Watch_repeat seconds) posted"

definition watch_once :: "nat \<Rightarrow> (nat \<times> watch_task) list \<Rightarrow> (nat \<times> watch_task) list result" where
  "watch_once seconds posted = post_watch seconds Watch_once posted"

definition watch_now :: "(nat \<times> watch_task) list \<Rightarrow> (nat \<times> watch_task) list" where
  "watch_now posted = posted @ [(0, Watch_once)]"

definition synch_watch :: "('s \<Rightarrow> 's result) \<Rightarrow> 's \<Rightarrow> 's result" where
  "synch_watch strategy s = strategy s"

definition watch_run :: "('s \<Rightarrow> 's result) \<Rightarrow> watch_task \<Rightarrow> (nat \<times> watch_task) list \<Rightarrow> 's \<Rightarrow>
    ((nat \<times> watch_task) list \<times> 's) result" where
  "watch_run strategy t posted s =
     rbind (synch_watch strategy s) (\<lambda>s'.
       case t of
         Watch_repeat seconds \<Rightarrow> rbind (watch seconds posted) (\<lambda>posted'. Inr (posted', s'))
       | Watch_once \<Rightarrow> Inr (posted, s'))"

text \<open>A watch that was accepted is posted again after each run of a strategy that does not throw.\<close>

lemma watch_goes_on:
  assumes "watch seconds posted = Inr posted'" "strategy s = Inr s'"
  shows "\<exists>t. posted' = posted @ [(seconds, t)] \<and> watch_run strategy t posted s = Inr (posted', s')"
  using assms by (auto simp: watch_def post_watch_def watch_run_def synch_watch_def)

end
