(* ===== verification/Logger.thy ===== *)
theory Logger
  imports Prelude
begin

text \<open>
  The logger (src/logger.cpp, include/server_lib/logger.h): the filters of levels and details and their setting from
  the environment, messages and the paths they name, the appenders, and the destinations that are added to it. The
  core of \<open>boost::log\<close> is what it is handed: the sink it holds, and one record for each message. The bits of an
  \<open>int\<close> are those of the integers, whose complement is that of the two's complement.
\<close>

unbundle bit_operations_syntax

section \<open>Levels and details\<close>

datatype level = Fatal_level | Error_level | Warning_level | Info_level | Debug_level | Trace_level

definition level_value :: "level \<Rightarrow> int" where
  "level_value lv =
     (case lv of
        Fatal_level \<Rightarrow> 0x0 | Error_level \<Rightarrow> 0x1 | Warning_level \<Rightarrow> 0x2 | Info_level \<Rightarrow> 0x4
      | Debug_level \<Rightarrow> 0x8 | Trace_level \<Rightarrow> 0x10)"

definition level_trace :: int where
  "level_trace = level_value Fatal_level"

definition level_debug :: int where
  "level_debug = level_value Trace_level"

definition level_info :: int where
  "level_info = level_debug + level_value Debug_level"

definition level_warning :: int where
  "level_warning = level_info + level_value Info_level"

definition level_error :: int where
  "level_error = level_warning + level_value Warning_level"

datatype details =
    Without_app_name | Without_time | Without_microseconds | Without_level | Without_thread_info | Without_source_code

definition details_value :: "details \<Rightarrow> int" where
  "details_value d =
     (case d of
        Without_app_name \<Rightarrow> 0x1 | Without_time \<Rightarrow> 0x2 | Without_microseconds \<Rightarrow> 0x4 | Without_level \<Rightarrow> 0x8
      | Without_thread_info \<Rightarrow> 0x10 | Without_source_code \<Rightarrow> 0x20)"

definition details_message_with_level :: int where
  "details_message_with_level =
     details_value Without_app_name + details_value Without_time + details_value Without_microseconds +
     details_value Without_thread_info + details_value Without_source_code"

definition details_message_without_source_code :: int where
  "details_message_without_source_code = details_value Without_app_name + details_value Without_source_code"

definition details_message_only :: int where
  "details_message_only = details_message_with_level + details_value Without_level"

text \<open>\<open>~filter & static_cast<int>(details::d)\<close>, the test of every use of a detail.\<close>

definition detail_on :: "int \<Rightarrow> details \<Rightarrow> bool" where
  "detail_on flt d = ((NOT flt) AND details_value d \<noteq> 0)"

definition level_not_filtered :: "int \<Rightarrow> level \<Rightarrow> bool" where
  "level_not_filtered flt lv = (level_value lv = 0 \<or> (NOT flt) AND level_value lv \<noteq> 0)"

section \<open>Paths of source files\<close>

text \<open>
  \<open>trim_file_path\<close>: the loop over the path, with what is still compared of the root (none is the null pointer) and
  how many characters may still be taken. The end of the root is a zero, which no character of the path equals.
\<close>

fun trim_loop :: "string \<Rightarrow> string option \<Rightarrow> nat \<Rightarrow> string" where
  "trim_loop [] proot file_sz = []"
| "trim_loop (ch # pfile) proot file_sz =
     (if file_sz = 0 then []
      else case proot of
             None \<Rightarrow> ch # trim_loop pfile None (file_sz - 1)
           | Some [] \<Rightarrow> trim_loop pfile None file_sz
           | Some (r # rs) \<Rightarrow> if ch \<noteq> r then trim_loop pfile None file_sz else trim_loop pfile (Some rs) file_sz)"

definition trim_file_path :: "nat \<Rightarrow> string \<Rightarrow> nat \<Rightarrow> string option \<Rightarrow> string" where
  "trim_file_path file_sz file root_dir_sz root_dir =
     (case root_dir of
        Some root \<Rightarrow> trim_loop file (Some root) (if root_dir_sz < file_sz then file_sz - root_dir_sz else file_sz)
      | None \<Rightarrow> take file_sz (file @ [char_of (0 :: nat)]))"

section \<open>Messages\<close>

type_synonym thread_info = "nat \<times> string \<times> bool"

definition get_thread_id :: "thread_info \<Rightarrow> nat" where
  "get_thread_id ti = fst ti"

definition get_thread_name :: "thread_info \<Rightarrow> string" where
  "get_thread_name ti = (if fst (snd ti) = [] then ''?'' else fst (snd ti))"

definition get_thread_main :: "thread_info \<Rightarrow> bool" where
  "get_thread_main ti = snd (snd ti)"

definition set_thread_main :: "thread_info \<Rightarrow> thread_info" where
  "set_thread_main ti = (get_thread_id ti, get_thread_name ti, True)"

record log_message =
  lm_id :: "64 word"
  lm_lv :: level
  lm_file :: string
  lm_line :: int
  lm_func :: string
  lm_thread :: thread_info
  lm_text :: string

section \<open>The logger\<close>

text \<open>
  A destination of the code's own is known by its number; what the handler of a number does with a message is given by
  the environment, which says with what it throws. The appender of a boost destination holds the address of the
  \<open>boost_logger_impl\<close> of its time, here the number of that object.
\<close>

datatype appender = Boost_appender nat | Syslog_appender | Custom_appender nat

datatype sink_kind = Cli_sink bool bool bool | File_sink string nat

record sink =
  sk_kind :: sink_kind
  sk_format :: string
  sk_time_format :: string

datatype log_output =
    Core_record level string int string nat string string
  | Syslog_line nat string
  | Handler_called nat log_message int
  | Trace_signal string
  | Core_flush

record logger =
  lg_boost_impl :: "nat option"
  lg_boost_count :: nat
  lg_appenders :: "appender list"
  lg_time_format :: string
  lg_level_filter :: int
  lg_details_filter :: int
  lg_autoflush :: bool
  lg_logs_on :: bool
  lg_core_sink :: "sink option"
  lg_id_counter :: "64 word"

definition logger_new :: logger where
  "logger_new =
     \<lparr>lg_boost_impl = None, lg_boost_count = 0, lg_appenders = [], lg_time_format = ''%Y-%m-%dT%H:%M:%S'',
      lg_level_filter = level_trace, lg_details_filter = details_value Without_app_name, lg_autoflush = False,
      lg_logs_on = False, lg_core_sink = None, lg_id_counter = 0\<rparr>"

definition set_level :: "int \<Rightarrow> logger \<Rightarrow> logger result" where
  "set_level flt lg =
     (let max_filter = level_value Error_level + level_value Warning_level + level_value Info_level +
                       level_value Debug_level + level_value Trace_level
      in srv_assert (flt \<ge> 0 \<and> flt \<le> max_filter) ''filter >= 0 && filter <= max_filter''
           (Inr (lg\<lparr>lg_level_filter := flt\<rparr>)))"

definition set_details :: "int \<Rightarrow> logger \<Rightarrow> logger result" where
  "set_details flt lg =
     srv_assert (lg_boost_impl lg = None) ''Details should be set before boost appender creation''
       (let max_filter = details_value Without_app_name + details_value Without_time +
                         details_value Without_microseconds + details_value Without_level +
                         details_value Without_thread_info + details_value Without_source_code
        in srv_assert (flt \<ge> 0 \<and> flt \<le> max_filter) ''filter >= 0 && filter <= max_filter''
             (Inr (lg\<lparr>lg_details_filter := flt\<rparr>)))"

definition set_autoflush :: "bool \<Rightarrow> logger \<Rightarrow> logger result" where
  "set_autoflush flush lg =
     srv_assert (lg_boost_impl lg = None) ''Autoflush option should be set before boost appender creation''
       (Inr (lg\<lparr>lg_autoflush := flush\<rparr>))"

text \<open>The argument may be a null pointer.\<close>

definition set_time_format :: "string option \<Rightarrow> logger \<Rightarrow> logger result" where
  "set_time_format time_format lg =
     srv_assert (lg_boost_impl lg = None) ''Time format should be set before boost appender creation''
       (case time_format of
          None \<Rightarrow> Inl (Logic_error ''Invalid time format'')
        | Some f \<Rightarrow> srv_assert (length f > 1) ''Invalid time format'' (Inr (lg\<lparr>lg_time_format := f\<rparr>)))"

definition logger_lock :: "logger \<Rightarrow> logger" where
  "logger_lock lg = lg\<lparr>lg_logs_on := False\<rparr>"

definition logger_unlock :: "logger \<Rightarrow> logger" where
  "logger_unlock lg = lg\<lparr>lg_logs_on := True\<rparr>"

definition add_destination :: "appender \<Rightarrow> logger \<Rightarrow> logger" where
  "add_destination handler lg = lg\<lparr>lg_appenders := lg_appenders lg @ [handler]\<rparr>"

definition is_not_filtered :: "level \<Rightarrow> logger \<Rightarrow> bool" where
  "is_not_filtered lv lg = level_not_filtered (lg_level_filter lg) lv"

section \<open>The environment\<close>

text \<open>
  \<open>strtol\<close> in base ten, on 64 bits: the value, cut to the range of \<open>long\<close>, and where it stopped, which is the
  start when there are no digits. The caller hands the value to an \<open>int\<close> parameter.
\<close>

definition strtol :: "string \<Rightarrow> int \<times> string" where
  "strtol s =
     (let (neg, r) = split_sign (dropWhile is_space s);
          ds = digits_prefix 10 r;
          n = int (nat_of_digits 10 ds)
      in if ds = [] then (0, s)
         else (if neg then max (- (2 ^ 63)) (- n) else min (2 ^ 63 - 1) n, drop (length ds) r))"

definition as_int :: "int \<Rightarrow> int" where
  "as_int n = sint (word_of_int n :: 32 word)"

definition set_level_from_environment :: "string option \<Rightarrow> logger \<Rightarrow> logger result" where
  "set_level_from_environment var_val lg =
     (case var_val of
        None \<Rightarrow> Inr lg
      | Some v \<Rightarrow>
          let (input_filter, end) = strtol v
          in if end = [] then set_level (as_int input_filter) lg
             else if find_sub ''TRACE'' v = Some 0 then set_level level_trace lg
             else if find_sub ''DEBUG'' v = Some 0 then set_level level_debug lg
             else if find_sub ''INF'' v = Some 0 then set_level level_info lg
             else if find_sub ''WARN'' v = Some 0 then set_level level_warning lg
             else if find_sub ''ERR'' v = Some 0 then set_level level_error lg
             else Inl (Logic_error ''Invalid enviroment variable value for logger level''))"

definition set_details_from_environment :: "string option \<Rightarrow> logger \<Rightarrow> logger result" where
  "set_details_from_environment var_val lg =
     (case var_val of
        None \<Rightarrow> Inr lg
      | Some v \<Rightarrow>
          let (input_filter, end) = strtol v
          in if end = [] then set_details (as_int input_filter) lg
             else Inl (Logic_error ''Invalid enviroment variable value for details''))"

section \<open>Destinations\<close>

text \<open>\<open>add_boost_log_destination\<close>: the format of a line, and the format of its time.\<close>

definition boost_format :: "int \<Rightarrow> string" where
  "boost_format flt =
     (let f1 = (if detail_on flt Without_app_name then ''%1%: '' else []);
          f2 = (if detail_on flt Without_time then ''%2% '' else []);
          f3 = (if detail_on flt Without_level then ''[%3%]'' else []);
          f4 = (if detail_on flt Without_thread_info then ''[%4%-%5%]'' else []);
          prefix = (detail_on flt Without_app_name \<or> detail_on flt Without_time \<or> detail_on flt Without_level \<or>
                    detail_on flt Without_thread_info)
      in f1 @ f2 @ f3 @ f4 @ (if prefix then '' '' else []) @ ''%6%'' @
         (if detail_on flt Without_source_code then '' (from %7%:%8%)'' else []))"

definition add_boost_log_destination :: "sink_kind \<Rightarrow> string \<Rightarrow> logger \<Rightarrow> logger" where
  "add_boost_log_destination kind time_format lg =
     (let flt = lg_details_filter lg;
          fmt = (if detail_on flt Without_microseconds then time_format @ ''.%f'' else time_format);
          snk = \<lparr>sk_kind = kind, sk_format = boost_format flt, sk_time_format = fmt\<rparr>;
          impl = lg_boost_count lg
      in add_destination (Boost_appender impl)
           (lg\<lparr>lg_core_sink := Some snk, lg_boost_impl := Some impl, lg_boost_count := Suc impl\<rparr>))"

definition init_cli_log :: "bool \<Rightarrow> bool \<Rightarrow> logger \<Rightarrow> logger" where
  "init_cli_log async cerr lg =
     logger_unlock (add_boost_log_destination (Cli_sink async cerr (lg_autoflush lg)) (lg_time_format lg) lg)"

definition init_file_log :: "string \<Rightarrow> nat \<Rightarrow> logger \<Rightarrow> logger" where
  "init_file_log file_path rotation_size_kb lg =
     logger_unlock (add_boost_log_destination (File_sink file_path (rotation_size_kb * 1024 mod 2 ^ 64))
       (lg_time_format lg) lg)"

definition init_sys_log :: "logger \<Rightarrow> logger" where
  "init_sys_log lg = logger_unlock (add_destination Syslog_appender lg)"

section \<open>Writing\<close>

text \<open>
  The environment of a message: the name of the application, the thread that writes, the main thread, the root of the
  sources with its size, with what a custom handler throws, and the value that the line of a message has before it is
  set, which the code reads.
\<close>

record log_env =
  le_app_name :: string
  le_thread :: thread_info
  le_main_thread :: thread_info
  le_root_dir_sz :: nat
  le_root_dir :: "string option"
  le_unset_line :: int
  le_handler_throws :: "nat \<Rightarrow> log_message \<Rightarrow> string option"

definition create_message ::
  "log_env \<Rightarrow> level \<Rightarrow> nat \<Rightarrow> string \<Rightarrow> int \<Rightarrow> string \<Rightarrow> logger \<Rightarrow> log_message \<times> logger" where
  "create_message env lv file_sz file line func lg =
     (let msg = \<lparr>lm_id = lg_id_counter lg, lm_lv = lv, lm_file = [], lm_line = le_unset_line env, lm_func = [],
                 lm_thread = (0, [], False), lm_text = []\<rparr>;
          lg = lg\<lparr>lg_id_counter := lg_id_counter lg + 1\<rparr>;
          ti = le_thread env;
          ti = (if get_thread_id ti = get_thread_id (le_main_thread env) then set_thread_main ti else ti);
          msg = (if detail_on (lg_details_filter lg) Without_thread_info then msg\<lparr>lm_thread := ti\<rparr> else msg);
          msg = (if detail_on (lg_details_filter lg) Without_source_code
                 then msg\<lparr>lm_file := trim_file_path file_sz file (le_root_dir_sz env) (le_root_dir env),
                          lm_line := line, lm_func := func\<rparr>
                 else msg)
      in (msg, lg))"

definition syslog_priority :: "level \<Rightarrow> nat" where
  "syslog_priority lv =
     (case lv of
        Trace_level \<Rightarrow> 7 | Debug_level \<Rightarrow> 7 | Info_level \<Rightarrow> 6 | Warning_level \<Rightarrow> 4 | Error_level \<Rightarrow> 3
      | Fatal_level \<Rightarrow> 2)"

text \<open>\<open>boost_write\<close>; it uses the logger object whose address it was given.\<close>

definition boost_write :: "log_env \<Rightarrow> nat option \<Rightarrow> nat \<Rightarrow> log_message \<Rightarrow> int \<Rightarrow> log_output result" where
  "boost_write env current pl msg flt =
     (if current \<noteq> Some pl then Inl (Undefined ''use of a destroyed boost_logger_impl'')
      else Inr (Core_record (lm_lv msg)
             (if detail_on flt Without_app_name then le_app_name env else [])
             (lm_line msg)
             (if detail_on flt Without_source_code then lm_file msg else [])
             (if detail_on flt Without_thread_info then get_thread_id (lm_thread msg) else 0)
             (if detail_on flt Without_thread_info then get_thread_name (lm_thread msg) else [])
             (lm_text msg)))"

definition c_str :: "string \<Rightarrow> string" where
  "c_str s = takeWhile (\<lambda>c. c \<noteq> char_of (0 :: nat)) s"

definition syslog_write :: "log_message \<Rightarrow> int \<Rightarrow> log_output" where
  "syslog_write msg flt =
     Syslog_line (syslog_priority (lm_lv msg))
       (if detail_on flt Without_source_code
        then c_str (lm_text msg) @ '' (from '' @ c_str (lm_file msg) @ '':'' @
             (if lm_line msg < 0 then ''-'' @ to_dec (nat (- lm_line msg)) else to_dec (nat (lm_line msg))) @ '')''
        else c_str (lm_text msg))"

text \<open>One appender: what it puts out, and with what it throws.\<close>

definition append_message ::
  "log_env \<Rightarrow> nat option \<Rightarrow> log_message \<Rightarrow> int \<Rightarrow> appender \<Rightarrow> log_output list \<times> srv_error option" where
  "append_message env current msg flt a =
     (case a of
        Boost_appender pl \<Rightarrow>
          (case boost_write env current pl msg flt of Inl e \<Rightarrow> ([], Some e) | Inr out \<Rightarrow> ([out], None))
      | Syslog_appender \<Rightarrow> ([syslog_write msg flt], None)
      | Custom_appender h \<Rightarrow> ([Handler_called h msg flt], map_option Failure (le_handler_throws env h msg)))"

fun appenders_loop ::
  "log_env \<Rightarrow> nat option \<Rightarrow> log_message \<Rightarrow> int \<Rightarrow> appender list \<Rightarrow> log_output list \<times> srv_error option" where
  "appenders_loop env current msg flt [] = ([], None)"
| "appenders_loop env current msg flt (a # as) =
     (case append_message env current msg flt a of
        (out, Some e) \<Rightarrow> (out, Some e)
      | (out, None) \<Rightarrow> (let (outs, e) = appenders_loop env current msg flt as in (out @ outs, e)))"

text \<open>
  \<open>write\<close>: an exception of an appender is caught, and traced in a debug build, which is the one modelled; an
  undefined use is no exception.
\<close>

definition logger_write :: "log_env \<Rightarrow> log_message \<Rightarrow> logger \<Rightarrow> log_output list result" where
  "logger_write env msg lg =
     (if \<not> lg_logs_on lg then Inr []
      else if is_not_filtered (lm_lv msg) lg then
        (case appenders_loop env (lg_boost_impl lg) msg (lg_details_filter lg) (lg_appenders lg) of
           (outs, None) \<Rightarrow> Inr outs
         | (outs, Some (Failure what)) \<Rightarrow> Inr (outs @ [Trace_signal what])
         | (outs, Some e) \<Rightarrow> Inl e)
      else Inr [])"

definition logger_flush :: "logger \<Rightarrow> log_output list" where
  "logger_flush lg = (if \<not> lg_logs_on lg then [] else if lg_appenders lg \<noteq> [] then [Core_flush] else [])"

text \<open>The macro \<open>LOG_LOG\<close>: the size is that of the literal, its terminating zero included.\<close>

definition log_log ::
  "log_env \<Rightarrow> level \<Rightarrow> string \<Rightarrow> int \<Rightarrow> string \<Rightarrow> string \<Rightarrow> logger \<Rightarrow> (log_output list \<times> logger) result" where
  "log_log env lv file line func arg lg =
     (if is_not_filtered lv lg then
        let (msg, lg) = create_message env lv (length file + 1) file line func lg
        in rbind (logger_write env (msg\<lparr>lm_text := arg\<rparr>) lg) (\<lambda>outs. Inr (outs, lg))
      else Inr ([], lg))"

text \<open>
  The streaming form \<open>LOG(LEVEL) << ...\<close>: the body of its loop runs once, and the destructor of the stream message
  writes what was streamed.
\<close>

definition create_stream_message ::
  "log_env \<Rightarrow> level \<Rightarrow> nat \<Rightarrow> string \<Rightarrow> int \<Rightarrow> string \<Rightarrow> logger \<Rightarrow> log_message \<times> logger" where
  "create_stream_message env lv file_sz file line func lg = create_message env lv file_sz file line func lg"

definition stream_message_done :: "log_env \<Rightarrow> log_message \<Rightarrow> logger \<Rightarrow> log_output list result" where
  "stream_message_done env msg lg = logger_write env msg lg"

definition log_alternative ::
  "log_env \<Rightarrow> level \<Rightarrow> string \<Rightarrow> int \<Rightarrow> string \<Rightarrow> string \<Rightarrow> logger \<Rightarrow> (log_output list \<times> logger) result" where
  "log_alternative env lv file line func arg lg =
     (if is_not_filtered Trace_level lg then
        let (msg, lg) = create_stream_message env lv (length file + 1) file line func lg
        in rbind (stream_message_done env (msg\<lparr>lm_text := arg\<rparr>) lg) (\<lambda>outs. Inr (outs, lg))
      else Inr ([], lg))"

section \<open>What is filtered\<close>

definition all_levels :: "level list" where
  "all_levels = [Fatal_level, Error_level, Warning_level, Info_level, Debug_level, Trace_level]"

lemma level_bits:
  "level_not_filtered f lv = (lv = Fatal_level \<or> \<not> bit f (case lv of Fatal_level \<Rightarrow> 0 | Error_level \<Rightarrow> 0
     | Warning_level \<Rightarrow> 1 | Info_level \<Rightarrow> 2 | Debug_level \<Rightarrow> 3 | Trace_level \<Rightarrow> 4))"
proof -
  have b: "(NOT f) AND 2 ^ n \<noteq> 0 \<longleftrightarrow> \<not> bit f n" for n
  proof -
    have "(NOT f) AND 2 ^ n = (if bit (NOT f) n then 2 ^ n else 0)"
      by (rule bit_eqI) (auto simp: bit_and_iff bit_exp_iff)
    then show ?thesis by (simp add: bit_not_iff)
  qed
  show ?thesis
    using b [of 0] b [of 1] b [of 2] b [of 3] b [of 4]
    by (cases lv) (simp_all add: level_not_filtered_def level_value_def)
qed

text \<open>
  Each named constant lets through exactly the levels that are as severe as its name, and no filter holds
  back a fatal message.\<close>
lemma level_thresholds:
  "filter (level_not_filtered level_trace) all_levels = all_levels \<and>
   filter (level_not_filtered level_debug) all_levels = take 5 all_levels \<and>
   filter (level_not_filtered level_info) all_levels = take 4 all_levels \<and>
   filter (level_not_filtered level_warning) all_levels = take 3 all_levels \<and>
   filter (level_not_filtered level_error) all_levels = take 2 all_levels \<and>
   level_not_filtered flt Fatal_level"
  by (simp add: all_levels_def level_bits) 
    (simp add: level_error_def level_warning_def level_info_def level_debug_def level_trace_def level_value_def
      bit_iff_odd)

text \<open>
  The streaming form asks for the filter of the level trace, whatever its own: unless everything is logged it logs
  nothing, not even a fatal message.
\<close>
lemma stream_macro_asks_trace:
  "bit (lg_level_filter lg) 4 \<Longrightarrow>
   log_alternative env lv file line func arg lg = Inr ([], lg) \<and> is_not_filtered Fatal_level lg"
  "\<not> bit (lg_level_filter lg) 4 \<Longrightarrow> is_not_filtered lv lg \<Longrightarrow>
   log_alternative env lv file line func arg lg = log_log env lv file line func arg lg"
  by (simp_all add: log_alternative_def log_log_def is_not_filtered_def level_bits create_stream_message_def
      stream_message_done_def)

section \<open>Every sequence of calls\<close>

text \<open>A call on the logger; one that throws leaves it as it was. Writing a message only counts it.\<close>

datatype logger_op =
    Op_set_level int
  | Op_level_from_environment "string option"
  | Op_set_details int
  | Op_details_from_environment "string option"
  | Op_set_autoflush bool
  | Op_set_time_format "string option"
  | Op_lock
  | Op_unlock
  | Op_add_destination nat
  | Op_init_cli_log bool bool
  | Op_init_file_log string nat
  | Op_init_sys_log
  | Op_create_message log_env level string int string

definition or_same :: "logger \<Rightarrow> logger result \<Rightarrow> logger" where
  "or_same lg r = (case r of Inl e \<Rightarrow> lg | Inr lg' \<Rightarrow> lg')"

fun logger_do :: "logger_op \<Rightarrow> logger \<Rightarrow> logger" where
  "logger_do (Op_set_level f) lg = or_same lg (set_level f lg)"
| "logger_do (Op_level_from_environment v) lg = or_same lg (set_level_from_environment v lg)"
| "logger_do (Op_set_details f) lg = or_same lg (set_details f lg)"
| "logger_do (Op_details_from_environment v) lg = or_same lg (set_details_from_environment v lg)"
| "logger_do (Op_set_autoflush b) lg = or_same lg (set_autoflush b lg)"
| "logger_do (Op_set_time_format f) lg = or_same lg (set_time_format f lg)"
| "logger_do Op_lock lg = logger_lock lg"
| "logger_do Op_unlock lg = logger_unlock lg"
| "logger_do (Op_add_destination h) lg = add_destination (Custom_appender h) lg"
| "logger_do (Op_init_cli_log async cerr) lg = init_cli_log async cerr lg"
| "logger_do (Op_init_file_log path kb) lg = init_file_log path kb lg"
| "logger_do Op_init_sys_log lg = init_sys_log lg"
| "logger_do (Op_create_message env lv file line func) lg =
     snd (create_message env lv (length file + 1) file line func lg)"

definition logger_run :: "logger_op list \<Rightarrow> logger" where
  "logger_run ops = foldl (\<lambda>lg op. logger_do op lg) logger_new ops"

fun is_boost_op :: "logger_op \<Rightarrow> bool" where
  "is_boost_op (Op_init_cli_log async cerr) = True"
| "is_boost_op (Op_init_file_log path kb) = True"
| "is_boost_op _ = False"

fun boost_number :: "appender \<Rightarrow> nat list" where
  "boost_number (Boost_appender n) = [n]"
| "boost_number _ = []"

definition boost_numbers :: "appender list \<Rightarrow> nat list" where
  "boost_numbers as = concat (map boost_number as)"

definition logger_ok :: "logger \<Rightarrow> bool" where
  "logger_ok lg =
     (0 \<le> lg_level_filter lg \<and> lg_level_filter lg \<le> 31 \<and> 0 \<le> lg_details_filter lg \<and> lg_details_filter lg \<le> 63 \<and>
      lg_boost_impl lg = (if lg_boost_count lg = 0 then None else Some (lg_boost_count lg - 1)) \<and>
      (lg_core_sink lg = None) = (lg_boost_count lg = 0) \<and>
      boost_numbers (lg_appenders lg) = [0..<lg_boost_count lg])"

lemmas setting_defs = set_level_def set_details_def set_autoflush_def set_time_format_def logger_lock_def
  logger_unlock_def add_destination_def init_cli_log_def init_file_log_def init_sys_log_def
  add_boost_log_destination_def create_message_def or_same_def Let_def

lemma named_levels_range:
  "0 \<le> level_trace" "level_trace \<le> 31" "0 \<le> level_debug" "level_debug \<le> 31" "0 \<le> level_info" "level_info \<le> 31"
  "0 \<le> level_warning" "level_warning \<le> 31" "0 \<le> level_error" "level_error \<le> 31"
  by (simp_all add: level_error_def level_warning_def level_info_def level_debug_def level_trace_def level_value_def)

lemma set_level_ok: "logger_ok lg \<Longrightarrow> logger_ok (or_same lg (set_level f lg))"
  by (simp add: set_level_def or_same_def Let_def srv_assert_def level_value_def logger_ok_def)

lemma set_details_ok: "logger_ok lg \<Longrightarrow> logger_ok (or_same lg (set_details f lg))"
  by (simp add: set_details_def or_same_def Let_def srv_assert_def details_value_def logger_ok_def)

lemma or_same_Inl [simp]: "or_same lg (Inl e) = lg"
  by (simp add: or_same_def)

lemma or_same_id [simp]: "or_same lg (Inr lg') = lg'"
  by (simp add: or_same_def)

lemma boost_numbers_snoc [simp]: "boost_numbers (as @ [a]) = boost_numbers as @ boost_number a"
  by (simp add: boost_numbers_def)

lemma logger_do_ok [inv_intros]: "logger_ok lg \<Longrightarrow> logger_ok (logger_do op lg)"
proof (cases op)
  case (Op_level_from_environment v)
  assume "logger_ok lg"
  then show ?thesis
    using Op_level_from_environment set_level_ok
    by (simp add: set_level_from_environment_def split: option.split prod.split)
next
  case (Op_details_from_environment v)
  assume "logger_ok lg"
  then show ?thesis
    using Op_details_from_environment set_details_ok
    by (simp add: set_details_from_environment_def split: option.split prod.split)
qed (auto simp: set_level_ok set_details_ok logger_ok_def setting_defs srv_assert_def level_value_def
    details_value_def split: option.split)

lemma logger_run_snoc: "logger_run (ops @ [op]) = logger_do op (logger_run ops)"
  by (simp add: logger_run_def)

lemma logger_run_ok: "logger_ok (logger_run ops)"
proof (induction ops rule: rev_induct)
  case Nil
  show ?case
    by (simp add: logger_run_def logger_ok_def logger_new_def level_trace_def level_value_def details_value_def
        boost_numbers_def)
qed (simp add: logger_run_snoc logger_do_ok)

lemma boost_count_do: "lg_boost_count (logger_do op lg) = lg_boost_count lg + (if is_boost_op op then 1 else 0)"
  by (cases op)
    (auto simp: setting_defs srv_assert_def set_level_from_environment_def set_details_from_environment_def
      split: option.split prod.split)

lemma boost_count_run: "lg_boost_count (logger_run ops) = length (filter is_boost_op ops)"
proof (induction ops rule: rev_induct)
  case Nil
  show ?case by (simp add: logger_run_def logger_new_def)
qed (simp add: logger_run_snoc boost_count_do)

text \<open>C38: Whatever is called, and however it fails, the filters stay within their bits, and the core of the log has a
  sink exactly when a boost destination was added.\<close>
theorem logger_well_formed:
  "lg_level_filter (logger_run ops) \<in> {0..31} \<and> lg_details_filter (logger_run ops) \<in> {0..63} \<and>
   (lg_core_sink (logger_run ops) = None) = (filter is_boost_op ops = [])"
  using logger_run_ok [of ops] boost_count_run [of ops] by (simp add: logger_ok_def)

section \<open>What is delivered\<close>

definition safe_appender :: "nat option \<Rightarrow> appender \<Rightarrow> bool" where
  "safe_appender current a = (case a of Boost_appender n \<Rightarrow> current = Some n | _ \<Rightarrow> True)"

definition quiet_appender :: "log_env \<Rightarrow> log_message \<Rightarrow> appender \<Rightarrow> bool" where
  "quiet_appender env msg a = (case a of Custom_appender h \<Rightarrow> le_handler_throws env h msg = None | _ \<Rightarrow> True)"

definition appender_output :: "log_env \<Rightarrow> nat option \<Rightarrow> log_message \<Rightarrow> int \<Rightarrow> appender \<Rightarrow> log_output list" where
  "appender_output env current msg flt a = fst (append_message env current msg flt a)"

lemma append_message_safe:
  "safe_appender current a \<Longrightarrow> quiet_appender env msg a \<Longrightarrow>
   append_message env current msg flt a = (appender_output env current msg flt a, None) \<and>
   length (appender_output env current msg flt a) = 1"
  by (cases a) (auto simp: append_message_def appender_output_def boost_write_def safe_appender_def quiet_appender_def)

lemma appenders_loop_safe:
  "list_all (safe_appender current) as \<Longrightarrow> list_all (quiet_appender env msg) as \<Longrightarrow>
   appenders_loop env current msg flt as = (concat (map (appender_output env current msg flt) as), None)"
  by (induction as) (auto simp: append_message_safe)

lemma appenders_loop_split:
  "list_all (safe_appender current) as \<Longrightarrow> list_all (quiet_appender env msg) as \<Longrightarrow>
   appenders_loop env current msg flt (as @ bs) =
     (let (outs, e) = appenders_loop env current msg flt bs
      in (concat (map (appender_output env current msg flt) as) @ outs, e))"
  by (induction as) (auto simp: append_message_safe Let_def split: prod.split)

lemma boost_numbers_safe:
  "list_all (safe_appender current) as \<longleftrightarrow> (\<forall>n \<in> set (boost_numbers as). current = Some n)"
  by (induction as) (auto simp: boost_numbers_def safe_appender_def split: appender.splits)

lemma appenders_loop_dangling:
  assumes "\<not> list_all (safe_appender current) as" "list_all (quiet_appender env msg) as"
  shows "\<exists>outs m. appenders_loop env current msg flt as = (outs, Some (Undefined m))"
  using assms
proof (induction as)
  case (Cons a as)
  show ?case
  proof (cases "safe_appender current a")
    case True
    then show ?thesis using Cons append_message_safe [OF True, of env msg flt] by (auto simp: Let_def)
  next
    case False
    then obtain n where "a = Boost_appender n" "current \<noteq> Some n"
      by (cases a) (auto simp: safe_appender_def)
    then show ?thesis by (simp add: append_message_def boost_write_def)
  qed
qed simp

text \<open>C39: A logger with one boost destination at most hands a message that is not filtered to each appender once, in
  the order they were added, when none of the handlers throws; with two of them the appender of the first uses an
  object that the second one destroyed, and every such message is undefined.\<close>
theorem second_boost_destination_undefined:
  assumes "lg_logs_on (logger_run ops)" "is_not_filtered (lm_lv msg) (logger_run ops)"
    and "list_all (quiet_appender env msg) (lg_appenders (logger_run ops))"
  shows "let lg = logger_run ops in
    if length (filter is_boost_op ops) \<le> 1
    then logger_write env msg lg = Inr (concat (map (appender_output env (lg_boost_impl lg) msg (lg_details_filter lg))
           (lg_appenders lg))) \<and>
         list_all (\<lambda>a. length (appender_output env (lg_boost_impl lg) msg (lg_details_filter lg) a) = 1) (lg_appenders lg)
    else \<exists>m. logger_write env msg lg = Inl (Undefined m)"
proof -
  let ?lg = "logger_run ops"
  let ?n = "lg_boost_count ?lg"
  have ok: "boost_numbers (lg_appenders ?lg) = [0..<?n]"
      "lg_boost_impl ?lg = (if ?n = 0 then None else Some (?n - 1))"
    using logger_run_ok [of ops] by (simp_all add: logger_ok_def)
  have safe: "list_all (safe_appender (lg_boost_impl ?lg)) (lg_appenders ?lg) \<longleftrightarrow> ?n \<le> 1"
  proof (cases "?n \<le> 1")
    case True
    then show ?thesis unfolding boost_numbers_safe ok by (auto simp: le_Suc_eq)
  next
    case False
    then have "0 \<in> set [0..<?n]" "Some (?n - 1) \<noteq> Some 0" by auto
    with False show ?thesis unfolding boost_numbers_safe ok by (metis le0 not_less_eq_eq One_nat_def)
  qed
  show ?thesis
  proof (cases "?n \<le> 1")
    case True
    then show ?thesis
      using safe assms appenders_loop_safe [of "lg_boost_impl ?lg" "lg_appenders ?lg" env msg "lg_details_filter ?lg"]
        append_message_safe boost_count_run [of ops]
      by (auto simp: logger_write_def Let_def list_all_iff)
  next
    case False
    then show ?thesis
      using safe assms appenders_loop_dangling [of "lg_boost_impl ?lg" "lg_appenders ?lg" env msg "lg_details_filter ?lg"]
        boost_count_run [of ops]
      by (auto simp: logger_write_def Let_def)
  qed
qed

theorem second_boost_destination_undefined_witness:
  "let env = \<lparr>le_app_name = ''srv'', le_thread = (1, [], False), le_main_thread = (1, [], False), le_root_dir_sz = 0,
              le_root_dir = None, le_unset_line = 0, le_handler_throws = (\<lambda>h m. None)\<rparr>;
       msg = \<lparr>lm_id = 0, lm_lv = Info_level, lm_file = [], lm_line = 0, lm_func = [], lm_thread = (0, [], False),
              lm_text = ''text''\<rparr>
   in \<exists>m. logger_write env msg (logger_run [Op_init_cli_log False False, Op_init_file_log ''srv.log'' 64]) =
        Inl (Undefined m)"
  using second_boost_destination_undefined
    [of "[Op_init_cli_log False False, Op_init_file_log ''srv.log'' 64]"
        "\<lparr>lm_id = 0, lm_lv = Info_level, lm_file = [], lm_line = 0, lm_func = [], lm_thread = (0, [], False),
              lm_text = ''text''\<rparr>"
        "\<lparr>le_app_name = ''srv'', le_thread = (1, [], False), le_main_thread = (1, [], False), le_root_dir_sz = 0,
              le_root_dir = None, le_unset_line = 0, le_handler_throws = (\<lambda>h m. None)\<rparr>"]
  by (simp add: logger_run_def logger_new_def setting_defs is_not_filtered_def level_bits level_trace_def
      level_value_def quiet_appender_def)

text \<open>
  A handler that throws starves the destinations behind it: they get nothing of the message, and the caller
  is told nothing.\<close>
lemma throwing_handler_starves:
  assumes "lg_logs_on lg" "is_not_filtered (lm_lv msg) lg" "lg_appenders lg = before @ Custom_appender h # after"
    and "list_all (safe_appender (lg_boost_impl lg)) before" "list_all (quiet_appender env msg) before"
    and "le_handler_throws env h msg = Some what"
  shows "logger_write env msg lg =
    Inr (concat (map (appender_output env (lg_boost_impl lg) msg (lg_details_filter lg)) before) @
         [Handler_called h msg (lg_details_filter lg), Trace_signal what])"
  using assms appenders_loop_split [OF assms(4,5)]
  by (simp add: logger_write_def append_message_def)

lemma throwing_handler_starves_witness:
  "let env = \<lparr>le_app_name = ''srv'', le_thread = (1, [], False), le_main_thread = (1, [], False), le_root_dir_sz = 0,
              le_root_dir = None, le_unset_line = 0, le_handler_throws = (\<lambda>h m. Some ''full'')\<rparr>;
       msg = \<lparr>lm_id = 0, lm_lv = Info_level, lm_file = [], lm_line = 0, lm_func = [], lm_thread = (0, [], False),
              lm_text = ''text''\<rparr>
   in logger_write env msg (logger_run [Op_add_destination 7, Op_init_sys_log]) =
        Inr [Handler_called 7 msg 1, Trace_signal ''full'']"
  using throwing_handler_starves
    [of "logger_run [Op_add_destination 7, Op_init_sys_log]"
        "\<lparr>lm_id = 0, lm_lv = Info_level, lm_file = [], lm_line = 0, lm_func = [], lm_thread = (0, [], False),
              lm_text = ''text''\<rparr>" "[]" 7 "[Syslog_appender]"
        "\<lparr>le_app_name = ''srv'', le_thread = (1, [], False), le_main_thread = (1, [], False), le_root_dir_sz = 0,
              le_root_dir = None, le_unset_line = 0, le_handler_throws = (\<lambda>h m. Some ''full'')\<rparr>" "''full''"]
  by (simp add: logger_run_def logger_new_def setting_defs is_not_filtered_def level_bits level_trace_def
      level_value_def details_value_def)

section \<open>Paths and the environment\<close>

lemma trim_loop_none: "trim_loop f None n = take n f"
  by (induction f arbitrary: n) (auto simp: take_Cons split: nat.splits)

lemma trim_loop_root: "n > 0 \<Longrightarrow> trim_loop (root @ c # f) (Some root) n = take n f"
  by (induction root) (auto simp: trim_loop_none)

lemma trim_loop_other:
  "n > 0 \<Longrightarrow> c \<noteq> r \<Longrightarrow> trim_loop (common @ c # f) (Some (common @ r # rs)) n = take n f"
  by (induction common) (auto simp: trim_loop_none)

text \<open>
  The path of a file under the root of the sources is cut to what follows the root; of a file outside it the
  part it shares with the root and the first character that differs are lost, and the end is cut off when the
  path is longer than the root.\<close>
lemma source_paths_trimmed:
  "trim_file_path (length (root @ CHR ''/'' # rel) + 1) (root @ CHR ''/'' # rel) (length root + 1) (Some root) = rel \<and>
   trim_file_path (length ''/usr/include/x.h'' + 1) ''/usr/include/x.h'' (length ''/home/b'' + 1) (Some ''/home/b'') =
     ''sr/includ''"
  using trim_loop_root [of "length rel + 1" root "CHR ''/''" rel]
  by (simp add: trim_file_path_def)

text \<open>
  The level of the environment is read as a 64-bit number and then cut to 32 bits: a number that is out of
  range by a multiple of \<open>2^32\<close> is taken for the level it is cut to.\<close>
lemma environment_level_cut:
  assumes "n + 2 ^ 32 * k < 2 ^ 63" "n < 2 ^ 31"
  shows "set_level_from_environment (Some (to_dec (n + 2 ^ 32 * k))) lg = set_level (int n) lg"
proof -
  let ?m = "n + 2 ^ 32 * k"
  have nd: "no_digit_head []" by (simp add: no_digit_head_def)
  obtain c cs where c: "to_dec ?m = c # cs" using to_dec_nonempty [of ?m] by (cases "to_dec ?m") auto
  then have dg: "is_digit c" using to_dec_digits [of ?m] by auto
  have hd: "split_sign (dropWhile is_space (to_dec ?m)) = (False, to_dec ?m)"
    using c is_digit_head_facts [OF dg] by (simp add: split_sign_def)
  have "digit_val 10 c \<noteq> None" using c to_dec_digits [of ?m] by auto
  then have ne: "digits_prefix 10 (to_dec ?m) \<noteq> []" using c by auto
  have "length (digits_prefix 10 s) = length s" if "\<forall>c \<in> set s. digit_val 10 c \<noteq> None" for s
    using that by (induction s) auto
  then have l: "length (digits_prefix 10 (to_dec ?m)) = length (to_dec ?m)" using to_dec_digits [of ?m] by blast
  have "strtol (to_dec ?m) = (int ?m, [])"
    using assms ne l hd digits_prefix_to_dec [of ?m] by (simp add: strtol_def)
  moreover have "as_int (int ?m) = int n"
  proof -
    have "(word_of_int (int ?m) :: 32 word) = word_of_int (int n)"
      unfolding word_of_int_eq_iff by (simp add: take_bit_eq_mod)
    moreover have "sint (word_of_int (int n) :: 32 word) = int n"
      unfolding sint_sbintrunc' using assms(2) by (intro signed_take_bit_int_eq_self) simp_all
    ultimately show ?thesis by (simp only: as_int_def)
  qed
  ultimately show ?thesis by (simp add: set_level_from_environment_def)
qed

lemma environment_level_cut_witness:
  "set_level_from_environment (Some (to_dec 4294967304)) logger_new = Inr (logger_new\<lparr>lg_level_filter := 8\<rparr>)"
  using environment_level_cut [of 8 1 logger_new] by (simp add: set_level_def level_value_def)

end
