(* ===== verification/Application.thy ===== *)
theory Application
  imports Prelude
begin

text \<open>
  The application (src/application_impl.cpp, src/application_impl.h, src/application.cpp): its configuration, the
  signals, and \<open>run\<close>, in which the main thread stays in the main loop while a thread of its own waits for the
  signals. The two threads and every other that calls \<open>stop\<close> or posts interleave freely. Of the main loop
  (the theory of main loops) what matters here is whether it runs and what is posted to it: stopping it in its own
  thread drops what is queued, and from any other thread the stop is posted. \<open>srv_c_app_*\<close>, which install the
  signal handlers and wait for a signal, and the two exit codes are a library that is not part of the sources: they
  are the environment.
\<close>

section \<open>The configuration\<close>

record app_config =
  ac_path_to_stdump_file :: string
  ac_enable_corefile :: bool
  ac_corefile_fail_thread_only :: bool
  ac_corefile_disable_excl_policy :: bool
  ac_lock_io :: bool
  ac_daemon :: bool

definition app_config_new :: app_config where
  "app_config_new =
     \<lparr>ac_path_to_stdump_file = [], ac_enable_corefile = False, ac_corefile_fail_thread_only = False,
      ac_corefile_disable_excl_policy = False, ac_lock_io = False, ac_daemon = False\<rparr>"

definition enable_stdump :: "string \<Rightarrow> app_config \<Rightarrow> app_config result" where
  "enable_stdump path_to_dump_file c =
     srv_assert (path_to_dump_file \<noteq> []) ''Path required'' (Inr (c\<lparr>ac_path_to_stdump_file := path_to_dump_file\<rparr>))"

definition enable_corefile :: "bool \<Rightarrow> app_config \<Rightarrow> app_config" where
  "enable_corefile disable_excl_policy c =
     c\<lparr>ac_enable_corefile := True, ac_corefile_disable_excl_policy := disable_excl_policy\<rparr>"

definition corefile_fail_thread_only :: "app_config \<Rightarrow> app_config" where
  "corefile_fail_thread_only c = c\<lparr>ac_corefile_fail_thread_only := True\<rparr>"

definition lock_io :: "app_config \<Rightarrow> app_config" where
  "lock_io c = c\<lparr>ac_lock_io := True\<rparr>"

definition make_daemon :: "app_config \<Rightarrow> app_config" where
  "make_daemon c = c\<lparr>ac_daemon := True\<rparr>"

section \<open>Signals\<close>

datatype control_signal = USR1 | USR2

text \<open>\<open>__signal_data\<close>: the union with its tag. \<open>path_max\<close> is the size of its path.\<close>

datatype signal_data =
    Null_signal
  | Fail_signal int string
  | Exit_signal int
  | User_signal control_signal

definition make_fail_data :: "nat \<Rightarrow> int \<Rightarrow> string option \<Rightarrow> signal_data" where
  "make_fail_data path_max signo stdump_file_path =
     Fail_signal signo (case stdump_file_path of None \<Rightarrow> [] | Some p \<Rightarrow> take (path_max - 1) p)"

text \<open>
  The environment: which signals are failures, the numbers of the control signals and of the termination, whether
  the raw dump of a stack can be saved, the two exit codes, and which callback of the application calls
  \<open>application::stop\<close>, with what code.
\<close>

record app_env =
  ae_is_fail_signal :: "int \<Rightarrow> bool"
  ae_SIGUSR1 :: int
  ae_SIGUSR2 :: int
  ae_SIGTERM :: int
  ae_save_dump :: "string \<Rightarrow> bool"
  ae_path_max :: nat
  ae_exit_code_ok :: int
  ae_exit_code_error :: int
  ae_stops :: "nat \<Rightarrow> int option"

text \<open>\<open>process_signal\<close>, the handler: what it leaves in the last signal. \<open>dump\<close> is the name of the dump file, if any.\<close>

definition process_signal :: "app_env \<Rightarrow> string option \<Rightarrow> int \<Rightarrow> signal_data" where
  "process_signal env dump signal =
     (if ae_is_fail_signal env signal then
        let raw_dump_saved = (case dump of None \<Rightarrow> False | Some p \<Rightarrow> ae_save_dump env p)
        in if raw_dump_saved \<and> dump \<noteq> None then make_fail_data (ae_path_max env) signal dump
           else make_fail_data (ae_path_max env) signal None
      else if signal = ae_SIGUSR1 env then User_signal USR1
      else if signal = ae_SIGUSR2 env then User_signal USR2
      else Exit_signal signal)"

section \<open>The state\<close>

text \<open>What can be posted to the main loop.\<close>

datatype task =
    T_started
  | T_notify_exit int
  | T_control control_signal
  | T_stop
  | T_user nat

text \<open>
  Where the main thread is: not in \<open>run\<close>, waiting for the signal thread, about to start the loop, in it, after it,
  joining the signal thread (with or without having to announce the exit itself), and at the end.
\<close>

datatype main_pc =
    M_idle | M_sync | M_begin | M_loop | M_after | M_join | M_join_notify | M_end | M_returned int | M_exited int

text \<open>
  Where the signal thread is: none, started, waiting for a signal, looking at the last one, inside \<open>process_exit\<close>
  (before its test, before it posts, waiting for the callbacks, before the exit code, before the stop), inside
  \<open>process_control\<close>, and done.
\<close>

datatype signal_pc =
    S_none | S_start | S_wait | S_handle | S_exit int | S_post_exit int | S_wait_exit int | S_code int | S_stop
  | S_control control_signal | S_done

text \<open>
  A thread in \<open>application::wait\<close>: not there, before its test, between its test and the wait for the condition (the
  notification does not take the mutex), waiting, and returned.
\<close>

datatype waiter_pc = W_out | W_check | W_gap | W_blocked | W_returned

datatype app_event =
    Started_callback nat
  | Exit_callback nat int
  | Fail_callback nat int string
  | Control_callback nat control_signal
  | User_callback nat

record app =
  ap_config :: app_config
  ap_exit_code :: int
  ap_initiated :: bool
  ap_terminating :: bool
  ap_running :: bool
  ap_is_run :: bool
  ap_queue :: "task list"
  ap_start :: "nat list"
  ap_exit :: "nat list"
  ap_fail :: "nat list"
  ap_control :: "nat list"
  ap_main :: main_pc
  ap_signal :: signal_pc
  ap_last :: signal_data
  ap_pending :: "int list"
  ap_stoppers :: nat
  ap_waiter :: waiter_pc
  ap_log :: "app_event list"

definition app_new :: app where
  "app_new =
     \<lparr>ap_config = app_config_new, ap_exit_code = 0, ap_initiated = False, ap_terminating = False, ap_running = False,
      ap_is_run = False, ap_queue = [], ap_start = [], ap_exit = [], ap_fail = [], ap_control = [],
      ap_main = M_idle, ap_signal = S_none, ap_last = Null_signal, ap_pending = [], ap_stoppers = 0, ap_waiter = W_out, ap_log = []\<rparr>"

text \<open>The subscriptions, which are refused while the loop runs.\<close>

definition app_on_start :: "nat \<Rightarrow> app \<Rightarrow> app result" where
  "app_on_start cb a = srv_assert (\<not> ap_running a) ''Call before running'' (Inr (a\<lparr>ap_start := ap_start a @ [cb]\<rparr>))"

definition app_on_exit :: "nat \<Rightarrow> app \<Rightarrow> app result" where
  "app_on_exit cb a = srv_assert (\<not> ap_running a) ''Call before running'' (Inr (a\<lparr>ap_exit := ap_exit a @ [cb]\<rparr>))"

definition app_on_fail :: "nat \<Rightarrow> app \<Rightarrow> app result" where
  "app_on_fail cb a = srv_assert (\<not> ap_running a) ''Call before running'' (Inr (a\<lparr>ap_fail := ap_fail a @ [cb]\<rparr>))"

definition app_on_control :: "nat \<Rightarrow> app \<Rightarrow> app result" where
  "app_on_control cb a =
     srv_assert (\<not> ap_running a) ''Call before running'' (Inr (a\<lparr>ap_control := ap_control a @ [cb]\<rparr>))"

definition set_config :: "app_config \<Rightarrow> app \<Rightarrow> app" where
  "set_config c a = a\<lparr>ap_config := c\<rparr>"

definition app_log :: "app_event list \<Rightarrow> app \<Rightarrow> app" where
  "app_log es a = a\<lparr>ap_log := ap_log a @ es\<rparr>"

definition app_post :: "task \<Rightarrow> app \<Rightarrow> app" where
  "app_post t a = a\<lparr>ap_queue := ap_queue a @ [t]\<rparr>"

definition cleanup :: "app \<Rightarrow> app" where
  "cleanup a = a\<lparr>ap_initiated := False, ap_terminating := False\<rparr>"

text \<open>
  The main loop stopped in the main thread: nothing when it does not run; otherwise what is queued goes with the
  service.
\<close>

definition main_loop_halt :: "app \<Rightarrow> app" where
  "main_loop_halt a = (if ap_running a then a\<lparr>ap_running := False, ap_is_run := False, ap_queue := []\<rparr> else a)"

text \<open>A callback in the main thread, which may call \<open>application::stop\<close>.\<close>

definition app_callback :: "app_env \<Rightarrow> app_event \<Rightarrow> nat \<Rightarrow> app \<Rightarrow> app" where
  "app_callback env ev cb a =
     (let a = app_log [ev] a
      in case ae_stops env cb of
           None \<Rightarrow> a
         | Some code \<Rightarrow> main_loop_halt (a\<lparr>ap_exit_code := code\<rparr>))"

definition notify_all :: "app_env \<Rightarrow> (nat \<Rightarrow> app_event) \<Rightarrow> nat list \<Rightarrow> app \<Rightarrow> app" where
  "notify_all env ev cbs a = fold (\<lambda>cb. app_callback env (ev cb) cb) cbs a"

section \<open>The main thread\<close>

text \<open>\<open>run\<close> up to the start of the signal thread.\<close>

definition app_run :: "app_env \<Rightarrow> app \<Rightarrow> app" where
  "app_run env a =
     (if ap_running a then a\<lparr>ap_main := M_returned (ae_exit_code_error env)\<rparr>
      else a\<lparr>ap_signal := S_start, ap_main := M_sync\<rparr>)"

text \<open>A task of the main loop; the callbacks of an exit that was posted release the signal thread.\<close>

definition run_task :: "app_env \<Rightarrow> task \<Rightarrow> app \<Rightarrow> app" where
  "run_task env t a =
     (case t of
        T_started \<Rightarrow>
          (let a = notify_all env Started_callback (ap_start a) (a\<lparr>ap_is_run := True\<rparr>)
           in if ap_waiter a = W_blocked then a\<lparr>ap_waiter := W_check\<rparr> else a)
      | T_notify_exit signo \<Rightarrow>
          (let a = notify_all env (\<lambda>cb. Exit_callback cb signo) (ap_exit a) a in a\<lparr>ap_signal := S_code signo\<rparr>)
      | T_control sig \<Rightarrow> notify_all env (\<lambda>cb. Control_callback cb sig) (ap_control a) a
      | T_stop \<Rightarrow> main_loop_halt a
      | T_user cb \<Rightarrow> app_callback env (User_callback cb) cb a)"

definition exit_status :: "app_env \<Rightarrow> int \<Rightarrow> main_pc" where
  "exit_status env exit_code =
     (if exit_code \<noteq> 0 then M_exited (if exit_code < 0 then ae_exit_code_error env else exit_code)
      else M_returned (ae_exit_code_ok env))"

text \<open>
  One step of the main thread, none when it cannot move. In \<open>M_sync\<close> it is in the loop of the weak exchange: a
  failure that reports the expected value makes it return with the signal thread left alone.
\<close>

definition main_step :: "app_env \<Rightarrow> bool \<Rightarrow> app \<Rightarrow> app option" where
  "main_step env spurious a =
     (case ap_main a of
        M_sync \<Rightarrow>
          (if spurious then (if ap_initiated a then Some (a\<lparr>ap_main := M_returned (ae_exit_code_ok env)\<rparr>) else Some a)
           else if ap_initiated a then Some (a\<lparr>ap_main := M_begin\<rparr>) else Some a)
      | M_begin \<Rightarrow> Some (app_post T_started (a\<lparr>ap_running := True, ap_main := M_loop\<rparr>))
      | M_loop \<Rightarrow>
          (if \<not> ap_running a then Some (a\<lparr>ap_main := M_after\<rparr>)
           else (case ap_queue a of [] \<Rightarrow> None | t # ts \<Rightarrow> Some (run_task env t (a\<lparr>ap_queue := ts\<rparr>))))
      | M_after \<Rightarrow>
          (if ap_terminating a then Some (a\<lparr>ap_main := M_join\<rparr>)
           else Some (a\<lparr>ap_pending := ap_pending a @ [ae_SIGTERM env], ap_main := M_join_notify\<rparr>))
      | M_join \<Rightarrow> (if ap_signal a = S_done then Some (a\<lparr>ap_main := M_end\<rparr>) else None)
      | M_join_notify \<Rightarrow>
          (if ap_signal a = S_done
           then Some (let a = notify_all env (\<lambda>cb. Exit_callback cb 0) (ap_exit a) a in a\<lparr>ap_main := M_end\<rparr>)
           else None)
      | M_end \<Rightarrow> (let a = cleanup a in Some (a\<lparr>ap_main := exit_status env (ap_exit_code a)\<rparr>))
      | _ \<Rightarrow> None)"

section \<open>The signal thread\<close>

text \<open>\<open>dump_file\<close> is the file of \<open>__init_stdump_generation\<close>.\<close>

definition dump_file :: "app_env \<Rightarrow> app \<Rightarrow> string option" where
  "dump_file env a =
     (let p = take (ae_path_max env - 1) (ac_path_to_stdump_file (ap_config a)) in if p = [] then None else Some p)"

definition signal_handled :: "app \<Rightarrow> app" where
  "signal_handled a = a\<lparr>ap_signal := (if ap_terminating a then S_done else S_wait)\<rparr>"

definition signal_step :: "app_env \<Rightarrow> bool \<Rightarrow> app \<Rightarrow> app option" where
  "signal_step env spurious a =
     (case ap_signal a of
        S_start \<Rightarrow>
          (if spurious then (if \<not> ap_initiated a then Some (a\<lparr>ap_signal := S_done\<rparr>) else Some a)
           else if \<not> ap_initiated a then Some (a\<lparr>ap_initiated := True, ap_signal := S_wait\<rparr>) else Some a)
      | S_wait \<Rightarrow>
          (case ap_pending a of
             [] \<Rightarrow> None
           | signo # ps \<Rightarrow>
               Some (a\<lparr>ap_pending := ps, ap_last := process_signal env (dump_file env a) signo, ap_signal := S_handle\<rparr>))
      | S_handle \<Rightarrow>
          (case ap_last a of
             Exit_signal signo \<Rightarrow> Some (a\<lparr>ap_terminating := True, ap_signal := S_exit signo\<rparr>)
           | User_signal sig \<Rightarrow> Some (a\<lparr>ap_signal := S_control sig\<rparr>)
           | _ \<Rightarrow> Some (signal_handled a))
      | S_exit signo \<Rightarrow>
          (if ap_running a
           then Some (a\<lparr>ap_signal := (if ap_exit a \<noteq> [] then S_post_exit signo else S_code signo)\<rparr>)
           else Some (signal_handled a))
      | S_post_exit signo \<Rightarrow> Some (app_post (T_notify_exit signo) (a\<lparr>ap_signal := S_wait_exit signo\<rparr>))
      | S_code signo \<Rightarrow> Some (a\<lparr>ap_exit_code := 128 + signo, ap_signal := S_stop\<rparr>)
      | S_stop \<Rightarrow> Some (signal_handled (app_post T_stop a))
      | S_control sig \<Rightarrow>
          Some (signal_handled (if ap_control a \<noteq> [] then app_post (T_control sig) a else a))
      | _ \<Rightarrow> None)"

section \<open>Waiting for the start\<close>

definition wait_called :: "app \<Rightarrow> app" where
  "wait_called a = a\<lparr>ap_waiter := (if ap_is_run a then W_returned else W_check)\<rparr>"

text \<open>The loop of the condition variable with its predicate; a wait may also end for no reason.\<close>

definition waiter_step :: "bool \<Rightarrow> app \<Rightarrow> app option" where
  "waiter_step spurious a =
     (case ap_waiter a of
        W_check \<Rightarrow> Some (a\<lparr>ap_waiter := (if ap_is_run a then W_returned else W_gap)\<rparr>)
      | W_gap \<Rightarrow> Some (a\<lparr>ap_waiter := W_blocked\<rparr>)
      | W_blocked \<Rightarrow> (if spurious then Some (a\<lparr>ap_waiter := W_check\<rparr>) else None)
      | _ \<Rightarrow> None)"

section \<open>Everything together\<close>

text \<open>
  The moves: a step of either thread, a signal that the system delivers to the thread that waits for it, a call of
  \<open>stop\<close> by another thread, which stores the code and then posts the stop, and a post.
\<close>

datatype move =
    Main_moves bool
  | Signal_thread_moves bool
  | Signal_arrives int
  | Stop_called int
  | Stop_posted
  | User_posts nat
  | Wait_called
  | Waiter_moves bool

definition app_move :: "app_env \<Rightarrow> move \<Rightarrow> app \<Rightarrow> app option" where
  "app_move env m a =
     (case m of
        Main_moves spurious \<Rightarrow> main_step env spurious a
      | Signal_thread_moves spurious \<Rightarrow> signal_step env spurious a
      | Signal_arrives signo \<Rightarrow> Some (a\<lparr>ap_pending := ap_pending a @ [signo]\<rparr>)
      | Stop_called code \<Rightarrow> Some (a\<lparr>ap_exit_code := code, ap_stoppers := Suc (ap_stoppers a)\<rparr>)
      | Stop_posted \<Rightarrow>
          (if ap_stoppers a > 0 then Some (app_post T_stop (a\<lparr>ap_stoppers := ap_stoppers a - 1\<rparr>)) else None)
      | User_posts cb \<Rightarrow> Some (app_post (T_user cb) a)
      | Wait_called \<Rightarrow> (if ap_waiter a = W_out then Some (wait_called a) else None)
      | Waiter_moves spurious \<Rightarrow> waiter_step spurious a)"

fun app_moves :: "app_env \<Rightarrow> move list \<Rightarrow> app \<Rightarrow> app option" where
  "app_moves env [] a = Some a"
| "app_moves env (m # ms) a = (case app_move env m a of None \<Rightarrow> None | Some a' \<Rightarrow> app_moves env ms a')"

text \<open>\<open>process_atexit\<close>, whether \<open>std::exit\<close> is refused, and \<open>process_fail\<close>, in the thread that fails.\<close>

definition process_atexit :: "app \<Rightarrow> unit result" where
  "process_atexit a =
     srv_assert (\<not> ap_running a) ''std::exit is not allowed to stop application. Use application.stop instead'' (Inr ())"

definition process_fail :: "app \<Rightarrow> app" where
  "process_fail a =
     (case ap_last a of
        Fail_signal signo path \<Rightarrow> app_log (map (\<lambda>cb. Fail_callback cb signo path) (ap_fail a)) a
      | _ \<Rightarrow> a)"

text \<open>The moves one by one, by where the threads are; these compute a schedule.\<close>

lemma app_move_simps [simp]:
  "app_move env (Main_moves b) a = main_step env b a"
  "app_move env (Signal_thread_moves b) a = signal_step env b a"
  "app_move env (Signal_arrives signo) a = Some (a\<lparr>ap_pending := ap_pending a @ [signo]\<rparr>)"
  "app_move env (Stop_called code) a = Some (a\<lparr>ap_exit_code := code, ap_stoppers := Suc (ap_stoppers a)\<rparr>)"
  "app_move env Stop_posted a =
     (if ap_stoppers a > 0 then Some (app_post T_stop (a\<lparr>ap_stoppers := ap_stoppers a - 1\<rparr>)) else None)"
  "app_move env (User_posts cb) a = Some (app_post (T_user cb) a)"
  "app_move env Wait_called a = (if ap_waiter a = W_out then Some (wait_called a) else None)"
  "app_move env (Waiter_moves b) a = waiter_step b a"
  by (simp_all add: app_move_def)

lemma main_step_at:
  "ap_main a = M_sync \<Longrightarrow> main_step env False a = Some (if ap_initiated a then a\<lparr>ap_main := M_begin\<rparr> else a)"
  "ap_main a = M_begin \<Longrightarrow> main_step env b a = Some (app_post T_started (a\<lparr>ap_running := True, ap_main := M_loop\<rparr>))"
  "ap_main a = M_loop \<Longrightarrow> \<not> ap_running a \<Longrightarrow> main_step env b a = Some (a\<lparr>ap_main := M_after\<rparr>)"
  "ap_main a = M_loop \<Longrightarrow> ap_running a \<Longrightarrow> ap_queue a = t # ts \<Longrightarrow>
     main_step env b a = Some (run_task env t (a\<lparr>ap_queue := ts\<rparr>))"
  "ap_main a = M_after \<Longrightarrow> ap_terminating a \<Longrightarrow> main_step env b a = Some (a\<lparr>ap_main := M_join\<rparr>)"
  "ap_main a = M_after \<Longrightarrow> \<not> ap_terminating a \<Longrightarrow>
     main_step env b a = Some (a\<lparr>ap_pending := ap_pending a @ [ae_SIGTERM env], ap_main := M_join_notify\<rparr>)"
  "ap_main a = M_join \<Longrightarrow> ap_signal a = S_done \<Longrightarrow> main_step env b a = Some (a\<lparr>ap_main := M_end\<rparr>)"
  "ap_main a = M_join_notify \<Longrightarrow> ap_signal a = S_done \<Longrightarrow>
     main_step env b a = Some ((notify_all env (\<lambda>cb. Exit_callback cb 0) (ap_exit a) a)\<lparr>ap_main := M_end\<rparr>)"
  "ap_main a = M_end \<Longrightarrow> main_step env b a = Some ((cleanup a)\<lparr>ap_main := exit_status env (ap_exit_code (cleanup a))\<rparr>)"
  by (simp_all add: main_step_def Let_def)

lemma signal_step_at:
  "ap_signal a = S_start \<Longrightarrow> \<not> ap_initiated a \<Longrightarrow>
     signal_step env False a = Some (a\<lparr>ap_initiated := True, ap_signal := S_wait\<rparr>)"
  "ap_signal a = S_wait \<Longrightarrow> ap_pending a = signo # ps \<Longrightarrow>
     signal_step env b a =
       Some (a\<lparr>ap_pending := ps, ap_last := process_signal env (dump_file env a) signo, ap_signal := S_handle\<rparr>)"
  "ap_signal a = S_handle \<Longrightarrow> ap_last a = Exit_signal signo \<Longrightarrow>
     signal_step env b a = Some (a\<lparr>ap_terminating := True, ap_signal := S_exit signo\<rparr>)"
  "ap_signal a = S_exit signo \<Longrightarrow> \<not> ap_running a \<Longrightarrow> signal_step env b a = Some (signal_handled a)"
  "ap_signal a = S_exit signo \<Longrightarrow> ap_running a \<Longrightarrow> ap_exit a \<noteq> [] \<Longrightarrow>
     signal_step env b a = Some (a\<lparr>ap_signal := S_post_exit signo\<rparr>)"
  "ap_signal a = S_post_exit signo \<Longrightarrow>
     signal_step env b a = Some (app_post (T_notify_exit signo) (a\<lparr>ap_signal := S_wait_exit signo\<rparr>))"
  "ap_signal a = S_code signo \<Longrightarrow> signal_step env b a = Some (a\<lparr>ap_exit_code := 128 + signo, ap_signal := S_stop\<rparr>)"
  "ap_signal a = S_stop \<Longrightarrow> signal_step env b a = Some (signal_handled (app_post T_stop a))"
  by (simp_all add: signal_step_def)

lemma waiter_step_at:
  "ap_waiter a = W_check \<Longrightarrow> waiter_step b a = Some (a\<lparr>ap_waiter := (if ap_is_run a then W_returned else W_gap)\<rparr>)"
  "ap_waiter a = W_gap \<Longrightarrow> waiter_step b a = Some (a\<lparr>ap_waiter := W_blocked\<rparr>)"
  by (simp_all add: waiter_step_def)

lemma run_task_at:
  "run_task env T_stop a = main_loop_halt a"
  "run_task env (T_user cb) a = app_callback env (User_callback cb) cb a"
  by (simp_all add: run_task_def)

lemma app_moves_append:
  "app_moves env (ms @ ms') a = (case app_moves env ms a of None \<Rightarrow> None | Some a' \<Rightarrow> app_moves env ms' a')"
  by (induction ms arbitrary: a) (auto split: option.splits)

lemma app_moves_invariant:
  assumes "\<And>m a a'. P a \<Longrightarrow> app_move env m a = Some a' \<Longrightarrow> P a'"
  shows "P a \<Longrightarrow> app_moves env ms a = Some a' \<Longrightarrow> P a'"
  using assms by (induction ms arbitrary: a) (auto split: option.splits)

section \<open>The exit is announced once at most\<close>

text \<open>What callbacks do not touch.\<close>

lemma halt_keeps [simp]:
  "ap_exit (main_loop_halt a) = ap_exit a" "ap_signal (main_loop_halt a) = ap_signal a"
  "ap_main (main_loop_halt a) = ap_main a" "ap_terminating (main_loop_halt a) = ap_terminating a"
  "ap_log (main_loop_halt a) = ap_log a" "set (ap_queue (main_loop_halt a)) \<subseteq> set (ap_queue a)"
  "ap_waiter (main_loop_halt a) = ap_waiter a" "ap_initiated (main_loop_halt a) = ap_initiated a"
  by (simp_all add: main_loop_halt_def)

lemma callback_keeps [simp]:
  "ap_exit (app_callback env ev cb a) = ap_exit a" "ap_signal (app_callback env ev cb a) = ap_signal a"
  "ap_main (app_callback env ev cb a) = ap_main a" "ap_terminating (app_callback env ev cb a) = ap_terminating a"
  "ap_log (app_callback env ev cb a) = ap_log a @ [ev]"
  "ap_waiter (app_callback env ev cb a) = ap_waiter a" "ap_initiated (app_callback env ev cb a) = ap_initiated a"
  by (simp_all add: app_callback_def app_log_def Let_def split: option.split)

lemma callback_queue: "ap_queue (app_callback env ev cb a) \<in> {ap_queue a, []}"
  by (simp add: app_callback_def app_log_def Let_def main_loop_halt_def split: option.split)

lemma notify_keeps [simp]:
  "ap_exit (notify_all env ev cbs a) = ap_exit a" "ap_signal (notify_all env ev cbs a) = ap_signal a"
  "ap_main (notify_all env ev cbs a) = ap_main a" "ap_terminating (notify_all env ev cbs a) = ap_terminating a"
  "ap_log (notify_all env ev cbs a) = ap_log a @ map ev cbs"
  "ap_waiter (notify_all env ev cbs a) = ap_waiter a" "ap_initiated (notify_all env ev cbs a) = ap_initiated a"
  by (induction cbs arbitrary: a) (simp_all add: notify_all_def)

lemma notify_queue: "ap_queue (notify_all env ev cbs a) \<in> {ap_queue a, []}"
proof (induction cbs arbitrary: a)
  case (Cons c cbs)
  then show ?case using callback_queue [of env "ev c" c a] by (force simp: notify_all_def)
qed (simp add: notify_all_def)

fun exit_event :: "app_event \<Rightarrow> bool" where
  "exit_event (Exit_callback cb signo) = True"
| "exit_event _ = False"

fun is_notify :: "task \<Rightarrow> bool" where
  "is_notify (T_notify_exit signo) = True"
| "is_notify _ = False"

definition exit_log :: "app \<Rightarrow> app_event list" where
  "exit_log a = filter exit_event (ap_log a)"

definition at_end :: "app \<Rightarrow> bool" where
  "at_end a = (case ap_main a of M_end \<Rightarrow> True | M_returned c \<Rightarrow> True | M_exited c \<Rightarrow> True | _ \<Rightarrow> False)"

definition exiting :: "signal_pc \<Rightarrow> bool" where
  "exiting p =
     (case p of S_exit s \<Rightarrow> True | S_post_exit s \<Rightarrow> True | S_wait_exit s \<Rightarrow> True | S_code s \<Rightarrow> True | S_stop \<Rightarrow> True
      | _ \<Rightarrow> False)"

definition leaving :: "signal_pc \<Rightarrow> bool" where
  "leaving p = (case p of S_code s \<Rightarrow> True | S_stop \<Rightarrow> True | S_done \<Rightarrow> True | _ \<Rightarrow> False)"

definition waiting_exit :: "signal_pc \<Rightarrow> bool" where
  "waiting_exit p = (case p of S_wait_exit s \<Rightarrow> True | _ \<Rightarrow> False)"

definition exit_inv :: "app \<Rightarrow> bool" where
  "exit_inv a \<longleftrightarrow>
     (exit_log a = [] \<or> (\<exists>s. exit_log a = map (\<lambda>cb. Exit_callback cb s) (ap_exit a))) \<and>
     (exit_log a \<noteq> [] \<longrightarrow>
        (ap_terminating a \<or> at_end a \<and> ap_signal a = S_done) \<and> leaving (ap_signal a)) \<and>
     (ap_main a = M_end \<longrightarrow> ap_signal a = S_done) \<and>
     (filter is_notify (ap_queue a) \<noteq> [] \<longrightarrow> waiting_exit (ap_signal a)) \<and>
     length (filter is_notify (ap_queue a)) \<le> 1 \<and>
     (exiting (ap_signal a) \<longrightarrow> ap_terminating a \<or> at_end a) \<and>
     (ap_main a = M_join_notify \<longrightarrow> exit_log a = [])"

lemma exit_log_simps [simp]:
  "filter exit_event (map (\<lambda>cb. Exit_callback cb s) cbs) = map (\<lambda>cb. Exit_callback cb s) cbs"
  "filter exit_event (map Started_callback cbs) = []"
  "filter exit_event (map (\<lambda>cb. Control_callback cb sig) cbs) = []"
  by (induction cbs) simp_all

lemma run_task_inv:
  assumes inv: "exit_inv a" and m: "ap_main a = M_loop" and q: "ap_queue a = t # ts"
  shows "exit_inv (run_task env t (a\<lparr>ap_queue := ts\<rparr>))"
proof -
  let ?a = "a\<lparr>ap_queue := ts\<rparr>"
  have nq: "filter is_notify (ap_queue (notify_all env ev cbs b)) \<in> {filter is_notify (ap_queue b), []}" for ev cbs b
    using notify_queue [of env ev cbs b] by auto
  have cq: "filter is_notify (ap_queue (app_callback env ev cb b)) \<in> {filter is_notify (ap_queue b), []}" for ev cb b
    using callback_queue [of env ev cb b] by auto
  show ?thesis
  proof (cases t)
    case T_started
    let ?b = "notify_all env Started_callback (ap_start a) (?a\<lparr>ap_is_run := True\<rparr>)"
    have "filter is_notify (ap_queue ?b) \<in> {filter is_notify ts, []}" using nq [of Started_callback "ap_start a" "?a\<lparr>ap_is_run := True\<rparr>"] by simp
    then show ?thesis using inv m q T_started
      by (auto simp: run_task_def exit_inv_def exit_log_def at_end_def Let_def)
  next
    case (T_notify_exit s)
    have w: "waiting_exit (ap_signal a)" "filter is_notify ts = []"
      using inv q T_notify_exit by (auto simp: exit_inv_def)
    then obtain s' where s': "ap_signal a = S_wait_exit s'" by (auto simp: waiting_exit_def split: signal_pc.splits)
    have e: "filter exit_event (ap_log a) = []" "ap_terminating a"
      using inv s' m by (auto simp: exit_inv_def exit_log_def leaving_def exiting_def at_end_def)
    have "filter is_notify (ap_queue (notify_all env (\<lambda>cb. Exit_callback cb s) (ap_exit a) ?a)) = []"
      using nq [of "\<lambda>cb. Exit_callback cb s" "ap_exit a" ?a] w by auto
    then show ?thesis using T_notify_exit e m
      by (auto simp: run_task_def exit_inv_def exit_log_def Let_def leaving_def)
  next
    case (T_control sig)
    have "filter is_notify (ap_queue (notify_all env (\<lambda>cb. Control_callback cb sig) (ap_control a) ?a)) \<in>
        {filter is_notify ts, []}" using nq [of "\<lambda>cb. Control_callback cb sig" "ap_control a" ?a] by simp
    then show ?thesis using inv m q T_control
      by (auto simp: run_task_def exit_inv_def exit_log_def at_end_def)
  next
    case T_stop
    then show ?thesis using inv m q
      by (auto simp: run_task_def exit_inv_def exit_log_def at_end_def main_loop_halt_def)
  next
    case (T_user cb)
    have "filter is_notify (ap_queue (app_callback env (User_callback cb) cb ?a)) \<in> {filter is_notify ts, []}"
      using cq [of "User_callback cb" cb ?a] by simp
    then show ?thesis using inv m q T_user
      by (auto simp: run_task_def exit_inv_def exit_log_def at_end_def)
  qed
qed

lemma at_end_simps [simp]:
  "at_end (a\<lparr>ap_signal := x\<rparr>) = at_end a" "at_end (a\<lparr>ap_terminating := b\<rparr>) = at_end a"
  "at_end (a\<lparr>ap_initiated := b\<rparr>) = at_end a" "at_end (a\<lparr>ap_exit_code := c\<rparr>) = at_end a"
  "at_end (a\<lparr>ap_last := l\<rparr>) = at_end a" "at_end (a\<lparr>ap_pending := l'\<rparr>) = at_end a"
  "at_end (a\<lparr>ap_queue := q\<rparr>) = at_end a"
  by (simp_all add: at_end_def)

lemma exit_inv_kept:
  assumes "exit_inv a" "exit_log a' = exit_log a" "ap_exit a' = ap_exit a" "ap_signal a' = ap_signal a"
    and "filter is_notify (ap_queue a') = filter is_notify (ap_queue a)"
    and "ap_terminating a \<or> at_end a \<Longrightarrow> ap_terminating a' \<or> at_end a'"
    and "ap_terminating a \<and> \<not> ap_terminating a' \<Longrightarrow> at_end a' \<and> ap_signal a = S_done"
    and "at_end a \<Longrightarrow> at_end a'"
    and "ap_main a' = M_join_notify \<Longrightarrow> exit_log a = []" "ap_main a' = M_end \<Longrightarrow> ap_signal a = S_done"
  shows "exit_inv a'"
  using assms unfolding exit_inv_def by metis

text \<open>The signal thread moves on without having announced anything.\<close>

lemma exit_inv_signal:
  assumes "exit_inv a" "exit_log a' = exit_log a" "ap_exit a' = ap_exit a" "ap_main a' = ap_main a"
    and "filter is_notify (ap_queue a') = []"
    and "exiting (ap_signal a') \<Longrightarrow> ap_terminating a' \<or> at_end a'"
    and "exit_log a = [] \<or> (ap_terminating a \<and> ap_terminating a' \<and> leaving (ap_signal a'))"
    and "ap_signal a \<noteq> S_done"
  shows "exit_inv a'"
proof -
  have "at_end a' = at_end a" using assms(4) by (simp add: at_end_def)
  then show ?thesis using assms unfolding exit_inv_def by auto
qed

lemma main_step_inv:
  assumes inv: "exit_inv a" and s: "main_step env spurious a = Some a'"
  shows "exit_inv a'"
proof (cases "ap_main a")
  case M_loop
  show ?thesis
  proof (cases "ap_running a")
    case True
    then obtain t ts where q: "ap_queue a = t # ts" using s M_loop by (auto simp: main_step_def split: list.splits)
    then have "a' = run_task env t (a\<lparr>ap_queue := ts\<rparr>)" using s M_loop True by (simp add: main_step_def)
    then show ?thesis using run_task_inv [OF inv M_loop q] by simp
  next
    case False
    then have "a' = a\<lparr>ap_main := M_after\<rparr>" using s M_loop by (simp add: main_step_def)
    then show ?thesis by (intro exit_inv_kept [OF inv]) (auto simp: exit_log_def at_end_def M_loop)
  qed
next
  case M_join_notify
  then have sig: "ap_signal a = S_done" using s by (auto simp: main_step_def split: if_splits)
  let ?b = "notify_all env (\<lambda>cb. Exit_callback cb 0) (ap_exit a) a"
  have a': "a' = ?b\<lparr>ap_main := M_end\<rparr>" using s M_join_notify sig by (simp add: main_step_def Let_def)
  have e: "filter exit_event (ap_log a) = []" using inv M_join_notify by (simp add: exit_inv_def exit_log_def)
  have "filter is_notify (ap_queue a) = []" using inv sig by (auto simp: exit_inv_def waiting_exit_def)
  then have "filter is_notify (ap_queue ?b) = []"
    using notify_queue [of env "\<lambda>cb. Exit_callback cb 0" "ap_exit a" a] by auto
  then show ?thesis using e sig a'
    by (auto simp: exit_inv_def exit_log_def at_end_def leaving_def exiting_def)
next
  case M_after
  then have "exit_log a = [] \<or> ap_terminating a" using inv by (auto simp: exit_inv_def at_end_def)
  then show ?thesis using s M_after
    by (intro exit_inv_kept [OF inv]) (auto simp: main_step_def exit_log_def at_end_def split: if_splits)
next
  case M_end
  then have "a' = cleanup a\<lparr>ap_main := exit_status env (ap_exit_code (cleanup a))\<rparr>"
    using s by (simp add: main_step_def Let_def)
  moreover have "at_end a'" "ap_main a' \<noteq> M_join_notify"
    using calculation by (auto simp: at_end_def exit_status_def split: if_splits)
  ultimately show ?thesis
    using inv M_end by (intro exit_inv_kept [OF inv]) (auto simp: exit_log_def cleanup_def exit_inv_def)
next
  case M_sync
  then show ?thesis using s
    by (intro exit_inv_kept [OF inv]) (auto simp: main_step_def exit_log_def at_end_def split: if_splits)
next
  case M_begin
  then show ?thesis using s
    by (intro exit_inv_kept [OF inv]) (auto simp: main_step_def exit_log_def at_end_def app_post_def)
next
  case M_join
  then show ?thesis using s
    by (intro exit_inv_kept [OF inv]) (auto simp: main_step_def exit_log_def at_end_def split: if_splits)
qed (use s in \<open>simp_all add: main_step_def\<close>)

lemma not_waiting: "exit_inv a \<Longrightarrow> \<not> waiting_exit (ap_signal a) \<Longrightarrow> filter is_notify (ap_queue a) = []"
  by (auto simp: exit_inv_def)

lemma not_leaving: "exit_inv a \<Longrightarrow> \<not> leaving (ap_signal a) \<Longrightarrow> exit_log a = []"
  by (auto simp: exit_inv_def)

lemma exiting_terminating: "exit_inv a \<Longrightarrow> exiting (ap_signal a) \<Longrightarrow> ap_terminating a \<or> at_end a"
  by (auto simp: exit_inv_def)

lemmas signal_classes = exiting_def leaving_def waiting_exit_def

lemma signal_step_inv:
  assumes inv: "exit_inv a" and s: "signal_step env spurious a = Some a'"
  shows "exit_inv a'"
proof (cases "ap_signal a")
  case (S_post_exit signo)
  then have "filter is_notify (ap_queue a) = []" "exit_log a = []" "ap_terminating a \<or> at_end a"
    using not_waiting [OF inv] not_leaving [OF inv] exiting_terminating [OF inv] by (auto simp: signal_classes)
  then show ?thesis using inv s S_post_exit
    by (auto simp: signal_step_def exit_inv_def exit_log_def app_post_def signal_classes)
next
  case S_start
  then have "filter is_notify (ap_queue a) = []" "exit_log a = []"
    using not_waiting [OF inv] not_leaving [OF inv] by (auto simp: signal_classes)
  then show ?thesis using s S_start
    by (intro exit_inv_signal [OF inv]) (auto simp: signal_step_def exit_log_def signal_classes split: if_splits)
next
  case S_wait
  then have "filter is_notify (ap_queue a) = []" "exit_log a = []"
    using not_waiting [OF inv] not_leaving [OF inv] by (auto simp: signal_classes)
  then show ?thesis using s S_wait
    by (intro exit_inv_signal [OF inv]) (auto simp: signal_step_def exit_log_def signal_classes split: list.splits)
next
  case S_handle
  then have "filter is_notify (ap_queue a) = []" "exit_log a = []"
    using not_waiting [OF inv] not_leaving [OF inv] by (auto simp: signal_classes)
  then show ?thesis using s S_handle
    by (intro exit_inv_signal [OF inv])
      (auto simp: signal_step_def exit_log_def signal_classes signal_handled_def split: signal_data.splits if_splits)
next
  case (S_exit signo)
  then have "filter is_notify (ap_queue a) = []" "exit_log a = []" "ap_terminating a \<or> at_end a"
    using not_waiting [OF inv] not_leaving [OF inv] exiting_terminating [OF inv] by (auto simp: signal_classes)
  then show ?thesis using s S_exit
    by (intro exit_inv_signal [OF inv])
      (auto simp: signal_step_def exit_log_def signal_classes signal_handled_def split: if_splits)
next
  case (S_code signo)
  then have "filter is_notify (ap_queue a) = []" "ap_terminating a \<or> at_end a" "exit_log a = [] \<or> ap_terminating a"
    using not_waiting [OF inv] exiting_terminating [OF inv] inv by (auto simp: signal_classes exit_inv_def)
  then show ?thesis using s S_code
    by (intro exit_inv_signal [OF inv]) (auto simp: signal_step_def exit_log_def signal_classes)
next
  case S_stop
  then have "filter is_notify (ap_queue a) = []" "ap_terminating a \<or> at_end a" "exit_log a = [] \<or> ap_terminating a"
    using not_waiting [OF inv] exiting_terminating [OF inv] inv by (auto simp: signal_classes exit_inv_def)
  then show ?thesis using s S_stop
    by (intro exit_inv_signal [OF inv])
      (auto simp: signal_step_def exit_log_def signal_classes signal_handled_def app_post_def)
next
  case (S_control sig)
  then have "filter is_notify (ap_queue a) = []" "exit_log a = []"
    using not_waiting [OF inv] not_leaving [OF inv] by (auto simp: signal_classes)
  then show ?thesis using s S_control
    by (intro exit_inv_signal [OF inv])
      (auto simp: signal_step_def exit_log_def signal_classes signal_handled_def app_post_def split: if_splits)
qed (use s in \<open>simp_all add: signal_step_def\<close>)

lemma app_move_inv:
  assumes inv: "exit_inv a" and s: "app_move env m a = Some a'"
  shows "exit_inv a'"
proof -
  consider (main) b where "m = Main_moves b" | (signal) b where "m = Signal_thread_moves b"
    | (other) "\<forall>b. m \<noteq> Main_moves b \<and> m \<noteq> Signal_thread_moves b" by auto
  then show ?thesis
  proof cases
    case main
    then show ?thesis using s main_step_inv [OF inv] by (simp add: app_move_def)
  next
    case signal
    then show ?thesis using s signal_step_inv [OF inv] by (simp add: app_move_def)
  next
    case other
    then have k: "ap_log a' = ap_log a" "ap_exit a' = ap_exit a" "ap_signal a' = ap_signal a"
        "ap_terminating a' = ap_terminating a" "ap_main a' = ap_main a"
        "filter is_notify (ap_queue a') = filter is_notify (ap_queue a)"
      using s by (cases m; auto simp: app_move_def app_post_def wait_called_def waiter_step_def
          split: if_splits waiter_pc.splits)+
    then have "exit_log a' = exit_log a" "at_end a' = at_end a" by (simp_all add: exit_log_def at_end_def)
    with k show ?thesis using inv by (intro exit_inv_kept [OF inv]) (simp_all add: exit_inv_def)
  qed
qed

text \<open>An application before its run: its callbacks, and what was posted already.\<close>

definition app_ready :: "nat list \<Rightarrow> nat list \<Rightarrow> nat list \<Rightarrow> nat list \<Rightarrow> app" where
  "app_ready starts exits controls posts =
     app_new\<lparr>ap_start := starts, ap_exit := exits, ap_control := controls, ap_queue := map T_user posts\<rparr>"

lemma ready_inv: "exit_inv (app_run env (app_ready starts exits controls posts))"
proof -
  have "filter is_notify (map T_user posts) = []" by (induction posts) simp_all
  then show ?thesis
    by (simp add: exit_inv_def app_ready_def app_run_def app_new_def exit_log_def signal_classes)
qed

lemma run_task_exit: "ap_exit (run_task env t a) = ap_exit a"
  by (cases t) (simp_all add: run_task_def Let_def)

lemma main_step_exit: "main_step env spurious a = Some a' \<Longrightarrow> ap_exit a' = ap_exit a"
  by (cases "ap_main a")
    (auto simp: main_step_def app_post_def cleanup_def Let_def run_task_exit split: if_splits list.splits)

lemma signal_step_exit: "signal_step env spurious a = Some a' \<Longrightarrow> ap_exit a' = ap_exit a"
  by (cases "ap_signal a")
    (auto simp: signal_step_def app_post_def signal_handled_def split: if_splits list.splits signal_data.splits)

lemma app_move_exit: "app_move env m a = Some a' \<Longrightarrow> ap_exit a' = ap_exit a"
  using main_step_exit signal_step_exit
  by (cases m) (auto simp: app_move_def waiter_step_def wait_called_def app_post_def split: if_splits waiter_pc.splits)

lemma app_moves_exit: "app_moves env ms a = Some a' \<Longrightarrow> ap_exit a' = ap_exit a"
  by (induction ms arbitrary: a) (auto split: option.splits dest: app_move_exit)

text \<open>C7: Whatever the threads and the system do in a run, the exit is announced once at most: the callbacks of an
  exit have not run, or each of them has run once, in their order, with the same signal number.\<close>
theorem exit_announced_at_most_once:
  assumes "app_moves env ms (app_run env (app_ready starts exits controls posts)) = Some a"
  shows "filter exit_event (ap_log a) = [] \<or> (\<exists>signo. filter exit_event (ap_log a) = map (\<lambda>cb. Exit_callback cb signo) exits)"
proof -
  have "exit_inv a"
    using app_moves_invariant [of exit_inv env _ ms] app_move_inv ready_inv assms by blast
  moreover have "ap_exit a = exits"
    using app_moves_exit [OF assms] by (simp add: app_ready_def app_run_def app_new_def)
  ultimately show ?thesis by (simp add: exit_inv_def exit_log_def)
qed

definition plain_env :: app_env where
  "plain_env =
     \<lparr>ae_is_fail_signal = (\<lambda>s. s = 11), ae_SIGUSR1 = 10, ae_SIGUSR2 = 12, ae_SIGTERM = 15, ae_save_dump = (\<lambda>p. False),
      ae_path_max = 4096, ae_exit_code_ok = 0, ae_exit_code_error = 1, ae_stops = (\<lambda>cb. None)\<rparr>"

lemmas app_exec = app_ready_def app_run_def app_new_def main_step_at signal_step_at run_task_def
  notify_all_def app_callback_def app_log_def app_post_def main_loop_halt_def signal_handled_def
  cleanup_def exit_status_def wait_called_def waiter_step_at Let_def

theorem exit_announced_at_most_once_witness:
  "\<exists>a. app_moves plain_env
     [Signal_thread_moves False, Main_moves False, Main_moves False, Main_moves False, Signal_arrives 15,
      Signal_thread_moves False, Signal_thread_moves False, Signal_thread_moves False, Signal_thread_moves False,
      Main_moves False] (app_run plain_env (app_ready [1] [2, 3] [] [])) = Some a \<and>
    (filter exit_event (ap_log a) = [] \<or> (\<exists>signo. filter exit_event (ap_log a) = map (\<lambda>cb. Exit_callback cb signo) [2, 3])) \<and>
    ap_log a = [Started_callback 1, Exit_callback 2 15, Exit_callback 3 15]"
proof -
  let ?ms = "[Signal_thread_moves False, Main_moves False, Main_moves False, Main_moves False, Signal_arrives 15,
      Signal_thread_moves False, Signal_thread_moves False, Signal_thread_moves False, Signal_thread_moves False,
      Main_moves False]"
  obtain a where a: "app_moves plain_env ?ms (app_run plain_env (app_ready [1] [2, 3] [] [])) = Some a"
      "ap_log a = [Started_callback 1, Exit_callback 2 15, Exit_callback 3 15]"
    by (simp add: app_exec plain_env_def process_signal_def)
  then show ?thesis using exit_announced_at_most_once [OF a(1)] by blast
qed

section \<open>Two races\<close>

text \<open>The main thread joins a signal thread that waits for callbacks nobody will run.\<close>

definition app_stuck :: "app \<Rightarrow> bool" where
  "app_stuck a = (ap_main a = M_join \<and> waiting_exit (ap_signal a))"

lemma app_stuck_move: "app_stuck a \<Longrightarrow> app_move env m a = Some a' \<Longrightarrow> app_stuck a'"
  by (cases m)
    (auto simp: app_stuck_def waiting_exit_def app_move_def main_step_def signal_step_def app_post_def wait_called_def
      waiter_step_def split: if_splits signal_pc.splits waiter_pc.splits)

text \<open>An application whose start has finished, with one callback of the exit.\<close>

definition app_started :: "nat \<Rightarrow> app" where
  "app_started cb =
     app_new\<lparr>ap_exit := [cb], ap_initiated := True, ap_running := True, ap_is_run := True, ap_main := M_loop,
             ap_signal := S_wait\<rparr>"

definition start_moves :: "move list" where
  "start_moves = [Signal_thread_moves False, Main_moves False, Main_moves False, Main_moves False]"

lemma start_moves_run: "app_moves env start_moves (app_run env (app_ready [] [cb] [] [])) = Some (app_started cb)"
  by (simp add: start_moves_def app_exec app_started_def)

lemma after_start:
  "app_moves env ms (app_started cb) = Some a \<Longrightarrow>
   app_moves env (start_moves @ ms) (app_run env (app_ready [] [cb] [] [])) = Some a"
  by (simp add: app_moves_append start_moves_run)

lemma signal_taken:
  assumes "\<not> ae_is_fail_signal env signo" "signo \<noteq> ae_SIGUSR1 env" "signo \<noteq> ae_SIGUSR2 env"
  shows "process_signal env d signo = Exit_signal signo"
  using assms by (simp add: process_signal_def)

definition race_moves :: "int \<Rightarrow> move list" where
  "race_moves signo =
     [Signal_arrives signo, Signal_thread_moves False, Signal_thread_moves False, Signal_thread_moves False,
      Stop_called 0, Stop_posted, Signal_thread_moves False, Main_moves False, Main_moves False, Main_moves False]"

lemma race_moves_run:
  assumes "\<not> ae_is_fail_signal env signo" "signo \<noteq> ae_SIGUSR1 env" "signo \<noteq> ae_SIGUSR2 env"
  shows "app_moves env (race_moves signo) (app_started cb) =
    Some (app_new\<lparr>ap_exit := [cb], ap_initiated := True, ap_terminating := True, ap_main := M_join,
                  ap_signal := S_wait_exit signo, ap_last := Exit_signal signo\<rparr>)"
  using signal_taken [OF assms]
  by (simp add: race_moves_def app_started_def app_new_def main_step_at signal_step_at run_task_at
      app_post_def main_loop_halt_def)

text \<open>C8: A stop that another thread asks for while a termination signal arrives can leave the process without an
  end: the callbacks of the exit are posted behind the stop, which drops them, the signal thread waits for them, and
  the main thread waits for the signal thread, whatever happens then.\<close>
theorem stop_races_with_signal:
  assumes "\<not> ae_is_fail_signal env signo" "signo \<noteq> ae_SIGUSR1 env" "signo \<noteq> ae_SIGUSR2 env"
  shows "\<exists>ms a. app_moves env ms (app_run env (app_ready [] [cb] [] [])) = Some a \<and> ap_log a = [] \<and>
    \<not> (\<exists>ms' a'. app_moves env ms' a = Some a' \<and> ap_main a' \<noteq> M_join)"
proof -
  obtain a where a: "app_moves env (race_moves signo) (app_started cb) = Some a" "ap_log a = []" "app_stuck a"
    using race_moves_run [OF assms, of cb] by (simp add: app_new_def app_stuck_def waiting_exit_def)
  have "app_stuck a'" if "app_moves env ms' a = Some a'" for ms' a'
    by (rule app_moves_invariant [of app_stuck, OF app_stuck_move a(3) that])
  then have "\<not> (\<exists>ms' a'. app_moves env ms' a = Some a' \<and> ap_main a' \<noteq> M_join)"
    unfolding app_stuck_def by blast
  with after_start [OF a(1)] a(2) show ?thesis by (intro exI conjI)
qed

theorem stop_races_with_signal_witness:
  "\<exists>ms a. app_moves plain_env ms (app_run plain_env (app_ready [] [7] [] [])) = Some a \<and> ap_log a = [] \<and>
    \<not> (\<exists>ms' a'. app_moves plain_env ms' a = Some a' \<and> ap_main a' \<noteq> M_join)"
  using stop_races_with_signal [of plain_env 15 7] by (simp add: plain_env_def)

text \<open>
  The end may also pass without any announcement: the termination that the main thread finds begun has met a loop
  that had stopped already.
\<close>
lemma exit_announcement_missed:
  assumes "\<not> ae_is_fail_signal env signo" "signo \<noteq> ae_SIGUSR1 env" "signo \<noteq> ae_SIGUSR2 env"
  shows "\<exists>ms a. app_moves env ms (app_run env (app_ready [] [cb] [] [])) = Some a \<and>
    ap_main a = M_returned (ae_exit_code_ok env) \<and> ap_log a = []"
proof -
  have "app_moves env
      [Signal_arrives signo, Signal_thread_moves False, Stop_called 0, Stop_posted, Main_moves False,
       Signal_thread_moves False, Signal_thread_moves False, Main_moves False, Main_moves False, Main_moves False,
       Main_moves False] (app_started cb) =
    Some (app_new\<lparr>ap_exit := [cb], ap_main := M_returned (ae_exit_code_ok env), ap_signal := S_done,
                  ap_last := Exit_signal signo\<rparr>)"
    using signal_taken [OF assms]
    by (simp add: app_started_def app_new_def main_step_at signal_step_at run_task_at
        app_post_def main_loop_halt_def signal_handled_def cleanup_def exit_status_def)
  from after_start [OF this] show ?thesis by (intro exI conjI) (assumption, simp_all add: app_new_def)
qed

text \<open>
  A thread that waits for the start may sleep through it: the notification does not take the mutex, and comes between
  the test and the sleep.
\<close>
lemma start_notification_missed:
  "\<exists>ms a. app_moves env ms (app_run env (app_ready [] [cb] [] [])) = Some a \<and> ap_is_run a \<and>
    ap_waiter a = W_blocked \<and> ap_queue a = []"
proof -
  have "app_moves env
      [Signal_thread_moves False, Main_moves False, Main_moves False, Wait_called, Waiter_moves False, Main_moves False,
       Waiter_moves False] (app_run env (app_ready [] [cb] [] [])) = Some ((app_started cb)\<lparr>ap_waiter := W_blocked\<rparr>)"
    by (simp add: app_exec app_started_def)
  then show ?thesis by (intro exI conjI) (assumption, simp_all add: app_started_def app_new_def)
qed

section \<open>A run that is stopped in order\<close>

definition never_stop :: "app_env \<Rightarrow> nat list \<Rightarrow> bool" where
  "never_stop env cbs = list_all (\<lambda>cb. ae_stops env cb = None) cbs"

lemma notify_logs: "never_stop env cbs \<Longrightarrow> notify_all env ev cbs a = a\<lparr>ap_log := ap_log a @ map ev cbs\<rparr>"
  by (induction cbs arbitrary: a) (simp_all add: never_stop_def notify_all_def app_callback_def app_log_def)

text \<open>An application in its main loop with these tasks and this log.\<close>

definition app_at :: "nat list \<Rightarrow> nat list \<Rightarrow> nat list \<Rightarrow> bool \<Rightarrow> task list \<Rightarrow> app_event list \<Rightarrow> app" where
  "app_at starts exits controls started tasks log =
     app_new\<lparr>ap_start := starts, ap_exit := exits, ap_control := controls, ap_initiated := True, ap_running := True,
             ap_is_run := started, ap_main := M_loop, ap_signal := S_wait, ap_queue := tasks, ap_log := log\<rparr>"

lemma run_begins:
  "app_moves env [Signal_thread_moves False, Main_moves False, Main_moves False]
     (app_run env (app_ready starts exits controls posts)) =
   Some (app_at starts exits controls False (map T_user posts @ [T_started]) [])"
  by (simp add: app_exec app_at_def)

lemma run_posts:
  "never_stop env posts \<Longrightarrow>
   app_moves env (replicate (length posts) (Main_moves False))
     (app_at starts exits controls b (map T_user posts @ ts) log) =
   Some (app_at starts exits controls b ts (log @ map User_callback posts))"
proof (induction posts arbitrary: log)
  case (Cons cb posts)
  have "main_step env False (app_at starts exits controls b (map T_user (cb # posts) @ ts) log) =
      Some (app_at starts exits controls b (map T_user posts @ ts) (log @ [User_callback cb]))"
    using Cons.prems by (simp add: main_step_at app_at_def app_new_def run_task_at app_callback_def app_log_def never_stop_def)
  then show ?case using Cons.IH [of "log @ [User_callback cb]"] Cons.prems by (simp add: never_stop_def)
qed simp

lemma run_started:
  "never_stop env starts \<Longrightarrow>
   main_step env False (app_at starts exits controls b (T_started # ts) log) =
   Some (app_at starts exits controls True ts (log @ map Started_callback starts))"
  by (simp add: main_step_at app_at_def app_new_def run_task_def notify_logs Let_def)

definition stop_moves :: "int \<Rightarrow> move list" where
  "stop_moves code =
     [Stop_called code, Stop_posted, Main_moves False, Main_moves False, Main_moves False,
      Signal_thread_moves False, Signal_thread_moves False, Signal_thread_moves False, Main_moves False, Main_moves False]"

lemma run_stopped:
  assumes "\<not> ae_is_fail_signal env (ae_SIGTERM env)" "ae_SIGTERM env \<noteq> ae_SIGUSR1 env" "ae_SIGTERM env \<noteq> ae_SIGUSR2 env"
    and "never_stop env exits"
  shows "app_moves env (stop_moves code) (app_at starts exits controls b [] log) =
    Some (app_new\<lparr>ap_start := starts, ap_exit := exits, ap_control := controls, ap_exit_code := code,
                  ap_main := exit_status env code, ap_signal := S_done, ap_last := Exit_signal (ae_SIGTERM env),
                  ap_log := log @ map (\<lambda>cb. Exit_callback cb 0) exits\<rparr>)"
  using signal_taken [OF assms(1-3)] assms(4)
  by (simp add: stop_moves_def app_at_def app_new_def main_step_at signal_step_at run_task_at app_post_def
      main_loop_halt_def signal_handled_def cleanup_def notify_logs)

text \<open>C9: An application whose callbacks do not stop it and that a thread stops with a code can run to its end: what
  was posted before the run comes first, then the callbacks of the start, then those of the exit with zero, each
  once and in their order, and the process leaves with the code, or with the code for errors when it is negative.\<close>
theorem application_runs_to_its_end:
  assumes "\<not> ae_is_fail_signal env (ae_SIGTERM env)" "ae_SIGTERM env \<noteq> ae_SIGUSR1 env" "ae_SIGTERM env \<noteq> ae_SIGUSR2 env"
    and "never_stop env (posts @ starts @ exits)"
  shows "\<exists>ms a. app_moves env ms (app_run env (app_ready starts exits controls posts)) = Some a \<and>
    ap_log a = map User_callback posts @ map Started_callback starts @ map (\<lambda>cb. Exit_callback cb 0) exits \<and>
    ap_main a = (if code = 0 then M_returned (ae_exit_code_ok env)
                 else M_exited (if code < 0 then ae_exit_code_error env else code))"
proof -
  have ns: "never_stop env posts" "never_stop env starts" "never_stop env exits"
    using assms(4) by (simp_all add: never_stop_def)
  let ?ms = "[Signal_thread_moves False, Main_moves False, Main_moves False] @
    replicate (length posts) (Main_moves False) @ [Main_moves False] @ stop_moves code"
  let ?log = "map User_callback posts @ map Started_callback starts @ map (\<lambda>cb. Exit_callback cb 0) exits"
  let ?a = "app_new\<lparr>ap_start := starts, ap_exit := exits, ap_control := controls, ap_exit_code := code,
      ap_main := exit_status env code, ap_signal := S_done, ap_last := Exit_signal (ae_SIGTERM env), ap_log := ?log\<rparr>"
  have one: "app_moves env [Main_moves False] b = main_step env False b" for b
    by (simp split: option.split)
  have "app_moves env ?ms (app_run env (app_ready starts exits controls posts)) = Some ?a"
    unfolding app_moves_append run_begins option.case run_posts [OF ns(1)] one run_started [OF ns(2)]
      run_stopped [OF assms(1-3) ns(3)] by simp
  moreover have "ap_log ?a = ?log" "ap_main ?a = (if code = 0 then M_returned (ae_exit_code_ok env)
      else M_exited (if code < 0 then ae_exit_code_error env else code))"
    by (simp_all add: exit_status_def)
  ultimately show ?thesis by (intro exI conjI)
qed

theorem application_runs_to_its_end_witness:
  "\<exists>ms a. app_moves plain_env ms (app_run plain_env (app_ready [1] [2] [] [3])) = Some a \<and>
    ap_log a = [User_callback 3, Started_callback 1, Exit_callback 2 0] \<and> ap_main a = M_exited 1"
  using application_runs_to_its_end [of plain_env "[3]" "[1]" "[2]" "[]" "-5"]
  by (simp add: plain_env_def never_stop_def)

end
