(* ===== verification/Spawn.thy ===== *)
theory Spawn
  imports Prelude
begin

text \<open>
  Child processes (src/spawn.cpp): what the child is executed with, its file descriptors, waiting for it and reading
  its status, and the thread that polls a pool of children. The operating system is what POSIX says of it: \<open>pipe\<close> takes
  the lowest free descriptors, \<open>waitpid\<close> reports a child once, a status is packed into sixteen bits.
\<close>

unbundle bit_operations_syntax

section \<open>What the child is executed with\<close>

text \<open>
  The arrays that the constructor builds: strings that end with a zero, and a null pointer at the end. What the new
  program sees of a string ends at its first zero. The environment is a \<open>std::map\<close>, the list of its pairs in the
  order of their keys.
\<close>

definition zero :: char where
  "zero = char_of (0 :: nat)"

definition make_argv :: "string list \<Rightarrow> string option list" where
  "make_argv args = map (\<lambda>a. Some (a @ [zero])) args @ [None]"

definition make_envv :: "(string \<times> string) list \<Rightarrow> string option list option" where
  "make_envv envs =
     (if envs \<noteq> [] then Some (map (\<lambda>(k, v). Some (k @ ''='' @ v @ [zero])) envs @ [None]) else None)"

definition c_string :: "string \<Rightarrow> string" where
  "c_string s = takeWhile (\<lambda>c. c \<noteq> zero) s"

fun c_strings :: "string option list \<Rightarrow> string list" where
  "c_strings [] = []"
| "c_strings (None # as) = []"
| "c_strings (Some s # as) = c_string s # c_strings as"

datatype exec_call =
    Execvpe string "string list" "string list"
  | Execvp string "string list"
  | Execve string "string list" "string list"
  | Execv string "string list"

definition child_exec :: "string list \<Rightarrow> (string \<times> string) list \<Rightarrow> bool \<Rightarrow> exec_call" where
  "child_exec args envs with_path =
     (let argv = c_strings (make_argv args); file = hd argv
      in case make_envv envs of
           Some envv \<Rightarrow> if with_path then Execvpe file argv (c_strings envv) else Execve file argv (c_strings envv)
         | None \<Rightarrow> if with_path then Execvp file argv else Execv file argv)"

lemma c_strings_argv: "c_strings (make_argv args) = map c_string args"
  by (induction args) (auto simp: make_argv_def c_string_def takeWhile_tail)

lemma c_string_zero [simp]: "c_string (s @ [zero]) = c_string s"
  by (simp add: c_string_def takeWhile_tail)

lemma c_strings_envv:
  "c_strings (map (\<lambda>(k, v). Some (k @ ''='' @ v @ [zero])) envs @ [None]) =
   map (\<lambda>(k, v). c_string (k @ ''='' @ v)) envs"
proof (induction envs)
  case (Cons e envs)
  obtain k v where e: "e = (k, v)" by (cases e)
  show ?case using Cons c_string_zero [of "k @ ''='' @ v"] by (simp add: e)
qed simp

section \<open>The status of a child\<close>

text \<open>The macros of \<open>sys/wait.h\<close> on the bits of a status.\<close>

definition WTERMSIG :: "int \<Rightarrow> int" where
  "WTERMSIG s = s AND 0x7f"

definition WIFEXITED :: "int \<Rightarrow> bool" where
  "WIFEXITED s = (WTERMSIG s = 0)"

definition WEXITSTATUS :: "int \<Rightarrow> int" where
  "WEXITSTATUS s = drop_bit 8 (s AND 0xff00)"

definition WIFSIGNALED :: "int \<Rightarrow> bool" where
  "WIFSIGNALED s = (drop_bit 1 (sint (word_of_int (s AND 0x7f) + 1 :: 8 word)) > 0)"

definition sigcode :: "int \<Rightarrow> int" where
  "sigcode returnstatus =
     (if returnstatus < 0 then returnstatus
      else if WIFSIGNALED returnstatus then WTERMSIG returnstatus else 0)"

definition returncode :: "int \<Rightarrow> int" where
  "returncode returnstatus =
     (if returnstatus < 0 then returnstatus
      else if WIFEXITED returnstatus then WEXITSTATUS returnstatus else sigcode returnstatus)"

text \<open>How a system packs a status: an exit with a code, or an end by a signal, with or without a core.\<close>

definition exited :: "nat \<Rightarrow> int" where
  "exited c = int c * 256"

definition signaled :: "nat \<Rightarrow> bool \<Rightarrow> int" where
  "signaled s core = int s + (if core then 128 else 0)"

lemma and_7f: "(x :: int) AND 127 = x mod 128"
  using take_bit_eq_mask [of 7 x] by (simp add: mask_eq_exp_minus_1 take_bit_eq_mod)

lemma exitstatus_div: "WEXITSTATUS s = s div 256 mod 256"
proof -
  have "drop_bit 8 (s AND 0xff00) = drop_bit 8 s AND drop_bit 8 (0xff00 :: int)" by (rule drop_bit_and)
  also have "drop_bit 8 (0xff00 :: int) = mask 8" by (simp add: drop_bit_eq_div mask_eq_exp_minus_1)
  also have "drop_bit 8 s AND mask 8 = take_bit 8 (drop_bit 8 s)" by (simp add: take_bit_eq_mask)
  finally show ?thesis by (simp add: WEXITSTATUS_def take_bit_eq_mod drop_bit_eq_div)
qed

lemma status_of_exit:
  assumes "c < 256"
  shows "returncode (exited c) = int c" "sigcode (exited c) = 0"
proof -
  have z: "exited c AND 127 = 0" unfolding and_7f exited_def by presburger
  then show "returncode (exited c) = int c"
    using assms by (simp add: returncode_def WIFEXITED_def WTERMSIG_def exitstatus_div) (simp add: exited_def)
  show "sigcode (exited c) = 0" using z
    by (simp add: sigcode_def WIFSIGNALED_def) (simp add: exited_def)
qed

lemma status_of_signal:
  assumes "0 < s" "s < 127"
  shows "returncode (signaled s core) = int s" "sigcode (signaled s core) = int s"
proof -
  have t: "WTERMSIG (signaled s core) = int s"
    using assms unfolding WTERMSIG_def and_7f signaled_def by (cases core) simp_all
  have e: "signaled s core AND 127 = int s" using t by (simp add: WTERMSIG_def)
  have "sint (word_of_int (int s) + 1 :: 8 word) = int s + 1"
  proof -
    have "(word_of_int (int s) + 1 :: 8 word) = word_of_int (int s + 1)" by simp
    moreover have "sint (word_of_int (int s + 1) :: 8 word) = int s + 1"
      unfolding sint_sbintrunc' using assms by (intro signed_take_bit_int_eq_self) simp_all
    ultimately show ?thesis by (simp only:)
  qed
  then have "WIFSIGNALED (signaled s core)"
    using assms by (simp add: WIFSIGNALED_def e drop_bit_eq_div)
  moreover have "\<not> WIFEXITED (signaled s core)" using t assms by (simp add: WIFEXITED_def)
  moreover have "signaled s core \<ge> 0" by (simp add: signaled_def)
  ultimately show "returncode (signaled s core) = int s" "sigcode (signaled s core) = int s"
    using t by (simp_all add: returncode_def sigcode_def)
qed

text \<open>
  The codes tell how the child ended: an exit gives its code and no signal, an end by a signal gives the
  number of the signal twice, so that the return code alone does not tell an exit from a signal.\<close>
lemma status_decoded:
  assumes "c < 256" "0 < s" "s < 127"
  shows "returncode (exited c) = int c \<and> sigcode (exited c) = 0 \<and>
    returncode (signaled s core) = int s \<and> sigcode (signaled s core) = int s \<and>
    returncode (exited s) = returncode (signaled s core)"
  using assms status_of_exit [of c] status_of_exit [of s] status_of_signal [of s core] by simp

lemma status_decoded_witness:
  "returncode (exited 3) = 3 \<and> sigcode (signaled 9 True) = 9 \<and> returncode (exited 9) = returncode (signaled 9 True)"
  using status_decoded [of 3 9 True] by simp

section \<open>Waiting for a child\<close>

text \<open>
  A child runs, has ended and keeps its status for its parent, or is gone: its status was taken, and its number may
  belong to another process.
\<close>

datatype child = Child_running | Child_zombie int | Child_gone

record spawn =
  sp_returnstatus :: int
  sp_kills :: "(int \<times> bool) list"

definition spawn_new :: spawn where
  "spawn_new = \<lparr>sp_returnstatus = -1, sp_kills = []\<rparr>"

datatype waitpid_result = Wait_error | Wait_zero | Wait_pid

definition waitpid_nohang :: "child \<Rightarrow> int \<Rightarrow> waitpid_result \<times> int \<times> child" where
  "waitpid_nohang c status =
     (case c of
        Child_running \<Rightarrow> (Wait_zero, status, c)
      | Child_zombie s \<Rightarrow> (Wait_pid, s, Child_gone)
      | Child_gone \<Rightarrow> (Wait_error, status, c))"

definition async_wait :: "child \<Rightarrow> bool \<Rightarrow> int \<Rightarrow> bool \<times> int \<times> child" where
  "async_wait c finished status =
     (let (result, status, c) = waitpid_nohang c status
      in (if result \<noteq> Wait_error then result = Wait_pid else finished, status, c))"

definition spawn_poll :: "spawn \<Rightarrow> child \<Rightarrow> bool \<times> spawn \<times> child" where
  "spawn_poll sp c =
     (if sp_returnstatus sp = -1 then
        let (finished, status, c) = async_wait c True (-1)
        in (finished, if finished then sp\<lparr>sp_returnstatus := status\<rparr> else sp, c)
      else (True, sp, c))"

text \<open>
  A wait blocks, which is none, while the child runs. When \<open>waitpid\<close> fails the status is what the variable held, the
  argument \<open>unset\<close>.
\<close>

definition spawn_wait :: "int \<Rightarrow> spawn \<Rightarrow> child \<Rightarrow> (spawn \<times> child) option" where
  "spawn_wait unset sp c =
     (if sp_returnstatus sp = -1 then
        (case c of
           Child_running \<Rightarrow> None
         | Child_zombie s \<Rightarrow> Some (sp\<lparr>sp_returnstatus := s\<rparr>, Child_gone)
         | Child_gone \<Rightarrow> Some (sp\<lparr>sp_returnstatus := unset\<rparr>, c))
      else Some (sp, c))"

definition spawn_destroy :: "int \<Rightarrow> spawn \<Rightarrow> child \<Rightarrow> (spawn \<times> child) option" where
  "spawn_destroy unset sp c =
     (if sp_returnstatus sp = -1 then
        let (finished, sp, c) = spawn_poll sp c in if \<not> finished then spawn_wait unset sp c else Some (sp, c)
      else Some (sp, c))"

text \<open>\<open>send_signal\<close>: the signal, with whether its target is still the child, and then the wait.\<close>

definition spawn_signal :: "int \<Rightarrow> spawn \<Rightarrow> child \<Rightarrow> spawn" where
  "spawn_signal sig sp c = sp\<lparr>sp_kills := sp_kills sp @ [(sig, c \<noteq> Child_gone)]\<rparr>"

definition send_signal :: "int \<Rightarrow> int \<Rightarrow> spawn \<Rightarrow> child \<Rightarrow> (spawn \<times> child) option" where
  "send_signal unset sig sp c = spawn_wait unset (spawn_signal sig sp c) c"

definition terminate_child :: "int \<Rightarrow> spawn \<Rightarrow> child \<Rightarrow> (spawn \<times> child) option" where
  "terminate_child unset sp c = send_signal unset 15 sp c"

definition kill_child :: "int \<Rightarrow> spawn \<Rightarrow> child \<Rightarrow> (spawn \<times> child) option" where
  "kill_child unset sp c = send_signal unset 9 sp c"

text \<open>What can happen to a spawned child: it ends, or its owner makes one of the calls; a call that blocks is waited for.\<close>

datatype spawn_op =
    Child_ends int
  | Call_poll
  | Call_wait
  | Call_signal int

definition spawn_do :: "int \<Rightarrow> spawn_op \<Rightarrow> spawn \<times> child \<Rightarrow> (spawn \<times> child) option" where
  "spawn_do unset op w =
     (let (sp, c) = w
      in case op of
           Child_ends s \<Rightarrow> if c = Child_running \<and> s \<ge> 0 then Some (sp, Child_zombie s) else None
         | Call_poll \<Rightarrow> Some (snd (spawn_poll sp c))
         | Call_wait \<Rightarrow> spawn_wait unset sp c
         | Call_signal sig \<Rightarrow> Some (spawn_signal sig sp c, c))"

fun spawn_ops :: "int \<Rightarrow> spawn_op list \<Rightarrow> spawn \<times> child \<Rightarrow> (spawn \<times> child) option" where
  "spawn_ops unset [] w = Some w"
| "spawn_ops unset (op # ops) w = (case spawn_do unset op w of None \<Rightarrow> None | Some w' \<Rightarrow> spawn_ops unset ops w')"

fun ended_with :: "spawn_op list \<Rightarrow> int option" where
  "ended_with [] = None"
| "ended_with (Child_ends s # ops) = Some s"
| "ended_with (_ # ops) = ended_with ops"

text \<open>The record of the owner agrees with the child.\<close>

definition spawn_ok :: "int option \<Rightarrow> spawn \<times> child \<Rightarrow> bool" where
  "spawn_ok e w =
     (case snd w of
        Child_running \<Rightarrow> e = None \<and> sp_returnstatus (fst w) = -1
      | Child_zombie s \<Rightarrow> e = Some s \<and> s \<ge> 0 \<and> sp_returnstatus (fst w) = -1
      | Child_gone \<Rightarrow> (\<exists>s \<ge> 0. e = Some s \<and> sp_returnstatus (fst w) = s))"

definition end_next :: "int option \<Rightarrow> spawn_op \<Rightarrow> int option" where
  "end_next e op = (case op of Child_ends s \<Rightarrow> Some s | _ \<Rightarrow> e)"

lemma spawn_do_ok:
  "spawn_ok e w \<Longrightarrow> spawn_do unset op w = Some w' \<Longrightarrow> spawn_ok (end_next e op) w'"
  by (cases w; cases op; cases "snd w")
    (auto simp: spawn_do_def spawn_ok_def end_next_def spawn_poll_def async_wait_def waitpid_nohang_def spawn_wait_def
      spawn_signal_def split: if_splits)

lemma spawn_ended_once: "spawn_ok (Some s) w \<Longrightarrow> spawn_do unset (Child_ends t) w = None"
  by (cases w; cases "snd w") (auto simp: spawn_ok_def spawn_do_def)

lemma spawn_ops_ok_after:
  "spawn_ok (Some s) w \<Longrightarrow> spawn_ops unset ops w = Some w' \<Longrightarrow> spawn_ok (Some s) w'"
proof (induction ops arbitrary: w)
  case (Cons op ops)
  then obtain w1 where w1: "spawn_do unset op w = Some w1" "spawn_ops unset ops w1 = Some w'"
    by (auto split: option.splits)
  have "end_next (Some s) op = Some s"
    using spawn_ended_once [OF Cons.prems(1)] w1(1) by (cases op) (auto simp: end_next_def)
  then have "spawn_ok (Some s) w1" using spawn_do_ok [OF Cons.prems(1) w1(1)] by simp
  then show ?case using Cons.IH w1(2) by simp
qed simp

lemma spawn_ops_ok:
  "spawn_ok None w \<Longrightarrow> spawn_ops unset ops w = Some w' \<Longrightarrow> spawn_ok (ended_with ops) w'"
proof (induction ops arbitrary: w)
  case (Cons op ops)
  then obtain w1 where w1: "spawn_do unset op w = Some w1" "spawn_ops unset ops w1 = Some w'"
    by (auto split: option.splits)
  have ok: "spawn_ok (end_next None op) w1" using spawn_do_ok [OF Cons.prems(1) w1(1)] .
  show ?case
  proof (cases op)
    case (Child_ends s)
    then show ?thesis using ok spawn_ops_ok_after [OF _ w1(2)] by (simp add: end_next_def)
  qed (use ok Cons.IH w1(2) in \<open>simp_all add: end_next_def\<close>)
qed simp

text \<open>
  Whatever calls the owner makes while the child runs and after it has ended, the status of the child is
  taken once and recorded as it was; before the end nothing is recorded; and destroying the object afterwards leaves
  no child behind that was not waited for.\<close>
lemma child_status_recorded:
  assumes "spawn_ops unset ops (spawn_new, Child_running) = Some (sp, c)"
  shows "sp_returnstatus sp \<in> {-1} \<union> set_option (ended_with ops) \<and>
    (spawn_destroy unset sp c = None \<longleftrightarrow> ended_with ops = None) \<and>
    \<not> (\<exists>sp' c'. spawn_destroy unset sp c = Some (sp', c') \<and>
          \<not> (c' = Child_gone \<and> Some (sp_returnstatus sp') = ended_with ops))"
proof -
  have "spawn_ok None (spawn_new, Child_running)" by (simp add: spawn_ok_def spawn_new_def)
  from spawn_ops_ok [OF this assms] have ok: "spawn_ok (ended_with ops) (sp, c)" by simp
  note defs = spawn_destroy_def spawn_poll_def async_wait_def waitpid_nohang_def spawn_wait_def
  show ?thesis
  proof (cases c)
    case Child_running
    then show ?thesis using ok by (simp add: spawn_ok_def defs)
  next
    case (Child_zombie s)
    then show ?thesis using ok by (simp add: spawn_ok_def defs)
  next
    case Child_gone
    then obtain s where "s \<ge> 0" "ended_with ops = Some s" "sp_returnstatus sp = s" using ok by (auto simp: spawn_ok_def)
    then show ?thesis using Child_gone by (simp add: defs)
  qed
qed

lemma child_status_recorded_witness:
  "\<exists>sp. spawn_ops 77 [Call_poll, Child_ends 256, Call_poll] (spawn_new, Child_running) = Some (sp, Child_gone) \<and>
    sp_returnstatus sp \<in> {-1} \<union> {256}"
  using child_status_recorded [of 77 "[Call_poll, Child_ends 256, Call_poll]"]
  by (simp add: spawn_do_def spawn_poll_def async_wait_def waitpid_nohang_def spawn_new_def)

text \<open>
  A signal that is sent after the child was waited for goes to whatever process has its number by then.
\<close>
lemma signal_after_wait:
  "spawn_ops unset [Child_ends 0, Call_poll, Call_signal 9] (spawn_new, Child_running) =
     Some (\<lparr>sp_returnstatus = 0, sp_kills = [(9, False)]\<rparr>, Child_gone)"
  by (simp add: spawn_do_def spawn_poll_def async_wait_def waitpid_nohang_def spawn_new_def spawn_signal_def)

section \<open>File descriptors\<close>

text \<open>
  The open descriptors of the process, each with what it stands for. A new one gets the lowest free number; closing one
  that is not open does nothing.
\<close>

type_synonym fd_table = "(nat \<times> string) list"

definition lowest_free :: "fd_table \<Rightarrow> nat" where
  "lowest_free t = hd (filter (\<lambda>n. n \<notin> fst ` set t) [0..<Suc (length t)])"

definition open_fd :: "string \<Rightarrow> fd_table \<Rightarrow> nat \<times> fd_table" where
  "open_fd what t = (let n = lowest_free t in (n, (n, what) # t))"

definition close_fd :: "nat \<Rightarrow> fd_table \<Rightarrow> fd_table" where
  "close_fd n t = filter (\<lambda>e. fst e \<noteq> n) t"

record cpipe =
  cp_read :: nat
  cp_write :: nat

definition cpipe_new :: "fd_table \<Rightarrow> cpipe \<times> fd_table" where
  "cpipe_new t = (let (r, t) = open_fd ''pipe'' t; (w, t) = open_fd ''pipe'' t in (\<lparr>cp_read = r, cp_write = w\<rparr>, t))"

definition cpipe_close :: "cpipe \<Rightarrow> fd_table \<Rightarrow> fd_table" where
  "cpipe_close p t = close_fd (cp_write p) (close_fd (cp_read p) t)"

text \<open>
  The parent's side of the constructor, and the destruction: each stream buffer closes its descriptor (unless
  \<open>send_eof\<close> did), and then each pipe closes both of its own, those the constructor closed included.
\<close>

record spawn_fds =
  sf_write_pipe :: cpipe
  sf_stdout_pipe :: cpipe
  sf_stderr_pipe :: cpipe
  sf_write_open :: bool

definition spawn_fds_new :: "fd_table \<Rightarrow> spawn_fds \<times> fd_table" where
  "spawn_fds_new t =
     (let (w, t) = cpipe_new t; (o', t) = cpipe_new t; (e, t) = cpipe_new t;
          t = close_fd (cp_read w) t; t = close_fd (cp_write o') t; t = close_fd (cp_write e) t
      in (\<lparr>sf_write_pipe = w, sf_stdout_pipe = o', sf_stderr_pipe = e, sf_write_open = True\<rparr>, t))"

definition send_eof :: "spawn_fds \<Rightarrow> fd_table \<Rightarrow> spawn_fds \<times> fd_table" where
  "send_eof f t =
     (f\<lparr>sf_write_open := False\<rparr>, if sf_write_open f then close_fd (cp_write (sf_write_pipe f)) t else t)"

definition spawn_fds_destroy :: "spawn_fds \<Rightarrow> fd_table \<Rightarrow> fd_table" where
  "spawn_fds_destroy f t =
     (let t = close_fd (cp_read (sf_stderr_pipe f)) t;
          t = close_fd (cp_read (sf_stdout_pipe f)) t;
          t = (if sf_write_open f then close_fd (cp_write (sf_write_pipe f)) t else t)
      in cpipe_close (sf_write_pipe f) (cpipe_close (sf_stdout_pipe f) (cpipe_close (sf_stderr_pipe f) t)))"

lemma filter_upt_hd:
  assumes "\<exists>n < k. P n"
  shows "P (hd (filter P [0..<k])) \<and> (\<forall>m < hd (filter P [0..<k]). \<not> P m)"
  using assms
proof (induction k)
  case (Suc k)
  show ?case
  proof (cases "\<exists>n < k. P n")
    case True
    then have "filter P [0..<k] \<noteq> []" by (auto simp: filter_empty_conv)
    then have "hd (filter P [0..<Suc k]) = hd (filter P [0..<k])" by simp
    then show ?thesis using Suc.IH [OF True] by metis
  next
    case False
    then have "filter P [0..<k] = []" "P k" using Suc.prems by (auto simp: filter_empty_conv less_Suc_eq)
    then show ?thesis using False by simp
  qed
qed simp

lemma lowest_free_spec: "lowest_free t \<notin> fst ` set t" "m < lowest_free t \<Longrightarrow> m \<in> fst ` set t"
proof -
  have "\<exists>n < Suc (length t). n \<notin> fst ` set t"
  proof (rule ccontr)
    assume "\<not> ?thesis"
    then have "{0..<Suc (length t)} \<subseteq> fst ` set t" by auto
    then have "card {0..<Suc (length t)} \<le> card (fst ` set t)" by (intro card_mono) auto
    also have "\<dots> \<le> length t" using card_image_le [of "set t" fst] card_length [of t] by simp
    finally show False by simp
  qed
  from filter_upt_hd [OF this]
  show "lowest_free t \<notin> fst ` set t" "m < lowest_free t \<Longrightarrow> m \<in> fst ` set t"
    unfolding lowest_free_def by blast+
qed

lemma lowest_free_unique:
  "n \<notin> fst ` set t \<Longrightarrow> (\<forall>m < n. m \<in> fst ` set t) \<Longrightarrow> lowest_free t = n"
  using lowest_free_spec [where t = t] by (meson linorder_neqE_nat)

lemma close_fd_fst: "fst ` set (close_fd n t) = fst ` set t - {n}"
  by (auto simp: close_fd_def)

lemma open_fd_facts: "open_fd what t = (n, t') \<Longrightarrow> n = lowest_free t \<and> t' = (n, what) # t"
  by (auto simp: open_fd_def Let_def)

text \<open>What the constructor leaves: the end of the pipe it closed is the lowest free number again.\<close>

lemma spawn_fds_new_free:
  assumes "spawn_fds_new t = (f, t')"
  shows "lowest_free t' = cp_read (sf_write_pipe f)"
proof -
  obtain r1 t1 where o1: "open_fd ''pipe'' t = (r1, t1)" by fastforce
  obtain w1 t2 where o2: "open_fd ''pipe'' t1 = (w1, t2)" by fastforce
  obtain r2 t3 where o3: "open_fd ''pipe'' t2 = (r2, t3)" by fastforce
  obtain w2 t4 where o4: "open_fd ''pipe'' t3 = (w2, t4)" by fastforce
  obtain r3 t5 where o5: "open_fd ''pipe'' t4 = (r3, t5)" by fastforce
  obtain w3 t6 where o6: "open_fd ''pipe'' t5 = (w3, t6)" by fastforce
  have f: "f = \<lparr>sf_write_pipe = \<lparr>cp_read = r1, cp_write = w1\<rparr>, sf_stdout_pipe = \<lparr>cp_read = r2, cp_write = w2\<rparr>,
      sf_stderr_pipe = \<lparr>cp_read = r3, cp_write = w3\<rparr>, sf_write_open = True\<rparr>"
    and t': "t' = close_fd w3 (close_fd w2 (close_fd r1 t6))"
    using assms by (simp_all add: spawn_fds_new_def cpipe_new_def o1 o2 o3 o4 o5 o6)
  have t6: "fst ` set t6 = fst ` set t \<union> {r1, w1, r2, w2, r3, w3}"
    using open_fd_facts [OF o1] open_fd_facts [OF o2] open_fd_facts [OF o3] open_fd_facts [OF o4] open_fd_facts [OF o5]
      open_fd_facts [OF o6] by auto
  have r1: "r1 = lowest_free t" using open_fd_facts [OF o1] by simp
  have ne: "w2 \<notin> fst ` set t" "w3 \<notin> fst ` set t"
    using open_fd_facts [OF o1] open_fd_facts [OF o2] open_fd_facts [OF o3] open_fd_facts [OF o4] open_fd_facts [OF o5]
      open_fd_facts [OF o6] lowest_free_spec(1) [where t = t3] lowest_free_spec(1) [where t = t5] by auto
  have "lowest_free t' = r1"
  proof (rule lowest_free_unique)
    show "r1 \<notin> fst ` set t'" by (simp add: t' close_fd_fst)
    show "\<forall>m < r1. m \<in> fst ` set t'"
      using lowest_free_spec(2) [where t = t] ne unfolding t' close_fd_fst t6 r1 by blast
  qed
  then show ?thesis by (simp add: f)
qed

text \<open>
  The next file that the process opens after it has spawned a child gets the descriptor that the constructor
  closed, and the destruction of the object closes it a second time: the file of somebody else is closed.\<close>
lemma foreign_file_closed:
  assumes "spawn_fds_new t = (f, t1)" "open_fd what t1 = (n, t2)"
  shows "n = cp_read (sf_write_pipe f) \<and> (n, what) \<in> set t2 \<and> n \<notin> fst ` set (spawn_fds_destroy f t2)"
proof -
  have "n = cp_read (sf_write_pipe f)" "t2 = (n, what) # t1"
    using spawn_fds_new_free [OF assms(1)] open_fd_facts [OF assms(2)] by simp_all
  then show ?thesis by (simp add: spawn_fds_destroy_def cpipe_close_def Let_def close_fd_fst)
qed

lemma foreign_file_closed_witness:
  "\<exists>f t1. spawn_fds_new [(0, ''in''), (1, ''out''), (2, ''err'')] = (f, t1) \<and>
     (3, ''journal'') \<in> set (snd (open_fd ''journal'' t1)) \<and>
     3 \<notin> fst ` set (spawn_fds_destroy f (snd (open_fd ''journal'' t1)))"
proof -
  obtain f t1 where f: "spawn_fds_new [(0, ''in''), (1, ''out''), (2, ''err'')] = (f, t1)" by fastforce
  have "lowest_free [(0, ''in''), (1, ''out''), (2, ''err'')] = 3"
    by (rule lowest_free_unique) auto
  then have r: "cp_read (sf_write_pipe f) = 3"
    using f by (auto simp: spawn_fds_new_def cpipe_new_def open_fd_def Let_def)
  obtain n t2 where o': "open_fd ''journal'' t1 = (n, t2)" by fastforce
  note c = foreign_file_closed [OF f o']
  then have n: "n = 3" using r by simp
  have t: "snd (open_fd ''journal'' t1) = t2" using o' by simp
  show ?thesis by (rule exI [of _ f], rule exI [of _ t1]) (use c f n t in simp)
qed

section \<open>Communicating\<close>

text \<open>
  A child that writes so many bytes before it ends, into a pipe with a capacity, while its parent is in
  \<open>communicate\<close>, which closes the input, waits and reads nothing.
\<close>

definition child_writes :: "nat \<Rightarrow> nat \<Rightarrow> nat \<Rightarrow> nat" where
  "child_writes capacity amount written = (if written < amount \<and> written < capacity then Suc written else written)"

lemma written_le: "(child_writes capacity amount ^^ k) 0 \<le> capacity"
  by (induction k) (auto simp: child_writes_def)

lemma written_min: "(child_writes capacity amount ^^ k) 0 = min k (min amount capacity)"
  by (induction k) (simp_all add: child_writes_def min_def)

text \<open>The parent returns exactly when what the child writes fits the pipe.\<close>

lemma communicate_returns_iff: "(\<exists>k. (child_writes capacity amount ^^ k) 0 = amount) \<longleftrightarrow> amount \<le> capacity"
  unfolding written_min by (metis min.absorb_iff1 min.cobounded2 min.idem min_le_iff_disj order_refl)

section \<open>Polling a pool\<close>

text \<open>
  \<open>spawn_polling\<close>: its pool, what its thread has taken out of it and not looked at yet, the counter, whether it is to
  end, where its thread is, what others are about to append after their test of the flag, and the children that were
  found finished and those that were killed.
\<close>

datatype poll_pc = P_outer | P_inner | P_killing | P_ended

record polling =
  po_pool :: "nat list"
  po_taken :: "nat list"
  po_pool_size :: "64 word"
  po_break :: bool
  po_pc :: poll_pc
  po_appending :: "nat list"
  po_finished :: "nat list"
  po_killed :: "nat list"

definition polling_new :: "nat option \<Rightarrow> polling" where
  "polling_new s =
     \<lparr>po_pool = (case s of None \<Rightarrow> [] | Some x \<Rightarrow> [x]), po_taken = [],
      po_pool_size = (case s of None \<Rightarrow> 0 | Some x \<Rightarrow> 1), po_break = False, po_pc = P_outer, po_appending = [],
      po_finished = [], po_killed = []\<rparr>"

text \<open>
  The steps: the test of \<open>append\<close>, and its push with the counter, both under the mutex; the thread takes the pool,
  looks at the next child (the argument is what \<open>poll\<close> says), leaves its loops, kills a child; and the destructor
  asks for the end.
\<close>

datatype poll_step =
    Append_tests nat
  | Append_pushes
  | Takes_pool
  | Polls bool
  | Kills
  | Breaks

definition poll_do :: "poll_step \<Rightarrow> polling \<Rightarrow> polling option" where
  "poll_do st p =
     (case st of
        Append_tests s \<Rightarrow> Some (if \<not> po_break p then p\<lparr>po_appending := po_appending p @ [s]\<rparr> else p)
      | Append_pushes \<Rightarrow>
          (case po_appending p of
             [] \<Rightarrow> None
           | s # ss \<Rightarrow>
               Some (p\<lparr>po_appending := ss, po_pool := po_pool p @ [s], po_pool_size := po_pool_size p + 1\<rparr>))
      | Takes_pool \<Rightarrow>
          (if po_pc p = P_outer then
             (if \<not> po_break p then Some (p\<lparr>po_taken := po_pool p, po_pool := [], po_pc := P_inner\<rparr>)
              else Some (p\<lparr>po_pc := P_killing\<rparr>))
           else None)
      | Polls finished \<Rightarrow>
          (if po_pc p = P_inner then
             (case po_taken p of
                [] \<Rightarrow> Some (p\<lparr>po_pc := P_outer\<rparr>)
              | s # ss \<Rightarrow>
                  if po_break p \<or> \<not> finished then Some (p\<lparr>po_taken := ss, po_pool := po_pool p @ [s]\<rparr>)
                  else Some (p\<lparr>po_taken := ss, po_pool_size := po_pool_size p - 1, po_finished := po_finished p @ [s]\<rparr>))
           else None)
      | Kills \<Rightarrow>
          (if po_pc p = P_killing
           then Some (p\<lparr>po_killed := po_killed p @ po_pool p, po_pool := [], po_pc := P_ended\<rparr>) else None)
      | Breaks \<Rightarrow> Some (p\<lparr>po_break := True\<rparr>))"

fun poll_steps :: "poll_step list \<Rightarrow> polling \<Rightarrow> polling option" where
  "poll_steps [] p = Some p"
| "poll_steps (st # sts) p = (case poll_do st p of None \<Rightarrow> None | Some p' \<Rightarrow> poll_steps sts p')"

definition polling_count :: "polling \<Rightarrow> 64 word" where
  "polling_count p = po_pool_size p"

text \<open>Every child the pool was given.\<close>

definition held :: "polling \<Rightarrow> nat multiset" where
  "held p = mset (po_pool p) + mset (po_taken p)"

definition settled :: "polling \<Rightarrow> nat multiset" where
  "settled p = mset (po_finished p) + mset (po_killed p)"

definition accepted :: "poll_step \<Rightarrow> polling \<Rightarrow> nat multiset" where
  "accepted st p = (case st of Append_tests s \<Rightarrow> if po_break p then {#} else {#s#} | _ \<Rightarrow> {#})"

fun all_accepted :: "poll_step list \<Rightarrow> polling \<Rightarrow> nat multiset" where
  "all_accepted [] p = {#}"
| "all_accepted (st # sts) p =
     accepted st p + (case poll_do st p of None \<Rightarrow> {#} | Some p' \<Rightarrow> all_accepted sts p')"

definition polling_ok :: "nat multiset \<Rightarrow> polling \<Rightarrow> bool" where
  "polling_ok m p =
     (held p + mset (po_appending p) + settled p = m \<and>
      po_pool_size p = word_of_nat (size (held p)) + word_of_nat (size (mset (po_killed p))) \<and>
      (po_pc p \<noteq> P_inner \<longrightarrow> po_taken p = []))"

lemma poll_do_ok: "polling_ok m p \<Longrightarrow> poll_do st p = Some p' \<Longrightarrow> polling_ok (m + accepted st p) p'"
  by (cases st)
    (auto simp: polling_ok_def poll_do_def held_def settled_def accepted_def split: if_splits list.splits)

lemma poll_steps_ok: "polling_ok m p \<Longrightarrow> poll_steps sts p = Some p' \<Longrightarrow> polling_ok (m + all_accepted sts p) p'"
proof (induction sts arbitrary: m p)
  case (Cons st sts)
  then obtain q where q: "poll_do st p = Some q" "poll_steps sts q = Some p'" by (auto split: option.splits)
  from Cons.IH [OF poll_do_ok [OF Cons.prems(1) q(1)] q(2)] show ?case using q(1) by (simp add: add.assoc)
qed simp



text \<open>
  The test of \<open>append\<close> and its push are not one step: a child that is pushed after the thread has ended is neither
  waited for nor killed, although it was accepted.
\<close>
lemma append_after_end:
  "\<exists>p. poll_steps [Append_tests 5, Breaks, Takes_pool, Kills, Append_pushes] (polling_new None) = Some p \<and>
     po_pc p = P_ended \<and> po_pool p = [5] \<and> po_killed p = []"
  by (simp add: poll_do_def polling_new_def)

end
