(* ===== verification/Thread_Storage.thy ===== *)
theory Thread_Storage
  imports Prelude
begin

text \<open>
  Buffers of threads (src/thread_local_storage.cpp): for each of a fixed number of indices a map from threads to
  their buffers. What a store with keys promises its users is a locale, and the storage an interpretation of it. The
  pointer that an operation hands out is the buffer it points to.
\<close>

section \<open>A store with keys\<close>

locale keyed_store =
  fixes valid :: "'s \<Rightarrow> 'k \<Rightarrow> bool"
    and lookup :: "'s \<Rightarrow> 'k \<Rightarrow> 'v option"
    and put :: "'k \<Rightarrow> 'v \<Rightarrow> 's \<Rightarrow> 's"
    and discard :: "'k \<Rightarrow> 's \<Rightarrow> 's"
  assumes valid_put: "valid (put k v s) k' = valid s k'"
    and valid_discard: "valid (discard k s) k' = valid s k'"
    and lookup_put: "valid s k \<Longrightarrow> lookup (put k v s) k' = (if k' = k then Some v else lookup s k')"
    and lookup_discard: "valid s k \<Longrightarrow> lookup (discard k s) k' = (if k' = k then None else lookup s k')"
begin

text \<open>An update of a key: a new value, or none.\<close>

definition update :: "'k \<Rightarrow> 'v option \<Rightarrow> 's \<Rightarrow> 's" where
  "update k v s = (case v of None \<Rightarrow> discard k s | Some x \<Rightarrow> put k x s)"

lemma valid_update [simp]: "valid (update k v s) k' = valid s k'"
  by (simp add: update_def valid_put valid_discard split: option.split)

lemma lookup_update: "valid s k \<Longrightarrow> lookup (update k v s) k' = (if k' = k then v else lookup s k')"
  by (simp add: update_def lookup_put lookup_discard split: option.split)

end

section \<open>The storage\<close>

type_synonym bytes = "8 word list"

record thread_storage =
  ts_buffers :: "(nat \<Rightarrow> bytes option) list"
  ts_buffers_count :: nat

definition thread_storage_new :: "8 word \<Rightarrow> thread_storage result" where
  "thread_storage_new buffers_count =
     (let ts = \<lparr>ts_buffers = replicate (unat buffers_count) (\<lambda>t. None), ts_buffers_count = unat buffers_count\<rparr>
      in srv_assert (length (ts_buffers ts) > 0) ''_buffers.size() > 0'' (Inr ts))"

text \<open>A buffer of an index and a thread.\<close>

definition ts_valid :: "thread_storage \<Rightarrow> nat \<times> nat \<Rightarrow> bool" where
  "ts_valid ts k = (fst k < ts_buffers_count ts \<and> fst k < length (ts_buffers ts))"

definition ts_lookup :: "thread_storage \<Rightarrow> nat \<times> nat \<Rightarrow> bytes option" where
  "ts_lookup ts k = (if fst k < length (ts_buffers ts) then (ts_buffers ts ! fst k) (snd k) else None)"

definition ts_put :: "nat \<times> nat \<Rightarrow> bytes \<Rightarrow> thread_storage \<Rightarrow> thread_storage" where
  "ts_put k v ts = ts\<lparr>ts_buffers := (ts_buffers ts)[fst k := (ts_buffers ts ! fst k)(snd k := Some v)]\<rparr>"

definition ts_discard :: "nat \<times> nat \<Rightarrow> thread_storage \<Rightarrow> thread_storage" where
  "ts_discard k ts = ts\<lparr>ts_buffers := (ts_buffers ts)[fst k := (ts_buffers ts ! fst k)(snd k := None)]\<rparr>"

interpretation tls: keyed_store ts_valid ts_lookup ts_put ts_discard
  by unfold_locales
    (auto simp: ts_valid_def ts_lookup_def ts_put_def ts_discard_def nth_list_update prod_eq_iff)

text \<open>\<open>vector::resize\<close>: the end is cut off, or zeros are added.\<close>

definition resize_bytes :: "nat \<Rightarrow> bytes \<Rightarrow> bytes" where
  "resize_bytes sz v = take sz v @ replicate (sz - length v) 0"

definition ts_checked :: "8 word \<Rightarrow> thread_storage \<Rightarrow> 'a result \<Rightarrow> 'a result" where
  "ts_checked i ts r = srv_assert (unat i < ts_buffers_count ts) ''Unregistered buffer'' r"

definition ts_size :: "nat \<Rightarrow> 8 word \<Rightarrow> thread_storage \<Rightarrow> nat result" where
  "ts_size tid i ts =
     ts_checked i ts
       (case ts_lookup ts (unat i, tid) of
          None \<Rightarrow> Inl (Logic_error ''it != storage.end()'')
        | Some v \<Rightarrow> Inr (length v))"

definition ts_create :: "nat \<Rightarrow> nat \<Rightarrow> 8 word \<Rightarrow> thread_storage \<Rightarrow> (bytes \<times> thread_storage) result" where
  "ts_create tid sz i ts =
     ts_checked i ts
       (let v = (case ts_lookup ts (unat i, tid) of
                   None \<Rightarrow> replicate sz 0
                 | Some old \<Rightarrow> (let v = resize_bytes sz old in replicate sz 0 @ drop sz v))
        in Inr (v, ts_put (unat i, tid) v ts))"

definition ts_create_from :: "nat \<Rightarrow> bytes \<Rightarrow> 8 word \<Rightarrow> thread_storage \<Rightarrow> (bytes \<times> thread_storage) result" where
  "ts_create_from tid src i ts =
     ts_checked i ts
       (let v = (case ts_lookup ts (unat i, tid) of
                   None \<Rightarrow> replicate (length src) 0
                 | Some old \<Rightarrow> resize_bytes (length src) old);
            v = src @ drop (length src) v
        in Inr (v, ts_put (unat i, tid) v ts))"

definition ts_get :: "nat \<Rightarrow> 8 word \<Rightarrow> thread_storage \<Rightarrow> bytes result" where
  "ts_get tid i ts =
     ts_checked i ts
       (case ts_lookup ts (unat i, tid) of None \<Rightarrow> Inl (Logic_error ''Not found'') | Some v \<Rightarrow> Inr v)"

definition ts_resize :: "nat \<Rightarrow> nat \<Rightarrow> 8 word \<Rightarrow> thread_storage \<Rightarrow> thread_storage result" where
  "ts_resize tid new_sz i ts =
     ts_checked i ts
       (srv_assert (new_sz > 0) ''Invalid size''
         (case ts_lookup ts (unat i, tid) of
            None \<Rightarrow> Inl (Logic_error ''Not found'')
          | Some v \<Rightarrow> Inr (ts_put (unat i, tid) (resize_bytes new_sz v) ts)))"

definition ts_remove :: "nat \<Rightarrow> 8 word \<Rightarrow> thread_storage \<Rightarrow> thread_storage result" where
  "ts_remove tid i ts =
     ts_checked i ts
       (Inr (case ts_lookup ts (unat i, tid) of None \<Rightarrow> ts | Some v \<Rightarrow> ts_discard (unat i, tid) ts))"

definition ts_get_ref :: "nat \<Rightarrow> 8 word \<Rightarrow> thread_storage \<Rightarrow> bytes result" where
  "ts_get_ref tid i ts =
     ts_checked i ts (Inr (case ts_lookup ts (unat i, tid) of None \<Rightarrow> [] | Some v \<Rightarrow> v))"

section \<open>What the calls do to the store\<close>

text \<open>The calls that change the storage, by which thread and for which index; one that throws changes nothing.\<close>

datatype ts_call = Create nat | Create_from bytes | Resize nat | Remove

definition ts_do :: "nat \<Rightarrow> 8 word \<Rightarrow> ts_call \<Rightarrow> thread_storage \<Rightarrow> thread_storage" where
  "ts_do tid i c ts =
     (case (case c of
              Create sz \<Rightarrow> map_sum id snd (ts_create tid sz i ts)
            | Create_from src \<Rightarrow> map_sum id snd (ts_create_from tid src i ts)
            | Resize sz \<Rightarrow> ts_resize tid sz i ts
            | Remove \<Rightarrow> ts_remove tid i ts) of
        Inl e \<Rightarrow> ts
      | Inr ts' \<Rightarrow> ts')"

text \<open>The specification: what a call makes of the buffer of its thread.\<close>

definition new_buffer :: "ts_call \<Rightarrow> bytes option \<Rightarrow> bytes option" where
  "new_buffer c v =
     (case c of
        Create sz \<Rightarrow> Some (replicate sz 0)
      | Create_from src \<Rightarrow> Some src
      | Resize sz \<Rightarrow> (if sz = 0 then v else map_option (resize_bytes sz) v)
      | Remove \<Rightarrow> None)"

definition ts_ok :: "thread_storage \<Rightarrow> bool" where
  "ts_ok ts = (ts_buffers_count ts = length (ts_buffers ts))"

lemma resize_length [simp]: "length (resize_bytes sz v) = sz"
  by (simp add: resize_bytes_def)

lemma ts_valid_ok: "ts_ok ts \<Longrightarrow> ts_valid ts k = (fst k < ts_buffers_count ts)"
  by (auto simp: ts_ok_def ts_valid_def)

lemma ts_put_ok [simp]: "ts_ok (ts_put k v ts) = ts_ok ts" "ts_ok (ts_discard k ts) = ts_ok ts"
  by (simp_all add: ts_ok_def ts_put_def ts_discard_def)

text \<open>Every call is one update of the store, of the buffer of its thread and its index.\<close>

lemma ts_put_same: "ts_lookup ts k = Some v \<Longrightarrow> ts_put k v ts = ts"
  by (cases k) (auto simp: ts_lookup_def ts_put_def fun_upd_idem split: if_splits)

lemma ts_discard_none: "ts_lookup ts k = None \<Longrightarrow> ts_discard k ts = ts"
  by (cases k) (auto simp: ts_lookup_def ts_discard_def fun_upd_idem list_update_beyond split: if_splits)

lemma ts_do_update:
  assumes "unat i < ts_buffers_count ts"
  shows "ts_do tid i c ts = tls.update (unat i, tid) (new_buffer c (ts_lookup ts (unat i, tid))) ts"
  using assms by (cases c)
    (auto simp: ts_do_def ts_create_def ts_create_from_def ts_resize_def ts_remove_def ts_checked_def srv_assert_def
      new_buffer_def Let_def tls.update_def ts_put_same ts_discard_none split: option.splits)

lemma ts_do_unregistered: "\<not> unat i < ts_buffers_count ts \<Longrightarrow> ts_do tid i c ts = ts"
  by (cases c) (simp_all add: ts_do_def ts_create_def ts_create_from_def ts_resize_def ts_remove_def ts_checked_def
    srv_assert_def)

lemma ts_do_lookup:
  assumes "ts_ok ts"
  shows "ts_lookup (ts_do tid i c ts) k =
    (if k = (unat i, tid) \<and> unat i < ts_buffers_count ts then new_buffer c (ts_lookup ts k) else ts_lookup ts k)"
  using assms by (cases "unat i < ts_buffers_count ts")
    (simp_all add: ts_do_update ts_do_unregistered tls.lookup_update ts_valid_ok)

lemma ts_do_ok [simp]:
  "ts_ok (ts_do tid i c ts) = ts_ok ts" "ts_buffers_count (ts_do tid i c ts) = ts_buffers_count ts"
  by (cases "unat i < ts_buffers_count ts";
    simp add: ts_do_update ts_do_unregistered tls.update_def ts_put_def ts_discard_def ts_ok_def split: option.split)+

definition ts_run :: "(nat \<times> 8 word \<times> ts_call) list \<Rightarrow> thread_storage \<Rightarrow> thread_storage" where
  "ts_run cs ts = fold (\<lambda>(tid, i, c). ts_do tid i c) cs ts"

text \<open>The specification of a run, for one thread and one index: only its own calls count.\<close>

definition own_buffer :: "nat \<Rightarrow> 8 word \<Rightarrow> (nat \<times> 8 word \<times> ts_call) list \<Rightarrow> bytes option" where
  "own_buffer tid i cs =
     fold (\<lambda>(t, j, c). new_buffer c) (filter (\<lambda>(t, j, c). t = tid \<and> j = i) cs) None"

lemma ts_run_lookup:
  assumes "ts_ok ts" "unat i < ts_buffers_count ts"
  shows "ts_lookup (ts_run cs ts) (unat i, tid) =
    fold (\<lambda>(t, j, c). new_buffer c) (filter (\<lambda>(t, j, c). t = tid \<and> j = i) cs) (ts_lookup ts (unat i, tid)) \<and>
    ts_ok (ts_run cs ts) \<and> ts_buffers_count (ts_run cs ts) = ts_buffers_count ts"
  using assms
proof (induction cs arbitrary: ts)
  case (Cons x cs)
  obtain t j c where x: "x = (t, j, c)" by (cases x)
  have eq: "(unat i, tid) = (unat j, t) \<longleftrightarrow> t = tid \<and> j = i" by (auto simp: word_unat_eq_iff)
  show ?case
    using Cons.IH [of "ts_do t j c ts"] Cons.prems ts_do_lookup [OF Cons.prems(1), where tid = t and i = j and c = c]
    by (auto simp: ts_run_def x eq word_unat_eq_iff)
qed (simp add: ts_run_def)

text \<open>C11: Whatever the threads do with the storage, what a thread gets for an index is what its own calls for that
  index have made of it: zeros, a copy, a resized buffer, or an error when it has none.\<close>
theorem threads_have_their_own_buffers:
  assumes "thread_storage_new n = Inr ts" "i < n"
  shows "ts_get tid i (ts_run cs ts) =
    (case own_buffer tid i cs of None \<Rightarrow> Inl (Logic_error ''Not found'') | Some v \<Rightarrow> Inr v)"
proof -
  have ts: "ts_ok ts" "ts_buffers_count ts = unat n" "ts_lookup ts (unat i, tid) = None"
    using assms(1) by (auto simp: thread_storage_new_def Let_def ts_ok_def ts_lookup_def)
  have i: "unat i < ts_buffers_count ts" using assms(2) ts(2) by (simp add: word_less_nat_alt)
  show ?thesis
    using ts_run_lookup [OF ts(1) i, of cs tid] i ts(3)
    by (simp add: ts_get_def ts_checked_def own_buffer_def)
qed

theorem threads_have_their_own_buffers_witness:
  "ts_get 1 0 (ts_run [(1, 0, Create_from [7, 8]), (2, 0, Create 5), (1, 1, Remove), (1, 0, Resize 3)]
     \<lparr>ts_buffers = [\<lambda>t. None, \<lambda>t. None], ts_buffers_count = 2\<rparr>) = Inr [7, 8, 0]"
proof -
  have n: "thread_storage_new 2 = Inr \<lparr>ts_buffers = [\<lambda>t. None, \<lambda>t. None], ts_buffers_count = 2\<rparr>"
  proof -
    have "unat (2 :: 8 word) = 2" "replicate 2 x = [x, x]" for x :: "nat \<Rightarrow> bytes option"
      by (simp, simp only: numeral_2_eq_2 replicate.simps)
    then show ?thesis by (simp add: thread_storage_new_def srv_assert_def Let_def)
  qed
  have b: "own_buffer 1 0 [(1, 0, Create_from [7, 8]), (2, 0, Create 5), (1, 1, Remove), (1, 0, Resize 3)] = Some [7, 8, 0]"
    by (simp add: own_buffer_def new_buffer_def resize_bytes_def)
  show ?thesis
    using threads_have_their_own_buffers [OF n, where i = 0 and tid = 1
        and cs = "[(1, 0, Create_from [7, 8]), (2, 0, Create 5), (1, 1, Remove), (1, 0, Resize 3)]"] unfolding b by simp
qed

end
