(* ===== verification/Web_Server.thy ===== *)
theory Web_Server
  imports Http_Server
begin

text \<open>
  The web server that applications use (src/network/web/web_server.cpp) over the HTTP server: the handlers that are
  registered, how they become the resources of the server, which of them a request reaches, starting, waiting and
  stopping, and the set of connections that the server keeps (src/network/web/http_server_impl.h). A \<open>std::map\<close> with
  strings as its keys is the list of its pairs in the order of the keys. Callbacks are numbers. The compilation and
  the matching of regular expressions, and what the system answers to the acceptor, are arguments.
\<close>

section \<open>Maps\<close>

fun smap_insert :: "string \<Rightarrow> 'a \<Rightarrow> (string \<times> 'a) list \<Rightarrow> (string \<times> 'a) list" where
  "smap_insert k v [] = [(k, v)]"
| "smap_insert k v ((k', v') # m) =
     (if string_less k k' then (k, v) # (k', v') # m
      else if k = k' then (k, v) # m
      else (k', v') # smap_insert k v m)"

definition smap_erase :: "string \<Rightarrow> (string \<times> 'a) list \<Rightarrow> (string \<times> 'a) list" where
  "smap_erase k m = filter (\<lambda>e. fst e \<noteq> k) m"

text \<open>\<open>operator[]\<close>: what a key has, or a new value.\<close>

definition smap_at :: "'a \<Rightarrow> string \<Rightarrow> (string \<times> 'a) list \<Rightarrow> 'a" where
  "smap_at d k m = (case map_of m k of None \<Rightarrow> d | Some v \<Rightarrow> v)"

definition smap_ok :: "(string \<times> 'a) list \<Rightarrow> bool" where
  "smap_ok m = sorted_wrt string_less (map fst m)"

lemma string_less_irrefl [simp]: "\<not> string_less s s"
  by (induction s) simp_all

lemma string_less_trans: "string_less a b \<Longrightarrow> string_less b c \<Longrightarrow> string_less a c"
proof (induction a b arbitrary: c rule: string_less.induct)
  case (4 x s y t)
  then show ?case by (cases c) (auto split: if_splits)
qed (auto elim: string_less.elims)

lemma string_less_total: "string_less a b \<or> a = b \<or> string_less b a"
  by (induction a b rule: string_less.induct) auto

lemma string_less_asym: "string_less a b \<Longrightarrow> \<not> string_less b a"
  using string_less_trans [of a b a] by auto

lemma map_of_insert [simp]: "smap_ok m \<Longrightarrow> map_of (smap_insert k v m) k' = (if k' = k then Some v else map_of m k')"
  by (induction k v m rule: smap_insert.induct) (auto simp: smap_ok_def)

lemma map_of_erase [simp]: "map_of (smap_erase k m) k' = (if k' = k then None else map_of m k')"
  by (induction m) (auto simp: smap_erase_def)

lemma keys_insert: "fst ` set (smap_insert k v m) = insert k (fst ` set m)"
  by (induction k v m rule: smap_insert.induct) auto

lemma smap_ok_insert [simp]: "smap_ok m \<Longrightarrow> smap_ok (smap_insert k v m)"
proof (induction k v m rule: smap_insert.induct)
  case (2 k v k' v' m)
  consider "string_less k k'" | "k = k'" | "string_less k' k" "k \<noteq> k'" "\<not> string_less k k'"
    using string_less_total [of k k'] string_less_asym [of k k'] by blast
  then show ?case
  proof cases
    case 1
    then show ?thesis using 2 by (auto simp: smap_ok_def intro: string_less_trans [of k k'])
  next
    case 2
    then show ?thesis using "2.prems" by (simp add: smap_ok_def)
  next
    case 3
    then have "smap_ok (smap_insert k v m)" using 2 by (simp add: smap_ok_def)
    moreover have "\<forall>x \<in> fst ` set (smap_insert k v m). string_less k' x"
      using 2 3 unfolding keys_insert by (auto simp: smap_ok_def)
    ultimately show ?thesis using 3 by (simp add: smap_ok_def)
  qed
qed (simp add: smap_ok_def)

lemma smap_ok_erase [simp]: "smap_ok m \<Longrightarrow> smap_ok (smap_erase k m)"
  by (induction m) (auto simp: smap_ok_def smap_erase_def)

lemma smap_ok_Nil [simp]: "smap_ok []"
  by (simp add: smap_ok_def)

lemma smap_ok_distinct: "smap_ok m \<Longrightarrow> distinct (map fst m)"
  by (induction m) (auto simp: smap_ok_def)

section \<open>Registering handlers\<close>

text \<open>
  The handlers by pattern and method, each with the number of its subscription, a counter of 64 bits that no program
  exhausts.
\<close>

type_synonym request_callbacks = "(string \<times> (string \<times> nat \<times> nat) list) list"

text \<open>The pattern with its anchors.\<close>

definition anchored :: "string \<Rightarrow> string" where
  "anchored pattern =
     (let ptn = (if last pattern \<noteq> CHR ''$'' then pattern @ ''$'' else pattern)
      in if hd ptn \<noteq> CHR ''^'' then ''^'' @ ptn else ptn)"

record web_handlers =
  wh_next_subscription :: nat
  wh_request_callbacks :: request_callbacks

definition web_handlers_new :: web_handlers where
  "web_handlers_new = \<lparr>wh_next_subscription = 0, wh_request_callbacks = []\<rparr>"

definition on_request :: "string \<Rightarrow> string \<Rightarrow> nat option \<Rightarrow> web_handlers \<Rightarrow> web_handlers result" where
  "on_request pattern mtd callback w =
     srv_assert (pattern \<noteq> []) ''!pattern.empty()''
       (srv_assert (mtd \<noteq> []) ''!method.empty()''
         (Inr (let ptn = anchored pattern; cbs = wh_request_callbacks w
               in case callback of
                    Some cb \<Rightarrow>
                      (let n = wh_next_subscription w + 1; ms = smap_at [] ptn cbs
                       in w\<lparr>wh_next_subscription := n,
                           wh_request_callbacks :=
                             smap_insert ptn (if map_of ms mtd = None then smap_insert mtd (n, cb) ms else ms) cbs\<rparr>)
                  | None \<Rightarrow>
                      (case map_of cbs ptn of
                         None \<Rightarrow> w
                       | Some ms \<Rightarrow>
                           (let ms = smap_erase mtd ms
                            in w\<lparr>wh_request_callbacks :=
                                   if ms = [] then smap_erase ptn cbs else smap_insert ptn ms cbs\<rparr>)))))"

text \<open>The two shorter forms: without a method, and without a pattern.\<close>

definition on_request_post :: "string \<Rightarrow> nat option \<Rightarrow> web_handlers \<Rightarrow> web_handlers result" where
  "on_request_post pattern callback w = on_request pattern (method_to_string POST) callback w"

definition on_request_any :: "nat option \<Rightarrow> web_handlers \<Rightarrow> web_handlers result" where
  "on_request_any callback w = on_request ''/'' (method_to_string POST) callback w"

text \<open>What is registered, and its specification: the first callback stays until it is removed.\<close>

definition entry :: "request_callbacks \<Rightarrow> string \<times> string \<Rightarrow> (nat \<times> nat) option" where
  "entry cbs k = map_of (smap_at [] (fst k) cbs) (snd k)"

definition registered :: "request_callbacks \<Rightarrow> string \<times> string \<Rightarrow> nat option" where
  "registered cbs k = map_option snd (entry cbs k)"

definition register :: "string \<times> string \<Rightarrow> nat option \<Rightarrow> (string \<times> string \<Rightarrow> nat option) \<Rightarrow> (string \<times> string \<Rightarrow> nat option)" where
  "register k callback r = (if callback = None \<or> r k = None then r(k := callback) else r)"

definition callbacks_ok :: "request_callbacks \<Rightarrow> bool" where
  "callbacks_ok cbs = (smap_ok cbs \<and> list_all (\<lambda>e. smap_ok (snd e) \<and> snd e \<noteq> []) cbs)"

lemma smap_insert_all: "list_all P m \<Longrightarrow> P (k, v) \<Longrightarrow> list_all P (smap_insert k v m)"
  by (induction k v m rule: smap_insert.induct) auto

lemma smap_insert_not_Nil [simp]: "smap_insert k v m \<noteq> []"
  by (induction k v m rule: smap_insert.induct) auto

lemma callbacks_ok_insert: "callbacks_ok cbs \<Longrightarrow> smap_ok ms \<Longrightarrow> ms \<noteq> [] \<Longrightarrow> callbacks_ok (smap_insert k ms cbs)"
  by (simp add: callbacks_ok_def smap_insert_all)

lemma callbacks_ok_erase: "callbacks_ok cbs \<Longrightarrow> callbacks_ok (smap_erase k cbs)"
  by (auto simp: callbacks_ok_def smap_erase_def[of k cbs] list_all_iff simp del: smap_ok_erase)
    (use smap_ok_erase [of cbs k] in \<open>simp add: smap_erase_def\<close>)

lemma callbacks_ok_at: "callbacks_ok cbs \<Longrightarrow> smap_ok (smap_at [] k cbs)"
  by (force simp: smap_at_def callbacks_ok_def list_all_iff dest: map_of_SomeD split: option.split)

lemma on_request_ok:
  assumes "callbacks_ok (wh_request_callbacks w)" "on_request pattern mtd callback w = Inr w'"
  shows "callbacks_ok (wh_request_callbacks w') \<and>
    entry (wh_request_callbacks w') =
      (let k = (anchored pattern, mtd); e = entry (wh_request_callbacks w)
       in case callback of
            None \<Rightarrow> e(k := None)
          | Some cb \<Rightarrow> if e k = None then e(k \<mapsto> (wh_next_subscription w', cb)) else e) \<and>
    wh_next_subscription w \<le> wh_next_subscription w' \<and>
    (callback \<noteq> None \<longrightarrow> wh_next_subscription w < wh_next_subscription w')"
proof -
  let ?p = "anchored pattern" and ?c = "wh_request_callbacks w"
  have ok: "smap_ok ?c" using assms(1) by (simp add: callbacks_ok_def)
  show ?thesis
  proof (cases callback)
    case None
    show ?thesis
    proof (cases "map_of ?c ?p")
      case None': None
      with assms None show ?thesis by (auto simp: on_request_def Let_def entry_def smap_at_def)
    next
      case (Some l)
      have w': "wh_request_callbacks w' = (if smap_erase mtd l = [] then smap_erase ?p ?c
          else smap_insert ?p (smap_erase mtd l) ?c)"
        using assms(2) None Some by (auto simp: on_request_def Let_def)
      have n: "wh_next_subscription w' = wh_next_subscription w"
        using assms(2) None Some by (auto simp: on_request_def Let_def)
      have m: "map_of l mtd' = None" if "smap_erase mtd l = []" "mtd' \<noteq> mtd" for mtd'
        using map_of_erase [of mtd l mtd'] that by simp
      have "smap_ok l" using callbacks_ok_at [OF assms(1), of ?p] Some by (simp add: smap_at_def)
      then have "callbacks_ok (wh_request_callbacks w')"
        using assms(1) by (simp add: w' callbacks_ok_insert callbacks_ok_erase)
      then show ?thesis using ok Some None m
        by (auto simp: w' n entry_def smap_at_def fun_eq_iff)
    qed
  next
    case (Some cb)
    let ?ms = "smap_at [] ?p ?c" and ?n = "wh_next_subscription w + 1"
    let ?ms' = "if map_of ?ms mtd = None then smap_insert mtd (?n, cb) ?ms else ?ms"
    have w': "wh_request_callbacks w' = smap_insert ?p ?ms' ?c"
      using assms(2) Some by (auto simp: on_request_def Let_def)
    have n: "wh_next_subscription w' = ?n" using assms(2) Some by (auto simp: on_request_def Let_def)
    have ms: "smap_ok ?ms" by (rule callbacks_ok_at [OF assms(1)])
    then have "smap_ok ?ms'" "?ms' \<noteq> []" by auto
    then have "callbacks_ok (wh_request_callbacks w')" using assms(1) unfolding w' by (intro callbacks_ok_insert)
    then show ?thesis using ok ms Some
      by (auto simp: w' n entry_def smap_at_def fun_eq_iff)
  qed
qed

section \<open>The handlers in the server\<close>

text \<open>
  \<open>set_request_handler\<close>: every registered callback under the number of its subscription, and a resource of the server
  that calls it. The constructor of a regular expression throws when it does not compile, which \<open>start\<close> reports.
\<close>

record web_resources =
  wr_request_callbacks :: "(nat \<times> nat) list"
  wr_resource :: "(string \<times> (string \<times> nat) list) list"

definition add_handler :: "string \<Rightarrow> string \<times> nat \<times> nat \<Rightarrow> web_resources \<Rightarrow> web_resources" where
  "add_handler pattern h r =
     (let (mtd, subscription_id, cb) = h
      in r\<lparr>wr_request_callbacks := wr_request_callbacks r @ [(subscription_id, cb)],
           wr_resource := smap_insert pattern (smap_insert mtd subscription_id (smap_at [] pattern (wr_resource r)))
                            (wr_resource r)\<rparr>)"

fun add_pattern :: "(string \<Rightarrow> bool) \<Rightarrow> string \<times> (string \<times> nat \<times> nat) list \<Rightarrow> web_resources result \<Rightarrow> web_resources result" where
  "add_pattern regex_ok (pattern, hs) (Inl e) = Inl e"
| "add_pattern regex_ok (pattern, hs) (Inr r) =
     (if regex_ok pattern \<or> hs = [] then Inr (fold (add_handler pattern) hs r) else Inl (Failure ''regex_error''))"

definition set_request_handler :: "(string \<Rightarrow> bool) \<Rightarrow> request_callbacks \<Rightarrow> web_resources result" where
  "set_request_handler regex_ok cbs =
     fold (add_pattern regex_ok) cbs (Inr \<lparr>wr_request_callbacks = [], wr_resource = []\<rparr>)"

definition on_request_impl :: "nat \<Rightarrow> web_resources \<Rightarrow> nat option" where
  "on_request_impl subscription_id r = map_of (wr_request_callbacks r) subscription_id"

text \<open>The callback that a request reaches, if any.\<close>

definition dispatch :: "(string \<Rightarrow> string \<Rightarrow> bool) \<Rightarrow> web_resources \<Rightarrow> request_fields \<Rightarrow> nat option" where
  "dispatch regex_match r f =
     (case find_resource regex_match \<lparr>rs_resource = wr_resource r, rs_default = [], rs_has_upgrade = False\<rparr> f of
        Route_match rx h \<Rightarrow> on_request_impl h r
      | _ \<Rightarrow> None)"

lemma smap_insert_last: "\<forall>x \<in> fst ` set m. string_less x k \<Longrightarrow> smap_insert k v m = m @ [(k, v)]"
  by (induction k v m rule: smap_insert.induct) (auto dest: string_less_asym)

lemma smap_insert_same: "\<forall>x \<in> fst ` set m. string_less x k \<Longrightarrow> smap_insert k v (m @ [(k, w)]) = m @ [(k, v)]"
  by (induction k v m rule: smap_insert.induct) (auto dest: string_less_asym)

lemma smap_ok_append: "smap_ok (a @ b) \<Longrightarrow> x \<in> fst ` set a \<Longrightarrow> y \<in> fst ` set b \<Longrightarrow> string_less x y"
  by (auto simp: smap_ok_def sorted_wrt_append)

definition handler_ids :: "(string \<times> nat \<times> nat) list \<Rightarrow> (nat \<times> nat) list" where
  "handler_ids hs = map snd hs"

definition handler_resource :: "(string \<times> nat \<times> nat) list \<Rightarrow> (string \<times> nat) list" where
  "handler_resource hs = map (\<lambda>h. (fst h, fst (snd h))) hs"

lemma handler_resource_keys [simp]: "fst ` set (handler_resource hs) = fst ` set hs"
  by (force simp: handler_resource_def)

lemma smap_at_last:
  assumes "p \<notin> fst ` set m"
  shows "smap_at d p (m @ [(p, v)]) = v" "smap_at d p m = d"
proof -
  have "map_of m p = None" using assms by (simp add: map_of_eq_None_iff)
  then show "smap_at d p (m @ [(p, v)]) = v" "smap_at d p m = d" by (simp_all add: smap_at_def map_add_def)
qed

lemma add_handlers_more:
  assumes "\<forall>x \<in> fst ` set m. string_less x p" "smap_ok (ds @ hs)" "wr_resource r = m @ [(p, handler_resource ds)]"
  shows "fold (add_handler p) hs r =
    \<lparr>wr_request_callbacks = wr_request_callbacks r @ handler_ids hs, wr_resource = m @ [(p, handler_resource (ds @ hs))]\<rparr>"
  using assms(2,3)
proof (induction hs arbitrary: ds r)
  case (Cons h hs)
  obtain mtd i cb where h: "h = (mtd, i, cb)" by (cases h)
  have p: "p \<notin> fst ` set m" using assms(1) by auto
  have "\<forall>x \<in> fst ` set (handler_resource ds). string_less x mtd"
    using smap_ok_append [OF Cons.prems(1)] by (auto simp: h)
  then have "smap_insert mtd i (handler_resource ds) = handler_resource (ds @ [h])"
    by (simp add: smap_insert_last) (simp add: handler_resource_def h)
  then have r: "wr_resource (add_handler p h r) = m @ [(p, handler_resource (ds @ [h]))]"
    "wr_request_callbacks (add_handler p h r) = wr_request_callbacks r @ [snd h]"
    using Cons.prems(2) p assms(1) by (simp_all add: add_handler_def h smap_at_last smap_insert_same)
  show ?case using Cons.IH [OF _ r(1)] Cons.prems(1) r(2) by (simp add: handler_ids_def)
qed (simp add: handler_ids_def)

lemma add_handlers:
  assumes "\<forall>x \<in> fst ` set (wr_resource r). string_less x p" "smap_ok hs" "hs \<noteq> []"
  shows "fold (add_handler p) hs r =
    \<lparr>wr_request_callbacks = wr_request_callbacks r @ handler_ids hs,
     wr_resource = wr_resource r @ [(p, handler_resource hs)]\<rparr>"
proof -
  obtain mtd i cb hs' where hs: "hs = (mtd, i, cb) # hs'" using assms(3) by (cases hs) auto
  have p: "p \<notin> fst ` set (wr_resource r)" using assms(1) by auto
  let ?r = "add_handler p (mtd, i, cb) r"
  have r: "wr_resource ?r = wr_resource r @ [(p, handler_resource [(mtd, i, cb)])]"
    "wr_request_callbacks ?r = wr_request_callbacks r @ [(i, cb)]"
    using p assms(1) by (simp_all add: add_handler_def smap_at_last smap_insert_last handler_resource_def)
  show ?thesis using add_handlers_more [OF assms(1) _ r(1), of hs'] assms(2) r(2) by (simp add: hs handler_ids_def)
qed

lemma set_request_handler_fold:
  assumes "smap_ok cbs" "list_all (\<lambda>e. smap_ok (snd e) \<and> snd e \<noteq> []) cbs"
    and "\<forall>x \<in> fst ` set (wr_resource r). \<forall>y \<in> fst ` set cbs. string_less x y"
    and "fold (add_pattern regex_ok) cbs (Inr r) = Inr r'"
  shows "r' = \<lparr>wr_request_callbacks = wr_request_callbacks r @ concat (map (\<lambda>e. handler_ids (snd e)) cbs),
               wr_resource = wr_resource r @ map (\<lambda>e. (fst e, handler_resource (snd e))) cbs\<rparr>"
  using assms
proof (induction cbs arbitrary: r)
  case (Cons c cbs)
  obtain p hs where c: "c = (p, hs)" by (cases c)
  have stuck: "fold (add_pattern regex_ok) cs (Inl e) = Inl e" for cs e
    by (induction cs) auto
  have ok: "regex_ok p" "smap_ok hs" "hs \<noteq> []"
    using Cons.prems(2,4) by (auto simp: c stuck split: if_splits)
  have eq: "fold (add_handler p) hs r = \<lparr>wr_request_callbacks = wr_request_callbacks r @ handler_ids hs,
     wr_resource = wr_resource r @ [(p, handler_resource hs)]\<rparr>"
    using Cons.prems(3) ok by (intro add_handlers) (auto simp: c)
  let ?r = "fold (add_handler p) hs r"
  have "\<forall>x \<in> fst ` set (wr_resource ?r). \<forall>y \<in> fst ` set cbs. string_less x y"
    using Cons.prems(1,3) unfolding eq by (auto simp: c smap_ok_def)
  moreover have "fold (add_pattern regex_ok) cbs (Inr ?r) = Inr r'" using Cons.prems(4) ok by (simp add: c)
  ultimately have "r' = \<lparr>wr_request_callbacks = wr_request_callbacks ?r @ concat (map (\<lambda>e. handler_ids (snd e)) cbs),
               wr_resource = wr_resource ?r @ map (\<lambda>e. (fst e, handler_resource (snd e))) cbs\<rparr>"
    using Cons.prems(1,2) by (intro Cons.IH) (auto simp: smap_ok_def)
  then show ?case unfolding eq by (simp add: c)
qed simp

lemma set_request_handler_eq:
  assumes "callbacks_ok cbs" "set_request_handler regex_ok cbs = Inr r"
  shows "r = \<lparr>wr_request_callbacks = concat (map (\<lambda>e. handler_ids (snd e)) cbs),
              wr_resource = map (\<lambda>e. (fst e, handler_resource (snd e))) cbs\<rparr>"
  using set_request_handler_fold [of cbs "\<lparr>wr_request_callbacks = [], wr_resource = []\<rparr>" regex_ok r] assms
  by (simp add: callbacks_ok_def set_request_handler_def)

section \<open>The callback that a request reaches\<close>

text \<open>No two entries have the same number.\<close>

definition ids_ok :: "web_handlers \<Rightarrow> bool" where
  "ids_ok w \<longleftrightarrow>
     callbacks_ok (wh_request_callbacks w) \<and>
     (\<forall>k i c. entry (wh_request_callbacks w) k = Some (i, c) \<longrightarrow> i \<le> wh_next_subscription w) \<and>
     (\<forall>k k' i c c'. entry (wh_request_callbacks w) k = Some (i, c) \<and> entry (wh_request_callbacks w) k' = Some (i, c') \<longrightarrow> k = k')"

lemma on_request_ids:
  assumes "ids_ok w" "on_request pattern mtd callback w = Inr w'"
  shows "ids_ok w'"
    and "registered (wh_request_callbacks w') = register (anchored pattern, mtd) callback (registered (wh_request_callbacks w))"
proof -
  note r = on_request_ok [OF _ assms(2), unfolded Let_def]
  have ok: "callbacks_ok (wh_request_callbacks w)" using assms(1) by (simp add: ids_ok_def)
  let ?k = "(anchored pattern, mtd)" and ?e = "entry (wh_request_callbacks w)"
  have le: "i \<le> wh_next_subscription w" if "?e k = Some (i, c)" for k i c
    using assms(1) that unfolding ids_ok_def by blast
  have inj: "k = k'" if "?e k = Some (i, c)" "?e k' = Some (i, c')" for k k' i c c'
    using assms(1) that unfolding ids_ok_def by blast
  have e: "entry (wh_request_callbacks w') = (case callback of None \<Rightarrow> ?e(?k := None)
      | Some cb \<Rightarrow> if ?e ?k = None then ?e(?k \<mapsto> (wh_next_subscription w', cb)) else ?e)"
    and n: "wh_next_subscription w \<le> wh_next_subscription w'"
      "callback \<noteq> None \<Longrightarrow> wh_next_subscription w < wh_next_subscription w'"
    using r [OF ok] by simp_all
  show "ids_ok w'"
    unfolding ids_ok_def e
  proof (intro conjI allI impI)
    show "callbacks_ok (wh_request_callbacks w')" using r [OF ok] by simp
  next
    fix k i c
    assume "(case callback of None \<Rightarrow> ?e(?k := None)
      | Some cb \<Rightarrow> if ?e ?k = None then ?e(?k \<mapsto> (wh_next_subscription w', cb)) else ?e) k = Some (i, c)"
    then show "i \<le> wh_next_subscription w'"
      using n(1) by (auto split: option.splits if_splits dest!: le)
  next
    fix k k' i c c'
    assume "(case callback of None \<Rightarrow> ?e(?k := None)
      | Some cb \<Rightarrow> if ?e ?k = None then ?e(?k \<mapsto> (wh_next_subscription w', cb)) else ?e) k = Some (i, c) \<and>
      (case callback of None \<Rightarrow> ?e(?k := None)
      | Some cb \<Rightarrow> if ?e ?k = None then ?e(?k \<mapsto> (wh_next_subscription w', cb)) else ?e) k' = Some (i, c')"
    then show "k = k'" using n(2)
      by (cases callback) (auto split: if_splits dest: inj le)
  qed
  show "registered (wh_request_callbacks w') = register ?k callback (registered (wh_request_callbacks w))"
    by (cases callback) (auto simp: registered_def register_def e fun_eq_iff)
qed

lemma find_sorted:
  "smap_ok m \<Longrightarrow>
   find P m = Some e \<longleftrightarrow> e \<in> set m \<and> P e \<and> (\<forall>e' \<in> set m. string_less (fst e') (fst e) \<longrightarrow> \<not> P e')"
proof (induction m)
  case (Cons a m)
  then have lt: "\<forall>x \<in> set m. string_less (fst a) (fst x)" and IH: "smap_ok m" by (auto simp: smap_ok_def)
  show ?case using Cons.IH [OF IH] lt by (auto dest: string_less_asym)
qed simp

lemma smap_entry: "smap_ok m \<Longrightarrow> map_of m k = Some v \<longleftrightarrow> (k, v) \<in> set m"
  using smap_ok_distinct by (auto intro: map_of_is_SomeI dest: map_of_SomeD)

lemma find_regex_find:
  "find_regex rm mtd path (map (\<lambda>e. (fst e, handler_resource (snd e))) cbs) =
   map_option (\<lambda>e. (fst e, fst (the (map_of (snd e) mtd))))
     (find (\<lambda>e. map_of (snd e) mtd \<noteq> None \<and> rm (fst e) path) cbs)"
proof (induction cbs)
  case (Cons c cbs)
  have "map_of (handler_resource hs) mtd = map_option fst (map_of hs mtd)" for hs
    by (induction hs) (auto simp: handler_resource_def)
  then show ?case using Cons by (auto split: option.split)
qed simp

text \<open>The number in a resource leads back to the callback of its entry.\<close>

lemma subscription_found:
  assumes "ids_ok w" "(p, hs) \<in> set (wh_request_callbacks w)" "map_of hs mtd = Some (i, cb)"
  shows "map_of (concat (map (\<lambda>e. handler_ids (snd e)) (wh_request_callbacks w))) i = Some cb"
proof -
  let ?c = "wh_request_callbacks w"
  have ok: "callbacks_ok ?c" using assms(1) by (simp add: ids_ok_def)
  then have sm: "smap_ok ?c" "\<And>p hs. (p, hs) \<in> set ?c \<Longrightarrow> smap_ok hs" by (auto simp: callbacks_ok_def list_all_iff)
  have e: "entry ?c (p, mtd) = Some x" if "(p, hs) \<in> set ?c" "map_of hs mtd = Some x" for p hs mtd x
    using that unfolding smap_entry [OF sm(1), symmetric] by (simp add: entry_def smap_at_def)
  have inj: "k = k'" if "entry ?c k = Some (i, c)" "entry ?c k' = Some (i, c')" for k k' c c'
    using assms(1) that unfolding ids_ok_def by blast
  have only: "c = cb" if m: "(i, c) \<in> set (concat (map (\<lambda>e. handler_ids (snd e)) ?c))" for c
  proof -
    from m obtain p' hs' mtd' where h: "(p', hs') \<in> set ?c" "(mtd', i, c) \<in> set hs'"
      by (force simp: handler_ids_def)
    then have "entry ?c (p', mtd') = Some (i, c)" using e smap_entry [OF sm(2) [OF h(1)]] by blast
    with inj [OF this] e [OF assms(2,3)] show ?thesis by auto
  qed
  have "(i, cb) \<in> set (concat (map (\<lambda>e. handler_ids (snd e)) ?c))"
    using assms(2) map_of_SomeD [OF assms(3)] by (force simp: handler_ids_def)
  from weak_map_of_SomeI [OF this] obtain c where "map_of (concat (map (\<lambda>e. handler_ids (snd e)) ?c)) i = Some c" by blast
  with only [OF map_of_SomeD [OF this]] show ?thesis by simp
qed

lemma dispatch_registered:
  assumes "ids_ok w" "set_request_handler regex_ok (wh_request_callbacks w) = Inr r"
  shows "dispatch rm r f = Some cb \<longleftrightarrow>
    (\<exists>p. registered (wh_request_callbacks w) (p, rf_method f) = Some cb \<and> rm p (rf_path f) \<and>
       (\<forall>p'. string_less p' p \<longrightarrow> registered (wh_request_callbacks w) (p', rf_method f) \<noteq> None \<longrightarrow> \<not> rm p' (rf_path f)))"
proof -
  let ?c = "wh_request_callbacks w" and ?m = "rf_method f"
  let ?P = "\<lambda>e. map_of (snd e) ?m \<noteq> None \<and> rm (fst e) (rf_path f)"
  have ok: "callbacks_ok ?c" and sm: "smap_ok ?c" using assms(1) by (simp_all add: ids_ok_def callbacks_ok_def)
  have reg: "registered ?c (p, ?m) = Some c \<longleftrightarrow> (\<exists>hs i. (p, hs) \<in> set ?c \<and> map_of hs ?m = Some (i, c))" for p c
    unfolding smap_entry [OF sm, symmetric] registered_def entry_def smap_at_def by (auto split: option.splits)
  have reg': "registered ?c (p, ?m) \<noteq> None \<longleftrightarrow> (\<exists>hs. (p, hs) \<in> set ?c \<and> map_of hs ?m \<noteq> None)" for p
    using reg [of p] by (metis not_None_eq surj_pair)
  have d: "dispatch rm r f = (case find ?P ?c of None \<Rightarrow> None | Some e \<Rightarrow> map_option snd (map_of (snd e) ?m))"
  proof (cases "find ?P ?c")
    case None
    then show ?thesis
      by (simp add: dispatch_def find_resource_def set_request_handler_eq [OF ok assms(2)] find_regex_find)
  next
    case (Some e)
    then obtain i c where e: "e \<in> set ?c" "map_of (snd e) ?m = Some (i, c)"
      using find_sorted [OF sm, of ?P e] by auto
    then have "map_of (concat (map (\<lambda>e. handler_ids (snd e)) ?c)) i = Some c"
      using subscription_found [OF assms(1), of "fst e" "snd e"] by simp
    with Some e show ?thesis
      by (simp add: dispatch_def find_resource_def set_request_handler_eq [OF ok assms(2)] find_regex_find on_request_impl_def)
  qed
  have "dispatch rm r f = Some cb \<longleftrightarrow> (\<exists>e. find ?P ?c = Some e \<and> map_option snd (map_of (snd e) ?m) = Some cb)"
    unfolding d by (simp split: option.split)
  also have "\<dots> \<longleftrightarrow> (\<exists>p hs. (p, hs) \<in> set ?c \<and> ?P (p, hs) \<and> (\<forall>e' \<in> set ?c. string_less (fst e') p \<longrightarrow> \<not> ?P e') \<and>
      map_option snd (map_of hs ?m) = Some cb)"
    unfolding find_sorted [OF sm] by auto
  also have "\<dots> \<longleftrightarrow> (\<exists>p. registered ?c (p, ?m) = Some cb \<and> rm p (rf_path f) \<and>
       (\<forall>p'. string_less p' p \<longrightarrow> registered ?c (p', ?m) \<noteq> None \<longrightarrow> \<not> rm p' (rf_path f)))"
    unfolding reg reg' by (auto; force)
  finally show ?thesis .
qed

text \<open>A sequence of registrations, and what they should leave.\<close>

fun on_requests :: "(string \<times> string \<times> nat option) list \<Rightarrow> web_handlers \<Rightarrow> web_handlers result" where
  "on_requests [] w = Inr w"
| "on_requests ((p, m, cb) # rs) w = rbind (on_request p m cb w) (on_requests rs)"

definition expected_handlers :: "(string \<times> string \<times> nat option) list \<Rightarrow> string \<times> string \<Rightarrow> nat option" where
  "expected_handlers rs = fold (\<lambda>(p, m, cb). register (anchored p, m) cb) rs (\<lambda>k. None)"

lemma on_requests_ok:
  "ids_ok w \<Longrightarrow> on_requests rs w = Inr w' \<Longrightarrow>
   ids_ok w' \<and> registered (wh_request_callbacks w') =
     fold (\<lambda>(p, m, cb). register (anchored p, m) cb) rs (registered (wh_request_callbacks w))"
proof (induction rs arbitrary: w)
  case (Cons x rs)
  obtain p m cb where x: "x = (p, m, cb)" by (cases x)
  then obtain w1 where w1: "on_request p m cb w = Inr w1" "on_requests rs w1 = Inr w'" using Cons.prems by auto
  from Cons.IH [OF on_request_ids(1) [OF Cons.prems(1) w1(1)] w1(2)] on_request_ids(2) [OF Cons.prems(1) w1(1)]
  show ?case by (simp add: x)
qed simp

lemma dispatch_expected:
  assumes "on_requests rs web_handlers_new = Inr w" "set_request_handler regex_ok (wh_request_callbacks w) = Inr r"
  shows "dispatch rm r f = Some cb \<longleftrightarrow>
    (\<exists>p. expected_handlers rs (p, rf_method f) = Some cb \<and> rm p (rf_path f) \<and>
       (\<forall>p'. string_less p' p \<longrightarrow> expected_handlers rs (p', rf_method f) \<noteq> None \<longrightarrow> \<not> rm p' (rf_path f)))"
proof -
  have "ids_ok web_handlers_new"
    by (simp add: ids_ok_def web_handlers_new_def callbacks_ok_def entry_def smap_at_def)
  moreover have none: "registered [] = (\<lambda>k. None)" by (simp add: fun_eq_iff registered_def entry_def smap_at_def)
  ultimately have w: "ids_ok w" "registered (wh_request_callbacks w) = expected_handlers rs"
    using on_requests_ok [OF _ assms(1)] by (simp_all add: expected_handlers_def none web_handlers_new_def)
  show ?thesis using dispatch_registered [OF w(1) assms(2)] unfolding w(2) .
qed

text \<open>C12: A request reaches the callback that was registered first, and not removed since, for its method and for the
  first pattern, in the order of the patterns with their anchors, that matches its path; and no callback when there
  is none.\<close>
theorem requests_reach_registered:
  assumes "on_requests rs web_handlers_new = Inr w" "set_request_handler regex_ok (wh_request_callbacks w) = Inr r"
  shows "dispatch rm r f = Some cb \<longleftrightarrow>
    (\<exists>p. expected_handlers rs (p, rf_method f) = Some cb \<and> rm p (rf_path f) \<and>
       (\<forall>p'. string_less p' p \<longrightarrow> expected_handlers rs (p', rf_method f) \<noteq> None \<longrightarrow> \<not> rm p' (rf_path f)))"
  using assms by (rule dispatch_expected)

theorem requests_reach_registered_witness:
  "\<exists>w r. on_requests [(''/a'', ''POST'', Some 1), (''/.*'', ''POST'', Some 2), (''/a'', ''POST'', Some 3)] web_handlers_new = Inr w \<and>
     set_request_handler (\<lambda>p. True) (wh_request_callbacks w) = Inr r \<and>
     dispatch (\<lambda>rx p. rx = ''^/.*$'' \<or> rx = ''^'' @ p @ ''$'') r example_request = Some 2"
proof -
  let ?rs = "[(''/a'', ''POST'', Some 1), (''/.*'', ''POST'', Some 2), (''/a'', ''POST'', Some 3)]"
  let ?rm = "\<lambda>rx p. rx = ''^/.*$'' \<or> rx = ''^'' @ p @ ''$''"
  obtain w r where w: "on_requests ?rs web_handlers_new = Inr w"
      "set_request_handler (\<lambda>p. True) (wh_request_callbacks w) = Inr r"
    by (simp add: on_request_def anchored_def Let_def web_handlers_new_def smap_at_def set_request_handler_def)
  have e: "expected_handlers ?rs =
      (\<lambda>k. None)((''^/a$'', ''POST'') \<mapsto> 1, (''^/.*$'', ''POST'') \<mapsto> 2)"
    by (simp add: expected_handlers_def anchored_def Let_def register_def)
  have "dispatch ?rm r example_request = Some 2"
    unfolding requests_reach_registered [OF w] e
    by (rule exI [of _ "''^/.*$''"]) (auto simp: example_request_def dest: string_less_asym)
  with w show ?thesis by blast
qed

section \<open>Starting and stopping\<close>

text \<open>
  The implementation: its handlers, whether its pool has been made and runs, and whether it accepts connections. The
  events are what the subscribers are told, and the errors that \<open>start\<close> only logs.
\<close>

record web_impl =
  wi_resources :: "web_resources option"
  wi_workers :: bool
  wi_running :: bool
  wi_accepting :: bool

datatype web_event =
    Web_started nat
  | Web_failed nat string
  | Web_error_logged srv_error

record web_server =
  ws_handlers :: web_handlers
  ws_impl :: "web_impl option"
  ws_start :: "nat list"
  ws_fail :: "nat list"
  ws_log :: "web_event list"

definition web_server_new :: web_server where
  "web_server_new = \<lparr>ws_handlers = web_handlers_new, ws_impl = None, ws_start = [], ws_fail = [], ws_log = []\<rparr>"

definition web_is_running :: "web_server \<Rightarrow> bool" where
  "web_is_running s = (case ws_impl s of None \<Rightarrow> False | Some i \<Rightarrow> wi_running i)"

definition web_impl_new :: web_impl where
  "web_impl_new = \<lparr>wi_resources = None, wi_workers = False, wi_running = False, wi_accepting = False\<rparr>"

text \<open>
  \<open>server_base_impl::start\<close>, which answers whether the pool was started; \<open>pool_error\<close> says that its creation or its
  start threw.
\<close>

definition base_start :: "bool \<Rightarrow> web_impl \<Rightarrow> bool \<times> web_impl" where
  "base_start pool_error i =
     (if wi_running i then (False, i)
      else if pool_error then (False, i\<lparr>wi_workers := True\<rparr>)
      else (True, i\<lparr>wi_workers := True, wi_running := True\<rparr>))"

definition web_impl_start :: "(string \<Rightarrow> bool) \<Rightarrow> bool \<Rightarrow> request_callbacks \<Rightarrow> web_impl \<Rightarrow> bool result \<times> web_impl" where
  "web_impl_start regex_ok pool_error cbs i =
     (case set_request_handler regex_ok cbs of
        Inl e \<Rightarrow> (Inl e, i)
      | Inr r \<Rightarrow> (let (ok, i) = base_start pool_error (i\<lparr>wi_resources := Some r\<rparr>) in (Inr ok, i)))"

text \<open>\<open>start_impl\<close>, which catches whatever is thrown.\<close>

definition web_log :: "web_event list \<Rightarrow> web_server \<Rightarrow> web_server" where
  "web_log es s = s\<lparr>ws_log := ws_log s @ es\<rparr>"

definition web_start :: "bool \<Rightarrow> (string \<Rightarrow> bool) \<Rightarrow> bool \<Rightarrow> web_server \<Rightarrow> web_server" where
  "web_start valid regex_ok pool_error s =
     (let cbs = wh_request_callbacks (ws_handlers s)
      in if web_is_running s then web_log [Web_error_logged (Logic_error ''!is_running()'')] s
         else if cbs = [] then web_log [Web_error_logged (Logic_error ''Request handler required'')] s
         else if \<not> valid then web_log [Web_error_logged (Logic_error ''config.valid()'')] s
         else (let (r, i) = web_impl_start regex_ok pool_error cbs web_impl_new; s = s\<lparr>ws_impl := Some i\<rparr>
               in case r of
                    Inl e \<Rightarrow> web_log [Web_error_logged e] s
                  | Inr ok \<Rightarrow>
                      if ok then s else web_log [Web_error_logged (Logic_error ''_impl->start'')] s))"

text \<open>
  The handler of the pool's start: the error of the address, of the acceptor or of its binding, if any, and what the
  subscribers of the start throw, if anything.
\<close>

definition web_pool_started :: "string option \<Rightarrow> string option \<Rightarrow> web_server \<Rightarrow> web_server" where
  "web_pool_started listen_error callback_error s =
     (case listen_error of
        Some e \<Rightarrow> web_log (map (\<lambda>cb. Web_failed cb e) (ws_fail s)) s
      | None \<Rightarrow>
          (let s = web_log (map Web_started (ws_start s))
                     (s\<lparr>ws_impl := map_option (\<lambda>i. i\<lparr>wi_accepting := True\<rparr>) (ws_impl s)\<rparr>)
           in case callback_error of None \<Rightarrow> s | Some e \<Rightarrow> web_log (map (\<lambda>cb. Web_failed cb e) (ws_fail s)) s))"

text \<open>A wait for the stop never returns while the server runs, which is none.\<close>

definition web_wait :: "bool \<Rightarrow> web_server \<Rightarrow> bool option" where
  "web_wait wait_until_stop s =
     (if \<not> web_is_running s then Some False else if wait_until_stop then None else Some True)"

text \<open>\<open>stop\<close>, called by a thread of the pool that has announced its start, or by another.\<close>

definition web_stop :: "bool \<Rightarrow> web_server \<Rightarrow> web_server result" where
  "web_stop in_pool s =
     (case ws_impl s of
        None \<Rightarrow> Inr s
      | Some i \<Rightarrow>
          if \<not> wi_running i then Inr s
          else srv_assert (\<not> in_pool) ''Can't initiate thread stop in the same thread. It is the way to deadlock''
                 (Inr (s\<lparr>ws_impl := Some (i\<lparr>wi_running := False, wi_accepting := False\<rparr>)\<rparr>)))"

definition web_on_start :: "nat \<Rightarrow> web_server \<Rightarrow> web_server" where
  "web_on_start cb s = s\<lparr>ws_start := ws_start s @ [cb]\<rparr>"

definition web_on_fail :: "nat \<Rightarrow> web_server \<Rightarrow> web_server" where
  "web_on_fail cb s = s\<lparr>ws_fail := ws_fail s @ [cb]\<rparr>"

definition web_on_request :: "string \<Rightarrow> string \<Rightarrow> nat option \<Rightarrow> web_server \<Rightarrow> web_server result" where
  "web_on_request pattern mtd callback s =
     map_sum id (\<lambda>h. s\<lparr>ws_handlers := h\<rparr>) (on_request pattern mtd callback (ws_handlers s))"

fun told :: "web_event \<Rightarrow> bool" where
  "told (Web_error_logged e) = False"
| "told _ = True"

text \<open>When \<open>start\<close> has started the server.\<close>

definition starts :: "bool \<Rightarrow> (string \<Rightarrow> bool) \<Rightarrow> bool \<Rightarrow> web_server \<Rightarrow> bool" where
  "starts valid regex_ok pool_error s \<longleftrightarrow>
     \<not> web_is_running s \<and> wh_request_callbacks (ws_handlers s) \<noteq> [] \<and> valid \<and> \<not> pool_error \<and>
     (\<exists>r. set_request_handler regex_ok (wh_request_callbacks (ws_handlers s)) = Inr r)"


text \<open>A server that cannot listen tells its subscribers, and still says that it runs; a wait for its stop does not end.\<close>

lemma deaf_server_runs:
  assumes "starts valid regex_ok pool_error s"
  shows "let s' = web_pool_started (Some e) cb (web_start valid regex_ok pool_error s)
    in web_is_running s' \<and> web_wait True s' = None \<and> ws_log s' = ws_log s @ map (\<lambda>c. Web_failed c e) (ws_fail s) \<and>
       map_option wi_accepting (ws_impl s') = Some False"
  using assms
  by (auto simp: starts_def web_start_def web_log_def web_impl_start_def base_start_def web_is_running_def web_impl_new_def
      web_pool_started_def web_wait_def Let_def split: option.splits)

text \<open>A stop from outside of the pool ends it, and the server can be started again.\<close>

lemma stopped_server_starts_again:
  assumes "web_stop False s = Inr s'" "wh_request_callbacks (ws_handlers s) \<noteq> []"
    and "set_request_handler regex_ok (wh_request_callbacks (ws_handlers s)) = Inr r"
  shows "\<not> web_is_running s'" "web_wait True s' = Some False" "web_is_running (web_start True regex_ok False s')"
  using assms
  by (auto simp: web_stop_def web_is_running_def web_wait_def web_start_def web_impl_start_def base_start_def
      web_impl_new_def Let_def split: option.splits if_splits)

end
