(* ===== verification/Http_Connections.thy ===== *)
theory Http_Connections
  imports Prelude
begin

text \<open>
  The connections that the HTTP server holds (src/network/web/http_server_impl.h): a set of plain pointers, under a
  mutex, to connections that their sessions own. The deleter of the owners takes the pointer out of the set before it
  frees the connection; \<open>stop\<close> closes what the set holds. A connection is an address, which can be used again after it
  was freed. The threads interleave at every access to the set.
\<close>

section \<open>The set and its users\<close>

text \<open>
  What is at an address: nothing, a connection with so many owners, one whose last owner has gone and whose deleter
  has not yet locked the mutex, and one that is out of the set and about to be freed.
\<close>

datatype conn_state = Free | Owned nat | Unowned | Erased

text \<open>The thread in \<open>stop\<close>: not there, in its loop over the set with the mutex locked, and past it.\<close>

datatype stop_pc = Stop_out | Stop_closing "nat list" | Stop_past

record registry =
  rg_state :: "nat \<Rightarrow> conn_state"
  rg_connections :: "nat list"
  rg_stop :: stop_pc
  rg_closed :: "(nat \<times> conn_state) list"

definition registry_new :: registry where
  "registry_new = \<lparr>rg_state = (\<lambda>a. Free), rg_connections = [], rg_stop = Stop_out, rg_closed = []\<rparr>"

definition mutex_free :: "registry \<Rightarrow> bool" where
  "mutex_free r = (case rg_stop r of Stop_closing todo \<Rightarrow> False | _ \<Rightarrow> True)"

definition at_address :: "nat \<Rightarrow> conn_state \<Rightarrow> registry \<Rightarrow> registry" where
  "at_address a c r = r\<lparr>rg_state := (rg_state r)(a := c)\<rparr>"

definition erase_connection :: "nat \<Rightarrow> registry \<Rightarrow> registry" where
  "erase_connection a r = r\<lparr>rg_connections := filter (\<lambda>b. b \<noteq> a) (rg_connections r)\<rparr>"

text \<open>
  The steps. A connection is made at a free address, and is put into the set before anyone else knows it; a session
  that is upgraded takes it out; \<open>stop\<close> locks, closes one after the other, and clears the set.
\<close>

datatype registry_step =
    Connection_made nat
  | Session_shares nat
  | Session_ends nat
  | Deleter_erases nat
  | Deleter_frees nat
  | Session_upgrades nat
  | Stop_locks
  | Stop_closes
  | Stop_clears

definition registry_do :: "registry_step \<Rightarrow> registry \<Rightarrow> registry option" where
  "registry_do st r =
     (case st of
        Connection_made a \<Rightarrow>
          (if rg_state r a = Free \<and> mutex_free r
           then Some (at_address a (Owned 1) (r\<lparr>rg_connections := a # rg_connections r\<rparr>)) else None)
      | Session_shares a \<Rightarrow>
          (case rg_state r a of Owned n \<Rightarrow> Some (at_address a (Owned (n + 1)) r) | _ \<Rightarrow> None)
      | Session_ends a \<Rightarrow>
          (case rg_state r a of
             Owned n \<Rightarrow> Some (at_address a (if n \<le> 1 then Unowned else Owned (n - 1)) r)
           | _ \<Rightarrow> None)
      | Deleter_erases a \<Rightarrow>
          (if rg_state r a = Unowned \<and> mutex_free r then Some (at_address a Erased (erase_connection a r)) else None)
      | Deleter_frees a \<Rightarrow> (if rg_state r a = Erased then Some (at_address a Free r) else None)
      | Session_upgrades a \<Rightarrow>
          (case rg_state r a of
             Owned n \<Rightarrow> (if mutex_free r then Some (erase_connection a r) else None)
           | _ \<Rightarrow> None)
      | Stop_locks \<Rightarrow>
          (if rg_stop r = Stop_out then Some (r\<lparr>rg_stop := Stop_closing (rg_connections r)\<rparr>) else None)
      | Stop_closes \<Rightarrow>
          (case rg_stop r of
             Stop_closing (a # todo) \<Rightarrow>
               Some (r\<lparr>rg_stop := Stop_closing todo, rg_closed := rg_closed r @ [(a, rg_state r a)]\<rparr>)
           | _ \<Rightarrow> None)
      | Stop_clears \<Rightarrow>
          (case rg_stop r of
             Stop_closing [] \<Rightarrow> Some (r\<lparr>rg_connections := [], rg_stop := Stop_past\<rparr>)
           | _ \<Rightarrow> None))"

fun registry_steps :: "registry_step list \<Rightarrow> registry \<Rightarrow> registry option" where
  "registry_steps [] r = Some r"
| "registry_steps (st # sts) r = (case registry_do st r of None \<Rightarrow> None | Some r' \<Rightarrow> registry_steps sts r')"

section \<open>What the set holds is there\<close>

definition allocated :: "conn_state \<Rightarrow> bool" where
  "allocated c = (c \<noteq> Free \<and> c \<noteq> Erased)"

definition stop_todo :: "registry \<Rightarrow> nat list" where
  "stop_todo r = (case rg_stop r of Stop_closing todo \<Rightarrow> todo | _ \<Rightarrow> [])"

definition registry_ok :: "registry \<Rightarrow> bool" where
  "registry_ok r \<longleftrightarrow>
     (\<forall>a \<in> set (rg_connections r). allocated (rg_state r a)) \<and>
     distinct (rg_connections r) \<and>
     set (stop_todo r) \<subseteq> set (rg_connections r) \<and>
     (\<forall>(a, c) \<in> set (rg_closed r). allocated c)"

lemmas registry_defs = registry_do_def at_address_def erase_connection_def mutex_free_def

lemma stop_todo_simps [simp]:
  "stop_todo (r\<lparr>rg_state := f\<rparr>) = stop_todo r" "stop_todo (r\<lparr>rg_connections := cs\<rparr>) = stop_todo r"
  "stop_todo (r\<lparr>rg_closed := cl\<rparr>) = stop_todo r" "stop_todo (r\<lparr>rg_stop := Stop_closing todo\<rparr>) = todo"
  "stop_todo (r\<lparr>rg_stop := Stop_past\<rparr>) = []"
  by (simp_all add: stop_todo_def)

lemma mutex_free_todo: "mutex_free r \<Longrightarrow> stop_todo r = []"
  by (simp add: mutex_free_def stop_todo_def split: stop_pc.splits)

lemma allocated_simps [simp]: "allocated (Owned n)" "allocated Unowned" "\<not> allocated Free" "\<not> allocated Erased"
  by (simp_all add: allocated_def)

text \<open>An address whose connection stays allocated keeps everything.\<close>

lemma at_address_ok: "registry_ok r \<Longrightarrow> allocated c \<or> a \<notin> set (rg_connections r) \<Longrightarrow> registry_ok (at_address a c r)"
  by (auto simp: registry_ok_def at_address_def)

lemma erase_ok: "registry_ok r \<Longrightarrow> mutex_free r \<Longrightarrow> registry_ok (erase_connection a r)"
  by (auto simp: registry_ok_def erase_connection_def mutex_free_todo)

lemma registry_do_ok:
  assumes ok: "registry_ok r" and st: "registry_do st r = Some r'"
  shows "registry_ok r'"
proof (cases st)
  case (Connection_made a)
  then have "a \<notin> set (rg_connections r)" "mutex_free r"
    and r': "r' = at_address a (Owned 1) (r\<lparr>rg_connections := a # rg_connections r\<rparr>)"
    using ok st by (auto simp: registry_do_def registry_ok_def split: if_splits)
  then show ?thesis using ok by (auto simp: registry_ok_def at_address_def mutex_free_todo)
next
  case (Deleter_erases a)
  then have "r' = at_address a Erased (erase_connection a r)" "mutex_free r"
    using st by (auto simp: registry_do_def split: if_splits)
  then show ?thesis using erase_ok [OF ok] by (auto intro!: at_address_ok simp: erase_connection_def)
next
  case (Deleter_frees a)
  then have "r' = at_address a Free r" "a \<notin> set (rg_connections r)"
    using ok st by (auto simp: registry_do_def registry_ok_def split: if_splits)
  then show ?thesis using ok by (simp add: at_address_ok)
next
  case Stop_locks
  then show ?thesis using ok st by (auto simp: registry_do_def registry_ok_def split: if_splits)
next
  case Stop_closes
  then obtain a todo where t: "rg_stop r = Stop_closing (a # todo)"
      and r': "r' = r\<lparr>rg_stop := Stop_closing todo, rg_closed := rg_closed r @ [(a, rg_state r a)]\<rparr>"
    using st by (auto simp: registry_do_def split: stop_pc.splits list.splits)
  then have "stop_todo r = a # todo" by (simp add: stop_todo_def)
  then show ?thesis using ok by (auto simp: r' registry_ok_def stop_todo_def)
next
  case Stop_clears
  then show ?thesis using ok st
    by (auto simp: registry_do_def registry_ok_def stop_todo_def split: stop_pc.splits list.splits)
qed (use ok st in \<open>auto simp: registry_do_def split: if_splits conn_state.splits intro!: at_address_ok erase_ok\<close>)

lemma registry_steps_ok: "registry_ok r \<Longrightarrow> registry_steps sts r = Some r' \<Longrightarrow> registry_ok r'"
  by (induction sts arbitrary: r) (auto split: option.splits intro: registry_do_ok)

lemma registry_new_ok: "registry_ok registry_new"
  by (simp add: registry_ok_def registry_new_def stop_todo_def)

text \<open>C14: The plain pointers never dangle: however connections are made, shared, given up, upgraded and freed around a
  stop, the set holds connections that have not been freed, each once, and every connection that the stop closes is
  there when it closes it.\<close>
theorem stop_closes_what_is_there:
  assumes "registry_steps sts registry_new = Some r"
  shows "(\<forall>a \<in> set (rg_connections r). allocated (rg_state r a)) \<and> distinct (rg_connections r) \<and>
    (\<forall>(a, c) \<in> set (rg_closed r). allocated c)"
  using registry_steps_ok [OF registry_new_ok assms] by (simp add: registry_ok_def)

theorem stop_closes_what_is_there_witness:
  "\<exists>r. registry_steps [Connection_made 7, Connection_made 8, Session_ends 7, Stop_locks, Stop_closes, Session_ends 8,
      Stop_closes, Stop_clears, Deleter_erases 7, Deleter_frees 7] registry_new = Some r \<and>
     map fst (rg_closed r) = [8, 7] \<and> (\<forall>(a, c) \<in> set (rg_closed r). allocated c)"
proof -
  obtain r where r: "registry_steps [Connection_made 7, Connection_made 8, Session_ends 7, Stop_locks, Stop_closes,
      Session_ends 8, Stop_closes, Stop_clears, Deleter_erases 7, Deleter_frees 7] registry_new = Some r"
      "map fst (rg_closed r) = [8, 7]"
    by (simp add: registry_defs registry_new_def)
  from stop_closes_what_is_there [OF r(1)] show ?thesis by (intro exI [of _ r] conjI r) blast
qed

text \<open>The deleter of a connection that the stop has closed waits for the stop and finds the set empty.\<close>

lemma deleter_waits_for_stop:
  "rg_stop r = Stop_closing todo \<Longrightarrow> registry_do (Deleter_erases a) r = None"
  by (simp add: registry_do_def mutex_free_def)

end
