(* ===== verification/Web_Client.thy ===== *)
theory Web_Client
  imports Http_Client
begin

text \<open>
  The web client that applications use (src/network/web/web_client.cpp) over the HTTP client
  (src/network/web/http_client_impl.h): the numbers under which it keeps the callbacks of its requests, the way of a
  request through resolving, connecting, writing and reading, with the handlers of the asynchronous operations as
  inputs in any order, and stopping. What the system answers to an operation is the argument of its handler.
\<close>

section \<open>Requests and their callbacks\<close>

text \<open>Which operation a request waits for, with the connection it holds.\<close>

datatype call_pc = Resolving | Connecting | Writing | Reading

record client_call =
  cc_id :: nat
  cc_connection :: nat
  cc_pc :: call_pc

text \<open>
  The callbacks by their numbers, the pool and the connections whose socket is open, the requests under way, whether
  the scope of the handlers goes on, what was answered (a callback may be empty, and is not called then), and the
  requests that were given up without an answer.
\<close>

record web_client =
  wc_next_request_id :: nat
  wc_response_callbacks :: "nat \<Rightarrow> nat option option"
  wc_pool :: pool
  wc_open :: "nat list"
  wc_calls :: "client_call list"
  wc_continues :: bool
  wc_answers :: "(nat \<times> nat option \<times> ecode) list"
  wc_lost :: "nat list"

definition web_client_new :: web_client where
  "web_client_new =
     \<lparr>wc_next_request_id = 0, wc_response_callbacks = (\<lambda>i. None), wc_pool = pool_new, wc_open = [], wc_calls = [],
      wc_continues = True, wc_answers = [], wc_lost = []\<rparr>"

text \<open>\<open>connect\<close>: a connection whose socket is open is written to at once.\<close>

definition connect_call :: "client_call \<Rightarrow> web_client \<Rightarrow> web_client" where
  "connect_call c w =
     w\<lparr>wc_calls := c\<lparr>cc_pc := (if cc_connection c \<in> set (wc_open w) then Writing else Resolving)\<rparr> # wc_calls w\<rparr>"

text \<open>\<open>request\<close>: whether it was accepted. When the query cannot be made the callback stays where it is.\<close>

definition web_request :: "client_endpoint \<Rightarrow> nat option \<Rightarrow> web_client \<Rightarrow> bool \<times> web_client" where
  "web_request ep cb w =
     (let request_id = wc_next_request_id w + 1;
          w = w\<lparr>wc_next_request_id := request_id,
                wc_response_callbacks := (wc_response_callbacks w)(request_id \<mapsto> cb)\<rparr>;
          (err, i, p) = get_connection ep (wc_pool w);
          w = w\<lparr>wc_pool := p\<rparr>
      in if err \<noteq> None then (False, w\<lparr>wc_lost := wc_lost w @ [request_id]\<rparr>)
         else (True, connect_call \<lparr>cc_id = request_id, cc_connection = i, cc_pc = Resolving\<rparr> w))"

definition on_response_impl :: "nat \<Rightarrow> ecode \<Rightarrow> web_client \<Rightarrow> web_client" where
  "on_response_impl request_id ec w =
     (case wc_response_callbacks w request_id of
        None \<Rightarrow> w
      | Some cb \<Rightarrow>
          w\<lparr>wc_response_callbacks := (wc_response_callbacks w)(request_id := None),
            wc_answers := wc_answers w @ [(request_id, cb, ec)]\<rparr>)"

text \<open>The callback of the session: the pool, and then the callback of the request.\<close>

definition finish_call :: "client_call \<Rightarrow> ecode \<Rightarrow> web_client \<Rightarrow> web_client" where
  "finish_call c ec w =
     on_response_impl (cc_id c) ec (w\<lparr>wc_pool := session_callback (cc_connection c) ec (wc_pool w)\<rparr>)"

definition lose_call :: "client_call \<Rightarrow> web_client \<Rightarrow> web_client" where
  "lose_call c w = w\<lparr>wc_lost := wc_lost w @ [cc_id c]\<rparr>"

text \<open>
  What a handler is given: the error of an operation; the end of the reading of a response, with whether its header
  was read; or the failure of the read of the header.
\<close>

datatype completion =
    Completed ecode
  | Response_ended bool client_outcome
  | Header_failed ecode

definition go_on :: "client_call \<Rightarrow> call_pc \<Rightarrow> ecode \<Rightarrow> web_client \<Rightarrow> web_client" where
  "go_on c pc ec w = (if ec = Ec_none then w\<lparr>wc_calls := c\<lparr>cc_pc := pc\<rparr> # wc_calls w\<rparr> else finish_call c ec w)"

definition handler_ran :: "client_call \<Rightarrow> completion \<Rightarrow> web_client \<Rightarrow> web_client option" where
  "handler_ran c r w =
     (if \<not> wc_continues w then Some (lose_call c w)
      else
        (case (cc_pc c, r) of
           (Resolving, Completed ec) \<Rightarrow> Some (go_on c Connecting ec w)
         | (Connecting, Completed ec) \<Rightarrow>
             Some (go_on c Writing ec (if ec = Ec_none then w\<lparr>wc_open := cc_connection c # wc_open w\<rparr> else w))
         | (Writing, Completed ec) \<Rightarrow> Some (go_on c Reading ec w)
         | (Reading, Header_failed ec) \<Rightarrow>
             (case on_response_failed (cc_connection c) ec (wc_pool w) of
                (Failed_callback e, p) \<Rightarrow> Some (finish_call c e (w\<lparr>wc_pool := p\<rparr>))
              | (Failed_reconnected j, p) \<Rightarrow> Some (connect_call (c\<lparr>cc_connection := j\<rparr>) (w\<lparr>wc_pool := p\<rparr>)))
         | (Reading, Response_ended header_read outcome) \<Rightarrow>
             (let w = (if header_read
                       then w\<lparr>wc_pool := update_conn (cc_connection c) (\<lambda>k. k\<lparr>cn_attempt_reconnect := True\<rparr>) (wc_pool w)\<rparr>
                       else w)
              in case outcome of
                   Callback ec \<Rightarrow> Some (finish_call c ec w)
                 | Client_cancelled \<Rightarrow> Some (lose_call c w)
                 | Client_threw e \<Rightarrow> Some (lose_call c w))
         | _ \<Rightarrow> None))"

text \<open>A stop clears the pool and ends the scope; after it no request is accepted.\<close>

definition client_stop :: "web_client \<Rightarrow> web_client" where
  "client_stop w = w\<lparr>wc_pool := (wc_pool w)\<lparr>pl_connections := []\<rparr>, wc_continues := False\<rparr>"

datatype client_event =
    Request_made "nat option"
  | Handler_runs nat completion
  | Client_stops

definition client_do :: "client_endpoint \<Rightarrow> client_event \<Rightarrow> web_client \<Rightarrow> web_client option" where
  "client_do ep ev w =
     (case ev of
        Request_made cb \<Rightarrow> if wc_continues w then Some (snd (web_request ep cb w)) else None
      | Handler_runs i r \<Rightarrow>
          (case find (\<lambda>c. cc_id c = i) (wc_calls w) of
             None \<Rightarrow> None
           | Some c \<Rightarrow> handler_ran c r (w\<lparr>wc_calls := remove1 c (wc_calls w)\<rparr>))
      | Client_stops \<Rightarrow> Some (client_stop w))"

fun client_events :: "client_endpoint \<Rightarrow> client_event list \<Rightarrow> web_client \<Rightarrow> web_client option" where
  "client_events ep [] w = Some w"
| "client_events ep (ev # evs) w = (case client_do ep ev w of None \<Rightarrow> None | Some w' \<Rightarrow> client_events ep evs w')"

section \<open>Every request is answered once, under way, or given up\<close>

text \<open>The callbacks of the requests of a schedule, in their order.\<close>

fun requested :: "client_event list \<Rightarrow> nat option list" where
  "requested [] = []"
| "requested (Request_made cb # evs) = cb # requested evs"
| "requested (_ # evs) = requested evs"

definition all_requests :: "web_client \<Rightarrow> nat multiset" where
  "all_requests w = mset (map fst (wc_answers w)) + mset (map cc_id (wc_calls w)) + mset (wc_lost w)"

definition client_ok :: "nat option list \<Rightarrow> web_client \<Rightarrow> bool" where
  "client_ok cbs w \<longleftrightarrow>
     wc_next_request_id w = length cbs \<and>
     all_requests w = mset (map Suc [0..<length cbs]) \<and>
     (\<forall>i. wc_response_callbacks w i =
        (if i \<in> set (map cc_id (wc_calls w)) \<union> set (wc_lost w) then Some (cbs ! (i - 1)) else None)) \<and>
     (\<forall>(i, cb, ec) \<in> set (wc_answers w). cb = cbs ! (i - 1))"

lemma all_requests_distinct:
  assumes "client_ok cbs w"
  shows "distinct (map fst (wc_answers w) @ map cc_id (wc_calls w) @ wc_lost w)"
proof -
  have "mset (map fst (wc_answers w) @ map cc_id (wc_calls w) @ wc_lost w) = mset (map Suc [0..<length cbs])"
    using assms by (simp add: client_ok_def all_requests_def ac_simps)
  then show ?thesis by (metis distinct_map distinct_upt inj_Suc mset_eq_imp_distinct_iff subset_UNIV inj_on_subset)
qed

text \<open>The state of a handler: its request is out of those under way, and its callback is still there.\<close>

definition taken_ok :: "nat option list \<Rightarrow> client_call \<Rightarrow> web_client \<Rightarrow> bool" where
  "taken_ok cbs c w \<longleftrightarrow> client_ok cbs (w\<lparr>wc_calls := c # wc_calls w\<rparr>)"

lemma put_back: "taken_ok cbs c w \<Longrightarrow> cc_id c' = cc_id c \<Longrightarrow> client_ok cbs (w\<lparr>wc_calls := c' # wc_calls w\<rparr>)"
  by (simp add: taken_ok_def client_ok_def all_requests_def)

lemma taken_pool [simp]: "taken_ok cbs c (w\<lparr>wc_pool := p\<rparr>) = taken_ok cbs c w" "taken_ok cbs c (w\<lparr>wc_open := s\<rparr>) = taken_ok cbs c w"
  by (simp_all add: taken_ok_def client_ok_def all_requests_def)

lemma finish_call_ok:
  assumes "taken_ok cbs c w"
  shows "client_ok cbs (finish_call c ec w)"
proof -
  have d: "cc_id c \<notin> set (map cc_id (wc_calls w)) \<union> set (wc_lost w)"
    using all_requests_distinct [OF assms [unfolded taken_ok_def]] by auto
  have cb: "wc_response_callbacks w (cc_id c) = Some (cbs ! (cc_id c - 1))"
    using assms by (simp add: taken_ok_def client_ok_def)
  show ?thesis
    using assms d cb by (auto simp: finish_call_def on_response_impl_def taken_ok_def client_ok_def all_requests_def)
qed

lemma lose_call_ok: "taken_ok cbs c w \<Longrightarrow> client_ok cbs (lose_call c w)"
  by (auto simp: lose_call_def taken_ok_def client_ok_def all_requests_def)

lemma connect_call_ok: "taken_ok cbs c w \<Longrightarrow> cc_id c' = cc_id c \<Longrightarrow> client_ok cbs (connect_call c' w)"
  by (simp add: connect_call_def put_back)

lemma go_on_ok: "taken_ok cbs c w \<Longrightarrow> client_ok cbs (go_on c pc ec w)"
  by (simp add: go_on_def put_back finish_call_ok)

lemma handler_ran_ok: "taken_ok cbs c w \<Longrightarrow> handler_ran c r w = Some w' \<Longrightarrow> client_ok cbs w'"
  by (auto simp: handler_ran_def Let_def split: if_splits call_pc.splits completion.splits client_outcome.splits
      prod.splits failed_read.splits intro!: finish_call_ok lose_call_ok connect_call_ok go_on_ok)

lemma client_do_ok:
  assumes ok: "client_ok cbs w" and ev: "client_do ep ev w = Some w'"
  shows "client_ok (cbs @ requested [ev]) w'"
proof (cases ev)
  case (Request_made cb)
  obtain err i p where g: "get_connection ep (wc_pool w) = (err, i, p)" by (cases "get_connection ep (wc_pool w)")
  have n: "wc_next_request_id w = length cbs" using ok by (simp add: client_ok_def)
  have w': "w' = snd (web_request ep cb w)" using ev Request_made by (simp add: client_do_def split: if_splits)
  have mem: "j \<noteq> Suc (length cbs) \<and> (cbs @ [cb]) ! (j - 1) = cbs ! (j - 1)" if "j \<in># all_requests w" for j
  proof -
    have "j \<in> set (map Suc [0..<length cbs])" using ok that by (metis client_ok_def set_mset_mset)
    then show ?thesis by (auto simp: nth_append)
  qed
  have "\<forall>x \<in> set (wc_answers w). fst x \<noteq> Suc (length cbs) \<and> (cbs @ [cb]) ! (fst x - 1) = cbs ! (fst x - 1)"
    "\<forall>x \<in> set (wc_calls w). cc_id x \<noteq> Suc (length cbs) \<and> (cbs @ [cb]) ! (cc_id x - 1) = cbs ! (cc_id x - 1)"
    "\<forall>x \<in> set (wc_lost w). x \<noteq> Suc (length cbs) \<and> (cbs @ [cb]) ! (x - 1) = cbs ! (x - 1)"
    by (intro ballI mem; simp add: all_requests_def)+
  note m = this
  have r: "mset (map fst (wc_answers w)) + mset (map cc_id (wc_calls w)) + mset (wc_lost w) =
      mset (map Suc [0..<length cbs])"
    and c: "\<And>j. wc_response_callbacks w j =
        (if j \<in> set (map cc_id (wc_calls w)) \<union> set (wc_lost w) then Some (cbs ! (j - 1)) else None)"
    and a: "\<forall>(j, k, ec) \<in> set (wc_answers w). k = cbs ! (j - 1)"
    using ok by (simp_all add: client_ok_def all_requests_def)
  show ?thesis
    unfolding client_ok_def
  proof (intro conjI allI)
    show "wc_next_request_id w' = length (cbs @ requested [ev])"
      by (simp add: w' Request_made web_request_def g n connect_call_def Let_def)
    show "all_requests w' = mset (map Suc [0..<length (cbs @ requested [ev])])"
      using r by (simp add: w' Request_made web_request_def g n connect_call_def Let_def all_requests_def)
    show "\<forall>(j, k, ec) \<in> set (wc_answers w'). k = (cbs @ requested [ev]) ! (j - 1)"
    proof clarify
      fix j k ec
      assume "(j, k, ec) \<in> set (wc_answers w')"
      then have "(j, k, ec) \<in> set (wc_answers w)"
        by (simp add: w' web_request_def g connect_call_def Let_def split: if_splits)
      with a m(1) show "k = (cbs @ requested [ev]) ! (j - 1)" by (force simp: Request_made)
    qed
    fix j
    show "wc_response_callbacks w' j =
        (if j \<in> set (map cc_id (wc_calls w')) \<union> set (wc_lost w') then Some ((cbs @ requested [ev]) ! (j - 1)) else None)"
    proof (cases "j = Suc (length cbs)")
      case True
      then show ?thesis by (simp add: w' Request_made web_request_def g n connect_call_def Let_def)
    next
      case False
      then show ?thesis using c [of j] m(2,3)
        by (auto simp: w' Request_made web_request_def g n connect_call_def Let_def)
    qed
  qed
next
  case (Handler_runs i r)
  then obtain c where f: "find (\<lambda>c. cc_id c = i) (wc_calls w) = Some c"
      and h: "handler_ran c r (w\<lparr>wc_calls := remove1 c (wc_calls w)\<rparr>) = Some w'"
    using ev by (auto simp: client_do_def split: option.splits)
  have "c \<in> set (wc_calls w)" using f by (metis find_Some_iff nth_mem)
  then have m: "mset (map cc_id (c # remove1 c (wc_calls w))) = mset (map cc_id (wc_calls w))"
    by (metis insert_DiffM mset.simps(2) mset_map mset_remove1 set_mset_mset)
  then have "taken_ok cbs c (w\<lparr>wc_calls := remove1 c (wc_calls w)\<rparr>)"
    using ok m mset_eq_setD [OF m] unfolding taken_ok_def client_ok_def all_requests_def by (simp del: mset_map mset.simps list.map set_map)
  from handler_ran_ok [OF this h] show ?thesis using Handler_runs by simp
next
  case Client_stops
  then show ?thesis using ok ev by (auto simp: client_do_def client_stop_def client_ok_def all_requests_def)
qed

lemma requested_append: "requested (evs @ evs') = requested evs @ requested evs'"
  by (induction evs rule: requested.induct) simp_all

lemma client_events_ok:
  "client_ok cbs w \<Longrightarrow> client_events ep evs w = Some w' \<Longrightarrow> client_ok (cbs @ requested evs) w'"
proof (induction evs arbitrary: cbs w)
  case (Cons ev evs)
  then obtain w1 where w1: "client_do ep ev w = Some w1" "client_events ep evs w1 = Some w'" by (auto split: option.splits)
  from Cons.IH [OF client_do_ok [OF Cons.prems(1) w1(1)] w1(2)] show ?case
    using requested_append [of "[ev]" evs] by simp
qed simp

lemma web_client_new_ok: "client_ok [] web_client_new"
  by (simp add: client_ok_def web_client_new_def all_requests_def)

text \<open>C15: However requests, handlers and a stop follow each other, every request that was made is answered once, under
  way, or given up, and only one of these; and what is called with its answer is the callback it was made with.\<close>
theorem requests_answered_once:
  assumes "client_events ep evs web_client_new = Some w"
  shows "mset (map fst (wc_answers w)) + mset (map cc_id (wc_calls w)) + mset (wc_lost w) =
      mset (map Suc [0..<length (requested evs)]) \<and>
    (\<forall>(i, cb, ec) \<in> set (wc_answers w). cb = requested evs ! (i - 1))"
  using client_events_ok [OF web_client_new_ok assms] by (simp add: client_ok_def all_requests_def)

lemmas client_exec = client_do_def web_request_def get_connection_def create_connection_def update_conn_def connect_call_def
  make_query_def handler_ran_def go_on_def finish_call_def on_response_impl_def session_callback_def lose_call_def
  client_stop_def on_response_failed_def reconnect_def web_client_new_def pool_new_def

text \<open>Two requests; the first is answered over a new connection, the second is given up by the stop.\<close>

theorem requests_answered_once_witness:
  "\<exists>w. client_events example_endpoint
      [Request_made (Some 5), Request_made (Some 6), Handler_runs 1 (Completed Ec_none), Handler_runs 1 (Completed Ec_none),
       Handler_runs 1 (Completed Ec_none), Handler_runs 1 (Response_ended True (Callback Ec_none)), Client_stops,
       Handler_runs 2 (Completed Ec_operation_aborted)] web_client_new = Some w \<and>
     wc_answers w = [(1, Some 5, Ec_none)] \<and> wc_lost w = [2] \<and>
     mset (map fst (wc_answers w)) + mset (map cc_id (wc_calls w)) + mset (wc_lost w) = {#1, 2#}"
proof -
  let ?evs = "[Request_made (Some 5), Request_made (Some 6), Handler_runs 1 (Completed Ec_none),
      Handler_runs 1 (Completed Ec_none), Handler_runs 1 (Completed Ec_none),
      Handler_runs 1 (Response_ended True (Callback Ec_none)), Client_stops, Handler_runs 2 (Completed Ec_operation_aborted)]"
  obtain w where w: "client_events example_endpoint ?evs web_client_new = Some w"
      "wc_answers w = [(1, Some 5, Ec_none)]" "wc_lost w = [2]"
    by (simp add: client_exec example_endpoint_def)
  from requests_answered_once [OF w(1)]
  have "mset (map fst (wc_answers w)) + mset (map cc_id (wc_calls w)) + mset (wc_lost w) = {#1, 2#}"
    by (simp add: numeral_2_eq_2)
  with w show ?thesis by blast
qed

text \<open>A request that is refused because the text of the proxy does not parse leaves its callback behind, uncalled.\<close>

lemma refused_request_keeps_callback:
  assumes "make_query ep = Inl e" "pl_query (wc_pool w) = None"
  shows "\<not> fst (web_request ep cb w)" "wc_response_callbacks (snd (web_request ep cb w)) (wc_next_request_id w + 1) = Some cb"
  using assms
  by (auto simp: web_request_def get_connection_def create_connection_def update_conn_def Let_def split: option.splits)

section \<open>Stopping while handlers run\<close>

text \<open>
  \<open>stop\<close> locks the mutex of the connections, keeps it while it waits for the handlers that are in the scope, and
  returns it at its end. A handler enters the scope, locks the same mutex in the callback of its session, and leaves.
\<close>

datatype handler_pc = Hd_posted | Hd_scope | Hd_locked | Hd_unlocked | Hd_gone

datatype stopper_pc = Sp_begin | Sp_locked | Sp_joining | Sp_done

record stopping =
  st_handlers :: "handler_pc list"
  st_stopper :: stopper_pc
  st_cancelled :: bool

definition stopping_new :: "nat \<Rightarrow> stopping" where
  "stopping_new n = \<lparr>st_handlers = replicate n Hd_posted, st_stopper = Sp_begin, st_cancelled = False\<rparr>"

definition connections_free :: "stopping \<Rightarrow> bool" where
  "connections_free s \<longleftrightarrow>
     st_stopper s \<noteq> Sp_locked \<and> st_stopper s \<noteq> Sp_joining \<and> Hd_locked \<notin> set (st_handlers s)"

definition in_scope :: "handler_pc \<Rightarrow> bool" where
  "in_scope h = (h = Hd_scope \<or> h = Hd_locked \<or> h = Hd_unlocked)"

definition handler_move :: "nat \<Rightarrow> stopping \<Rightarrow> stopping option" where
  "handler_move i s =
     (if i < length (st_handlers s) then
        (case st_handlers s ! i of
           Hd_posted \<Rightarrow>
             Some (s\<lparr>st_handlers := (st_handlers s)[i := (if st_cancelled s then Hd_gone else Hd_scope)]\<rparr>)
         | Hd_scope \<Rightarrow>
             (if connections_free s then Some (s\<lparr>st_handlers := (st_handlers s)[i := Hd_locked]\<rparr>) else None)
         | Hd_locked \<Rightarrow> Some (s\<lparr>st_handlers := (st_handlers s)[i := Hd_unlocked]\<rparr>)
         | Hd_unlocked \<Rightarrow> Some (s\<lparr>st_handlers := (st_handlers s)[i := Hd_gone]\<rparr>)
         | Hd_gone \<Rightarrow> None)
      else None)"

definition stopper_move :: "stopping \<Rightarrow> stopping option" where
  "stopper_move s =
     (case st_stopper s of
        Sp_begin \<Rightarrow> (if connections_free s then Some (s\<lparr>st_stopper := Sp_locked\<rparr>) else None)
      | Sp_locked \<Rightarrow> Some (s\<lparr>st_stopper := Sp_joining, st_cancelled := True\<rparr>)
      | Sp_joining \<Rightarrow>
          (if list_all (\<lambda>h. \<not> in_scope h) (st_handlers s) then Some (s\<lparr>st_stopper := Sp_done\<rparr>) else None)
      | Sp_done \<Rightarrow> None)"

text \<open>A schedule: the number of a handler, or the stopper.\<close>

fun stop_run :: "nat option list \<Rightarrow> stopping \<Rightarrow> stopping option" where
  "stop_run [] s = Some s"
| "stop_run (m # ms) s =
     (case (case m of None \<Rightarrow> stopper_move s | Some i \<Rightarrow> handler_move i s) of
        None \<Rightarrow> None | Some s' \<Rightarrow> stop_run ms s')"

definition joining_ok :: "stopping \<Rightarrow> bool" where
  "joining_ok s \<longleftrightarrow> (st_stopper s = Sp_locked \<or> st_stopper s = Sp_joining \<longrightarrow> Hd_locked \<notin> set (st_handlers s)) \<and>
     (st_cancelled s \<longleftrightarrow> st_stopper s = Sp_joining \<or> st_stopper s = Sp_done)"

lemma set_update: "x \<in> set (xs[i := y]) \<Longrightarrow> x = y \<or> x \<in> set xs"
  by (metis in_mono insert_iff set_update_subset_insert)

lemma joining_ok_move:
  assumes "joining_ok s"
  shows "stopper_move s = Some s' \<Longrightarrow> joining_ok s'" "handler_move i s = Some s' \<Longrightarrow> joining_ok s'"
  using assms
  by (auto simp: joining_ok_def stopper_move_def handler_move_def connections_free_def dest!: set_update
      split: stopper_pc.splits handler_pc.splits if_splits)

lemma joining_ok_run: "joining_ok s \<Longrightarrow> stop_run ms s = Some s' \<Longrightarrow> joining_ok s'"
  by (induction ms arbitrary: s) (auto split: option.splits dest: joining_ok_move)

text \<open>A handler that is in the scope and before its lock stays there.\<close>

definition deadlocked :: "stopping \<Rightarrow> bool" where
  "deadlocked s \<longleftrightarrow> st_stopper s = Sp_joining \<and> Hd_scope \<in> set (st_handlers s)"

lemma deadlocked_move:
  assumes "deadlocked s"
  shows "stopper_move s = None" "handler_move i s = Some s' \<Longrightarrow> deadlocked s'"
proof -
  obtain j where j: "j < length (st_handlers s)" "st_handlers s ! j = Hd_scope"
    using assms by (auto simp: deadlocked_def in_set_conv_nth)
  show "stopper_move s = None"
    using assms by (auto simp: deadlocked_def stopper_move_def list_all_iff in_scope_def)
  assume m: "handler_move i s = Some s'"
  then have "i \<noteq> j" using assms j(2) by (auto simp: handler_move_def deadlocked_def connections_free_def split: if_splits)
  moreover obtain h where "s' = s\<lparr>st_handlers := (st_handlers s)[i := h]\<rparr>"
    using m by (auto simp: handler_move_def split: if_splits handler_pc.splits)
  ultimately show "deadlocked s'"
    using assms j by (auto simp: deadlocked_def in_set_conv_nth intro!: exI [of _ j])
qed

lemma deadlocked_run: "deadlocked s \<Longrightarrow> stop_run ms s = Some s' \<Longrightarrow> deadlocked s'"
proof (induction ms arbitrary: s)
  case (Cons m ms)
  then show ?case using deadlocked_move [OF Cons.prems(1)] by (cases m) (auto split: option.splits)
qed simp

lemma handlers_leave:
  assumes "st_stopper s = Sp_joining" "Hd_scope \<notin> set (st_handlers s)" "Hd_locked \<notin> set (st_handlers s)"
  shows "\<exists>ms s'. stop_run ms s = Some s' \<and> st_stopper s' = Sp_done"
  using assms
proof (induction "count (mset (st_handlers s)) Hd_unlocked" arbitrary: s)
  case 0
  then have "list_all (\<lambda>h. \<not> in_scope h) (st_handlers s)" by (auto simp: list_all_iff in_scope_def count_eq_zero_iff)
  then show ?case using 0 by (intro exI [of _ "[None]"]) (simp add: stopper_move_def)
next
  case (Suc n)
  then have "Hd_unlocked \<in> set (st_handlers s)" by (metis count_mset_0_iff nat.simps(3))
  then obtain i where i: "i < length (st_handlers s)" "st_handlers s ! i = Hd_unlocked" by (auto simp: in_set_conv_nth)
  let ?s = "s\<lparr>st_handlers := (st_handlers s)[i := Hd_gone]\<rparr>"
  have "n = count (mset (st_handlers ?s)) Hd_unlocked" using i Suc.hyps(2) by (simp add: mset_update)
  from Suc.hyps(1) [OF this] Suc.prems obtain ms s' where "stop_run ms ?s = Some s'" "st_stopper s' = Sp_done"
    by (auto dest!: set_update)
  then show ?case using i by (intro exI [of _ "Some i # ms"] exI [of _ s']) (simp add: handler_move_def)
qed



end
