(* ===== verification/Net_Config.thy ===== *)
theory Net_Config
  imports Prelude
begin

text \<open>
  The configurations of the network classes (include/server_lib/network/base_config.h, server_config.h,
  client_config.h, web/web_server_config.h, web/web_client_config.h), and the addresses of \<open>ifconfig\<close>
  (src/network/ifconfig.cpp). A class template and those derived from it are a record and its extensions. The
  prototype of a protocol, the test for a regular file and the answers of the resolver are arguments; a duration is
  its number of nanoseconds.
\<close>

section \<open>Common settings\<close>

record 'b base_config =
  bc_protocol :: "'b option"
  bc_worker_name :: string
  bc_worker_threads :: "8 word"

record 'b stream_config = "'b base_config" +
  sc_chunk_size :: "64 word"

text \<open>The clone is stored before it is asked whether there is one, so a refused protocol takes away the one there was.\<close>

definition set_protocol ::
    "'b option \<Rightarrow> ('b, 'x) base_config_scheme \<Rightarrow> srv_error option \<times> ('b, 'x) base_config_scheme" where
  "set_protocol clone c =
     (let c = c\<lparr>bc_protocol := clone\<rparr>
      in if bc_protocol c \<noteq> None then (None, c)
         else (Some (Logic_error ''App build should be cloneable to be used like protocol''), c))"

definition set_worker_name :: "string \<Rightarrow> ('b, 'x) base_config_scheme \<Rightarrow> ('b, 'x) base_config_scheme result" where
  "set_worker_name name c = srv_assert (name \<noteq> []) ''!name.empty()'' (Inr (c\<lparr>bc_worker_name := name\<rparr>))"

definition set_worker_threads :: "8 word \<Rightarrow> ('b, 'x) base_config_scheme \<Rightarrow> ('b, 'x) base_config_scheme result" where
  "set_worker_threads worker_threads c =
     srv_assert (worker_threads > 0) ''worker_threads > 0'' (Inr (c\<lparr>bc_worker_threads := worker_threads\<rparr>))"

definition set_chunk_size :: "64 word \<Rightarrow> ('b, 'x) stream_config_scheme \<Rightarrow> ('b, 'x) stream_config_scheme result" where
  "set_chunk_size sz c =
     srv_assert (sz > 0 \<and> sz \<le> 0xffffffff) ''sz > 0 && sz <= max'' (Inr (c\<lparr>sc_chunk_size := sz\<rparr>))"

definition stream_valid :: "('b, 'x) stream_config_scheme \<Rightarrow> bool" where
  "stream_valid c = (sc_chunk_size c > 0)"

text \<open>\<open>duration_cast\<close>, which cuts towards zero.\<close>

definition duration_cast :: "int \<Rightarrow> int \<Rightarrow> int" where
  "duration_cast unit d = (if d \<ge> 0 then d div unit else - (- d div unit))"

definition to_milliseconds :: "int \<Rightarrow> int" where
  "to_milliseconds d = duration_cast 1000000 d"

definition to_seconds :: "int \<Rightarrow> int" where
  "to_seconds d = duration_cast 1000000000 d"

section \<open>Servers\<close>

text \<open>An address is set before the port beside it is refused.\<close>

record 'b tcp_server_config = "'b stream_config" +
  ts_port :: "16 word"
  ts_address :: string
  ts_reuse_address :: bool

definition set_server_port :: "16 word \<Rightarrow> ('b, 'x) tcp_server_config_scheme \<Rightarrow> ('b, 'x) tcp_server_config_scheme result" where
  "set_server_port port c = srv_assert (port > 0) ''port > 0'' (Inr (c\<lparr>ts_port := port\<rparr>))"

definition set_server_address ::
    "string \<Rightarrow> 16 word \<Rightarrow> ('b, 'x) tcp_server_config_scheme \<Rightarrow> srv_error option \<times> ('b, 'x) tcp_server_config_scheme" where
  "set_server_address address port c =
     (if address = [] then (Some (Logic_error ''!address.empty()''), c)
      else (let c = c\<lparr>ts_address := address\<rparr>
            in case set_server_port port c of Inl e \<Rightarrow> (Some e, c) | Inr c' \<Rightarrow> (None, c')))"

definition disable_reuse_address :: "('b, 'x) tcp_server_config_scheme \<Rightarrow> ('b, 'x) tcp_server_config_scheme" where
  "disable_reuse_address c = c\<lparr>ts_reuse_address := False\<rparr>"

definition tcp_server_base_valid :: "('b, 'x) tcp_server_config_scheme \<Rightarrow> bool" where
  "tcp_server_base_valid c = (stream_valid c \<and> ts_port c > 0 \<and> ts_address c \<noteq> [])"

definition tcp_server_valid :: "('b, 'x) tcp_server_config_scheme \<Rightarrow> bool" where
  "tcp_server_valid c = (tcp_server_base_valid c \<and> bc_protocol c \<noteq> None)"

definition tcp_server_config_new :: "'b tcp_server_config" where
  "tcp_server_config_new =
     \<lparr>bc_protocol = None, bc_worker_name = ''server'', bc_worker_threads = 1, sc_chunk_size = 4096, ts_port = 0,
      ts_address = ''0.0.0.0'', ts_reuse_address = True\<rparr>"

record 'b unix_socket_config = "'b stream_config" +
  us_socket_file :: string

definition set_socket_file :: "string \<Rightarrow> ('b, 'x) unix_socket_config_scheme \<Rightarrow> ('b, 'x) unix_socket_config_scheme result" where
  "set_socket_file socket_file c =
     srv_assert (socket_file \<noteq> []) ''!socket_file.empty()'' (Inr (c\<lparr>us_socket_file := socket_file\<rparr>))"

definition unix_socket_valid :: "('b, 'x) unix_socket_config_scheme \<Rightarrow> bool" where
  "unix_socket_valid c = (stream_valid c \<and> bc_protocol c \<noteq> None \<and> us_socket_file c \<noteq> [])"

record 'b web_server_config = "'b tcp_server_config" +
  ws_timeout_request_sec :: int
  ws_timeout_content_sec :: int
  ws_max_request_streambuf_size :: "64 word"

definition set_timeout_request :: "int \<Rightarrow> ('b, 'x) web_server_config_scheme \<Rightarrow> ('b, 'x) web_server_config_scheme result" where
  "set_timeout_request duration c =
     srv_assert (to_seconds duration > 0) ''1 second is minimum waiting accuracy''
       (Inr (c\<lparr>ws_timeout_request_sec := to_seconds duration\<rparr>))"

definition set_timeout_content :: "int \<Rightarrow> ('b, 'x) web_server_config_scheme \<Rightarrow> ('b, 'x) web_server_config_scheme result" where
  "set_timeout_content duration c =
     srv_assert (to_seconds duration > 0) ''1 second is minimum waiting accuracy''
       (Inr (c\<lparr>ws_timeout_content_sec := to_seconds duration\<rparr>))"

definition set_max_request_streambuf_size ::
    "64 word \<Rightarrow> ('b, 'x) web_server_config_scheme \<Rightarrow> ('b, 'x) web_server_config_scheme result" where
  "set_max_request_streambuf_size sz c =
     srv_assert (sz > 0) ''max_request_streambuf_size > 0'' (Inr (c\<lparr>ws_max_request_streambuf_size := sz\<rparr>))"

text \<open>The constructor takes a \<open>size_t\<close> and sets it as a port of 16 bits.\<close>

definition web_server_config_new :: "64 word \<Rightarrow> 'b web_server_config result" where
  "web_server_config_new port =
     set_server_port (ucast port)
       \<lparr>bc_protocol = None, bc_worker_name = ''web-server'', bc_worker_threads = 1, sc_chunk_size = 4096, ts_port = 0,
        ts_address = ''0.0.0.0'', ts_reuse_address = True, ws_timeout_request_sec = 5, ws_timeout_content_sec = 300,
        ws_max_request_streambuf_size = - 1\<rparr>"

record 'b websec_server_config = "'b web_server_config" +
  wss_cert_file :: string
  wss_private_key_file :: string
  wss_verify_file :: string

definition set_server_cert_file :: "(string \<Rightarrow> bool) \<Rightarrow> string \<Rightarrow> 'b websec_server_config \<Rightarrow> 'b websec_server_config result" where
  "set_server_cert_file is_regular_file f c =
     srv_assert (f \<noteq> []) ''!cert_file.empty()'' (srv_assert (is_regular_file f) ''is_regular_file(cert_file)''
       (Inr (c\<lparr>wss_cert_file := f\<rparr>)))"

definition set_server_private_key_file :: "(string \<Rightarrow> bool) \<Rightarrow> string \<Rightarrow> 'b websec_server_config \<Rightarrow> 'b websec_server_config result" where
  "set_server_private_key_file is_regular_file f c =
     srv_assert (f \<noteq> []) ''!private_key_file.empty()'' (srv_assert (is_regular_file f) ''is_regular_file(private_key_file)''
       (Inr (c\<lparr>wss_private_key_file := f\<rparr>)))"

definition set_server_verify_file :: "(string \<Rightarrow> bool) \<Rightarrow> string \<Rightarrow> 'b websec_server_config \<Rightarrow> 'b websec_server_config result" where
  "set_server_verify_file is_regular_file f c =
     srv_assert (f \<noteq> []) ''!verify_file.empty()'' (srv_assert (is_regular_file f) ''is_regular_file(verify_file)''
       (Inr (c\<lparr>wss_verify_file := f\<rparr>)))"

definition websec_server_valid :: "'b websec_server_config \<Rightarrow> bool" where
  "websec_server_valid c = (tcp_server_base_valid c \<and> wss_cert_file c \<noteq> [] \<and> wss_private_key_file c \<noteq> [])"

section \<open>Clients\<close>

record 'b tcp_client_config = "'b stream_config" +
  tc_port :: "16 word"
  tc_host :: string
  tc_timeout_connect_ms :: int

definition set_client_port :: "16 word \<Rightarrow> ('b, 'x) tcp_client_config_scheme \<Rightarrow> ('b, 'x) tcp_client_config_scheme result" where
  "set_client_port port c = srv_assert (port > 0) ''port > 0'' (Inr (c\<lparr>tc_port := port\<rparr>))"

definition set_client_address ::
    "string \<Rightarrow> 16 word \<Rightarrow> ('b, 'x) tcp_client_config_scheme \<Rightarrow> srv_error option \<times> ('b, 'x) tcp_client_config_scheme" where
  "set_client_address host port c =
     (if host = [] then (Some (Logic_error ''!host.empty()''), c)
      else (let c = c\<lparr>tc_host := host\<rparr>
            in case set_client_port port c of Inl e \<Rightarrow> (Some e, c) | Inr c' \<Rightarrow> (None, c')))"

definition set_timeout_connect :: "int \<Rightarrow> ('b, 'x) tcp_client_config_scheme \<Rightarrow> ('b, 'x) tcp_client_config_scheme result" where
  "set_timeout_connect duration c =
     srv_assert (to_milliseconds duration > 0) ''1 millisecond is minimum waiting accuracy''
       (Inr (c\<lparr>tc_timeout_connect_ms := to_milliseconds duration\<rparr>))"

text \<open>In seconds.\<close>

definition timeout_connect :: "('b, 'x) tcp_client_config_scheme \<Rightarrow> int" where
  "timeout_connect c = tc_timeout_connect_ms c div 1000"

definition tcp_client_base_valid :: "('b, 'x) tcp_client_config_scheme \<Rightarrow> bool" where
  "tcp_client_base_valid c = (stream_valid c \<and> tc_port c > 0 \<and> tc_host c \<noteq> [])"

definition tcp_client_valid :: "('b, 'x) tcp_client_config_scheme \<Rightarrow> bool" where
  "tcp_client_valid c = (tcp_client_base_valid c \<and> bc_protocol c \<noteq> None)"

record 'b web_client_config = "'b tcp_client_config" +
  wcc_timeout_ms :: int
  wcc_max_response_streambuf_size :: "64 word"
  wcc_proxy_server :: string

definition set_web_address :: "string \<Rightarrow> ('b, 'x) web_client_config_scheme \<Rightarrow> ('b, 'x) web_client_config_scheme result" where
  "set_web_address host_port c = srv_assert (host_port \<noteq> []) ''!host_port.empty()'' (Inr (c\<lparr>tc_host := host_port\<rparr>))"

definition set_timeout :: "int \<Rightarrow> ('b, 'x) web_client_config_scheme \<Rightarrow> ('b, 'x) web_client_config_scheme result" where
  "set_timeout duration c =
     srv_assert (to_milliseconds duration > 0) ''1 millisecond is minimum waiting accuracy''
       (Inr (c\<lparr>wcc_timeout_ms := to_milliseconds duration\<rparr>))"

definition set_max_response_streambuf_size ::
    "64 word \<Rightarrow> ('b, 'x) web_client_config_scheme \<Rightarrow> ('b, 'x) web_client_config_scheme result" where
  "set_max_response_streambuf_size sz c =
     srv_assert (sz > 0) ''max_response_streambuf_size > 0'' (Inr (c\<lparr>wcc_max_response_streambuf_size := sz\<rparr>))"

definition set_proxy_server :: "string \<Rightarrow> ('b, 'x) web_client_config_scheme \<Rightarrow> ('b, 'x) web_client_config_scheme" where
  "set_proxy_server proxy_server c = c\<lparr>wcc_proxy_server := proxy_server\<rparr>"

definition web_timeout :: "('b, 'x) web_client_config_scheme \<Rightarrow> int" where
  "web_timeout c = wcc_timeout_ms c div 1000"

definition web_client_config_new :: "64 word \<Rightarrow> 'b web_client_config result" where
  "web_client_config_new port =
     set_client_port (ucast port)
       \<lparr>bc_protocol = None, bc_worker_name = ''web-client'', bc_worker_threads = 1, sc_chunk_size = 4096, tc_port = 0,
        tc_host = ''localhost'', tc_timeout_connect_ms = 0, wcc_timeout_ms = 0, wcc_max_response_streambuf_size = - 1,
        wcc_proxy_server = []\<rparr>"

text \<open>
  \<open>set_timeout\<close> of a connection of the client (src/network/web/http_client_impl.h): the seconds of the timer that is
  started, none when there is no timeout.
\<close>

definition started_timer :: "int \<Rightarrow> int \<Rightarrow> int option" where
  "started_timer timeout seconds = (let s = (if seconds = 0 then timeout else seconds) in if s = 0 then None else Some s)"

section \<open>What the setters keep\<close>

datatype web_setting =
    Worker_name string
  | Worker_threads "8 word"
  | Chunk_size "64 word"
  | Port "16 word"
  | Address string "16 word"
  | No_reuse_address
  | Timeout_request int
  | Timeout_content int
  | Max_size "64 word"

text \<open>A refused call leaves what it was called on; the other forms of an address are \<open>Address\<close>.\<close>

definition accepted_or :: "'a \<Rightarrow> 'a result \<Rightarrow> 'a" where
  "accepted_or c r = (case r of Inl e \<Rightarrow> c | Inr c' \<Rightarrow> c')"

definition web_set :: "web_setting \<Rightarrow> 'b web_server_config \<Rightarrow> 'b web_server_config" where
  "web_set st c =
     (case st of
        Worker_name n \<Rightarrow> accepted_or c (set_worker_name n c)
      | Worker_threads n \<Rightarrow> accepted_or c (set_worker_threads n c)
      | Chunk_size sz \<Rightarrow> accepted_or c (set_chunk_size sz c)
      | Port p \<Rightarrow> accepted_or c (set_server_port p c)
      | Address a p \<Rightarrow> snd (set_server_address a p c)
      | No_reuse_address \<Rightarrow> disable_reuse_address c
      | Timeout_request d \<Rightarrow> accepted_or c (set_timeout_request d c)
      | Timeout_content d \<Rightarrow> accepted_or c (set_timeout_content d c)
      | Max_size sz \<Rightarrow> accepted_or c (set_max_request_streambuf_size sz c))"

definition web_config_ok :: "'b web_server_config \<Rightarrow> bool" where
  "web_config_ok c \<longleftrightarrow>
     tcp_server_base_valid c \<and> bc_worker_name c \<noteq> [] \<and> bc_worker_threads c > 0 \<and>
     sc_chunk_size c \<le> 0xffffffff \<and> ws_timeout_request_sec c > 0 \<and> ws_timeout_content_sec c > 0 \<and>
     ws_max_request_streambuf_size c > 0"

lemmas setter_defs = accepted_or_def srv_assert_def set_worker_name_def set_worker_threads_def set_chunk_size_def
  set_server_port_def set_server_address_def disable_reuse_address_def set_timeout_request_def set_timeout_content_def
  set_max_request_streambuf_size_def

lemma web_set_ok: "web_config_ok c \<Longrightarrow> web_config_ok (web_set st c)"
  by (cases st)
    (auto simp: web_set_def setter_defs web_config_ok_def tcp_server_base_valid_def stream_valid_def Let_def
      split: if_splits)

lemma web_sets_ok: "web_config_ok c \<Longrightarrow> web_config_ok (fold web_set sts c)"
  by (induction sts arbitrary: c) (auto intro: web_set_ok)

text \<open>
  Whatever setters are called on the configuration of a web server, accepted or refused, it stays valid: it
  has a port and an address, a chunk of at most 32 bits, a thread and a name for it, and timeouts of a second at
  least.\<close>
lemma web_config_stays_valid:
  assumes "web_server_config_new port = Inr c"
  shows "web_config_ok (fold web_set sts c)"
proof (rule web_sets_ok)
  show "web_config_ok c"
    using assms
    by (auto simp: web_server_config_new_def set_server_port_def web_config_ok_def tcp_server_base_valid_def stream_valid_def
        word_gt_0)
qed

lemma web_config_stays_valid_witness:
  "\<exists>c :: nat web_server_config. web_server_config_new 80 = Inr c \<and>
     web_config_ok (fold web_set [Address ''::1'' 0, Timeout_request 999999999, Chunk_size 0] c) \<and>
     ts_address (fold web_set [Address ''::1'' 0, Timeout_request 999999999, Chunk_size 0] c) = ''::1''"
proof -
  obtain c :: "nat web_server_config" where c: "web_server_config_new 80 = Inr c" "ts_port c = 80"
    by (simp add: web_server_config_new_def set_server_port_def)
  have "ts_address (fold web_set [Address ''::1'' 0, Timeout_request 999999999, Chunk_size 0] c) = ''::1''"
    by (simp add: web_set_def setter_defs Let_def to_seconds_def duration_cast_def)
  with web_config_stays_valid [OF c(1)] c(1) show ?thesis by blast
qed

text \<open>
  A timeout of the web client is taken from a millisecond on, but counts in whole seconds: a request waits
  without any timer when its timeout is below a second, and otherwise for what is left without the fraction.\<close>
lemma web_timeouts_in_seconds:
  assumes "set_timeout d c = Inr c'"
  shows "1000000 \<le> d \<and> started_timer (web_timeout c') 0 = (if d < 1000000000 then None else Some (d div 1000000000))"
proof -
  have d: "1000000 \<le> d"
    using assms by (auto simp: set_timeout_def to_milliseconds_def duration_cast_def split: if_splits)
  then have "web_timeout c' = d div 1000000 div 1000"
    using assms by (auto simp: set_timeout_def web_timeout_def to_milliseconds_def duration_cast_def)
  also have "\<dots> = d div 1000000000" by (simp add: zdiv_zmult2_eq)
  finally show ?thesis using d
    by (auto simp: started_timer_def Let_def)
qed

lemma web_timeouts_in_seconds_witness:
  "\<exists>c c' :: nat web_client_config. web_client_config_new 80 = Inr c \<and> set_timeout 999000000 c = Inr c' \<and>
     started_timer (web_timeout c') 0 = None"
proof -
  obtain c c' :: "nat web_client_config" where c: "web_client_config_new 80 = Inr c" "set_timeout 999000000 c = Inr c'"
    by (simp add: web_client_config_new_def set_client_port_def set_timeout_def to_milliseconds_def duration_cast_def)
  from web_timeouts_in_seconds [OF c(2)] c show ?thesis by auto
qed

section \<open>Addresses\<close>

datatype region = Usa_central | Usa_east | Usa_west | Australia | Moskow

definition DNS_HOSTS_DB :: "region \<Rightarrow> string list option" where
  "DNS_HOSTS_DB r =
     (case r of
        Usa_central \<Rightarrow> Some [''8.8.8.8'', ''8.8.4.4'']
      | Usa_east \<Rightarrow> Some [''208.67.222.222'', ''208.67.220.220'']
      | Usa_west \<Rightarrow> Some [''9.9.9.9'', ''149.112.112.112'']
      | Australia \<Rightarrow> Some [''1.1.1.1'', ''1.0.0.1'']
      | Moskow \<Rightarrow> Some [''176.103.130.130'', ''176.103.130.131''])"

text \<open>The loop, with \<open>limit_\<close> and \<open>idx\<close>, which it counts down together.\<close>

function nearest_loop :: "string list \<Rightarrow> int \<Rightarrow> int \<Rightarrow> string list" where
  "nearest_loop hosts lmt idx =
     (if lmt > 0 then
        (let idx = idx - lmt; i = unat (word_of_int idx :: 64 word)
         in if i \<ge> length hosts then [] else hosts ! i # nearest_loop hosts (lmt - 1) idx)
      else [])"
  by auto

termination
  by (relation "measure (\<lambda>(hosts, lmt, idx). nat lmt)") auto

declare nearest_loop.simps [simp del]

definition get_nearest_public_host :: "region \<Rightarrow> 64 word \<Rightarrow> string list" where
  "get_nearest_public_host r lmt =
     (case DNS_HOSTS_DB r of
        None \<Rightarrow> []
      | Some hosts \<Rightarrow> if hosts = [] \<or> lmt = 0 then [] else nearest_loop hosts (sint lmt) (sint lmt))"

datatype preferable_ipv = Ipv4 | Ipv6 | Ipall

datatype address = Address_v4 string | Address_v6 string

text \<open>\<open>get_list\<close>, for the addresses that the resolver gives.\<close>

fun get_list :: "preferable_ipv \<Rightarrow> address list \<Rightarrow> string list" where
  "get_list preferable [] = []"
| "get_list preferable (Address_v6 a # as) =
     (if Ipv6 \<noteq> preferable \<and> Ipall \<noteq> preferable then get_list preferable as else a # get_list preferable as)"
| "get_list preferable (Address_v4 a # as) =
     (if Ipv4 = preferable \<or> Ipall = preferable then get_list preferable as else a # get_list preferable as)"

fun address_text :: "address \<Rightarrow> string" where
  "address_text (Address_v4 a) = a"
| "address_text (Address_v6 a) = a"

fun is_v6 :: "address \<Rightarrow> bool" where
  "is_v6 (Address_v6 a) = True"
| "is_v6 (Address_v4 a) = False"

lemma nearest_loop_stops: "0 < lmt \<Longrightarrow> lmt < 2 ^ 63 \<Longrightarrow> length hosts < 2 ^ 63 \<Longrightarrow> nearest_loop hosts lmt 0 = []"
proof -
  assume l: "0 < lmt" "lmt < 2 ^ 63" "length hosts < 2 ^ 63"
  have "uint (word_of_int (- lmt) :: 64 word) = (- lmt) mod 2 ^ 64" by (subst uint_word_of_int) simp
  also have "\<dots> = 2 ^ 64 - lmt" using l by (simp add: zmod_zminus1_eq_if)
  finally have "unat (word_of_int (- lmt) :: 64 word) = nat (2 ^ 64 - lmt)" by (simp add: unat_eq_nat_uint)
  moreover have "int (length hosts) < 2 ^ 63" using l(3) by (metis of_nat_less_iff of_nat_numeral of_nat_power)
  ultimately have "length hosts \<le> unat (word_of_int (- lmt) :: 64 word)" using l(1,2) by simp
  then show ?thesis by (subst nearest_loop.simps) simp
qed

text \<open>The limit is not one: every limit from one on gives the first host and no other.\<close>

lemma nearest_host_is_one:
  "get_nearest_public_host r lmt = (if 0 < sint lmt then [hd (the (DNS_HOSTS_DB r))] else [])"
proof (cases "0 < sint lmt")
  case True
  have "sint lmt < 2 ^ 63" using sint_lt [of lmt] by simp
  then have "nearest_loop hosts (sint lmt - 1) 0 = []" if "length hosts < 2 ^ 63" for hosts
    using nearest_loop_stops [of "sint lmt - 1" hosts] that by (cases "sint lmt = 1") (auto simp: nearest_loop.simps)
  moreover have "lmt \<noteq> 0" using True by auto
  ultimately show ?thesis using True
    by (cases r) (simp_all add: get_nearest_public_host_def DNS_HOSTS_DB_def nearest_loop.simps [of _ "sint lmt"])
next
  case False
  then show ?thesis
    by (cases r) (simp_all add: get_nearest_public_host_def DNS_HOSTS_DB_def nearest_loop.simps [of _ "sint lmt"])
qed

text \<open>
  The list of addresses turns its preference around: with version 4 preferred, as by default, it is empty
  whatever the resolver gives, with version 6 preferred it has every address, and with both it has those of version 6
  only.\<close>
lemma preferred_addresses_left_out:
  "get_list Ipv4 as = [] \<and> get_list Ipv6 as = map address_text as \<and>
   get_list Ipall as = map address_text (filter is_v6 as)"
proof (induction as)
  case (Cons a as)
  then show ?case by (cases a) simp_all
qed simp

end
