(* ===== verification/Client_Connect.thy ===== *)
theory Client_Connect
  imports Prelude
begin

text \<open>
  How a client connects (src/network/transport/tcp_client_impl.cpp, unix_local_client_impl.cpp) with the timer of its
  connection (\<open>set_timeout\<close>, \<open>cancel_timeout\<close> of asio_connection_impl.h). All handlers run one after the other in the
  loop of the client; which of them is next, and what the system answered to it, is the input. A timer that has
  expired has a handler in the queue that cannot be cancelled any more.
\<close>

datatype connect_stage = K_start | K_resolving | K_connecting | K_over

datatype timer_state = No_timer | Armed | Expired | Timer_over

datatype told_event = Told_connected | Told_failed string

record connecting =
  kc_stage :: connect_stage
  kc_timer :: timer_state
  kc_socket :: bool
  kc_scope_stopped :: bool
  kc_cancelled :: bool
  kc_log :: "told_event list"
  kc_undefined :: bool

definition connecting_new :: connecting where
  "connecting_new =
     \<lparr>kc_stage = K_start, kc_timer = No_timer, kc_socket = True, kc_scope_stopped = False, kc_cancelled = False,
      kc_log = [], kc_undefined = False\<rparr>"

definition set_conn_timeout :: "int \<Rightarrow> connecting \<Rightarrow> connecting" where
  "set_conn_timeout ms k = (if ms > 0 then k\<lparr>kc_timer := Armed\<rparr> else k)"

definition cancel_conn_timeout :: "connecting \<Rightarrow> connecting" where
  "cancel_conn_timeout k = (if kc_timer k = Armed then k\<lparr>kc_timer := Timer_over\<rparr> else k)"

definition tell :: "told_event list \<Rightarrow> connecting \<Rightarrow> connecting" where
  "tell evs k = k\<lparr>kc_log := kc_log k @ evs, kc_stage := K_over\<rparr>"

text \<open>
  The handler of the start of the loop, which may throw; a client of UNIX sockets (\<open>tcp\<close> is false) has nothing to
  resolve.
\<close>

definition connect_started :: "bool \<Rightarrow> int \<Rightarrow> string option \<Rightarrow> connecting \<Rightarrow> connecting" where
  "connect_started tcp timeout_ms err k =
     (case err of
        Some e \<Rightarrow> tell [Told_failed e] k
      | None \<Rightarrow> (set_conn_timeout timeout_ms k)\<lparr>kc_stage := (if tcp then K_resolving else K_connecting)\<rparr>)"

definition resolve_step :: "string option \<Rightarrow> connecting \<Rightarrow> connecting" where
  "resolve_step ec k =
     (if kc_scope_stopped k then k\<lparr>kc_stage := K_over\<rparr>
      else (case ec of None \<Rightarrow> k\<lparr>kc_stage := K_connecting\<rparr> | Some e \<Rightarrow> tell [Told_failed e] k))"

text \<open>What the callback of the connection throws, if anything, is told as a failure.\<close>

definition connect_step :: "string option \<Rightarrow> string option \<Rightarrow> connecting \<Rightarrow> connecting" where
  "connect_step callback_error ec k =
     (let k = cancel_conn_timeout k
      in if kc_scope_stopped k then k\<lparr>kc_stage := K_over\<rparr>
         else (case ec of
                 Some e \<Rightarrow> tell [Told_failed e] k
               | None \<Rightarrow>
                   tell (Told_connected # (case callback_error of None \<Rightarrow> [] | Some e \<Rightarrow> [Told_failed e])) k))"

text \<open>
  The handler of the timer cancels the operations of the socket, which a disconnection has taken out of the
  connection.
\<close>

definition timer_handler :: "connecting \<Rightarrow> connecting" where
  "timer_handler k =
     (let k = k\<lparr>kc_timer := Timer_over\<rparr>
      in if kc_socket k then k\<lparr>kc_cancelled := True\<rparr> else k\<lparr>kc_undefined := True\<rparr>)"

datatype connect_event =
    Loop_started "string option"
  | Resolved "string option"
  | Connected "string option" "string option"
  | Timer_expires
  | Timer_handled
  | User_disconnects

definition connect_do :: "bool \<Rightarrow> int \<Rightarrow> connect_event \<Rightarrow> connecting \<Rightarrow> connecting option" where
  "connect_do tcp timeout_ms ev k =
     (if kc_undefined k then None
      else
        (case ev of
           Loop_started err \<Rightarrow>
             if kc_stage k = K_start then Some (connect_started tcp timeout_ms err k) else None
         | Resolved ec \<Rightarrow> if kc_stage k = K_resolving then Some (resolve_step ec k) else None
         | Connected cb ec \<Rightarrow> if kc_stage k = K_connecting then Some (connect_step cb ec k) else None
         | Timer_expires \<Rightarrow> if kc_timer k = Armed then Some (k\<lparr>kc_timer := Expired\<rparr>) else None
         | Timer_handled \<Rightarrow> if kc_timer k = Expired then Some (timer_handler k) else None
         | User_disconnects \<Rightarrow>
             if Told_connected \<in> set (kc_log k) \<and> kc_socket k
             then Some (k\<lparr>kc_socket := False, kc_scope_stopped := True\<rparr>) else None))"

fun connect_run :: "bool \<Rightarrow> int \<Rightarrow> connect_event list \<Rightarrow> connecting \<Rightarrow> connecting option" where
  "connect_run tcp ms [] k = Some k"
| "connect_run tcp ms (ev # evs) k =
     (case connect_do tcp ms ev k of None \<Rightarrow> None | Some k' \<Rightarrow> connect_run tcp ms evs k')"

section \<open>The outcome is told once\<close>

definition outcome :: "told_event list \<Rightarrow> bool" where
  "outcome l \<longleftrightarrow> (\<exists>e. l = [Told_failed e]) \<or> l = [Told_connected] \<or> (\<exists>e. l = [Told_connected, Told_failed e])"

definition connecting_ok :: "connecting \<Rightarrow> bool" where
  "connecting_ok k \<longleftrightarrow>
     (if kc_stage k = K_over then outcome (kc_log k) else kc_log k = []) \<and>
     (kc_socket k \<or> kc_stage k = K_over) \<and> (kc_scope_stopped k \<longleftrightarrow> \<not> kc_socket k) \<and>
     (kc_stage k = K_start \<longrightarrow> kc_timer k = No_timer)"

lemma connect_do_ok: "connecting_ok k \<Longrightarrow> connect_do tcp ms ev k = Some k' \<Longrightarrow> connecting_ok k'"
  by (cases ev)
    (auto simp: connect_do_def connecting_ok_def connect_started_def resolve_step_def connect_step_def timer_handler_def
      tell_def set_conn_timeout_def cancel_conn_timeout_def outcome_def Let_def split: if_splits option.splits)

lemma connect_run_ok: "connecting_ok k \<Longrightarrow> connect_run tcp ms evs k = Some k' \<Longrightarrow> connecting_ok k'"
  by (induction evs arbitrary: k) (auto split: option.splits intro: connect_do_ok)

lemma connecting_new_ok: "connecting_ok connecting_new"
  by (simp add: connecting_ok_def connecting_new_def)



text \<open>
  A timer that expires while the connection is being made is not stopped by it: its handler cancels the reading of the
  connected connection, or, when the user has disconnected by then, follows a null pointer.
\<close>

lemma late_timeout_undefined:
  "\<exists>k. connect_run tcp 5000 ([Loop_started None] @ (if tcp then [Resolved None] else []) @
       [Timer_expires, Connected None None, User_disconnects, Timer_handled]) connecting_new = Some k \<and> kc_undefined k"
  by (simp add: connect_do_def connecting_new_def connect_started_def set_conn_timeout_def resolve_step_def
      connect_step_def cancel_conn_timeout_def tell_def timer_handler_def)

lemma late_timeout_cancels:
  "\<exists>k. connect_run tcp 5000 ([Loop_started None] @ (if tcp then [Resolved None] else []) @
       [Timer_expires, Connected None None, Timer_handled]) connecting_new = Some k \<and>
     kc_log k = [Told_connected] \<and> kc_cancelled k"
  by (simp add: connect_do_def connecting_new_def connect_started_def set_conn_timeout_def resolve_step_def
      connect_step_def cancel_conn_timeout_def tell_def timer_handler_def)

text \<open>A failure to resolve leaves the timer armed.\<close>

lemma failed_resolve_keeps_timer:
  "connect_run True 5000 [Loop_started None, Resolved (Some e)] connecting_new =
   Some (connecting_new\<lparr>kc_stage := K_over, kc_timer := Armed, kc_log := [Told_failed e]\<rparr>)"
  by (simp add: connect_do_def connecting_new_def connect_started_def set_conn_timeout_def resolve_step_def tell_def)

end
