(* ===== verification/Emergency.thy ===== *)
theory Emergency
  imports Prelude
begin

text \<open>
  Dumps of the stack (src/emergency_helper.cpp). The file system is a map from paths to contents, with whether a path
  can be written as an argument; the text that \<open>boost::stacktrace\<close> makes of a raw dump, or that of its exception, is
  an argument too.
\<close>

type_synonym file_system = "string \<Rightarrow> string option"

text \<open>\<open>MAGIC_FOR_DUMP_FMT\<close> with the zero at its end, which is part of its size.\<close>

definition MAGIC_FOR_DUMP_FMT :: string where
  "MAGIC_FOR_DUMP_FMT = ''~stack trace:'' @ [NL, NL, char_of (0 :: nat)]"

definition test_file_for_write :: "(string \<Rightarrow> bool) \<Rightarrow> string \<Rightarrow> file_system \<Rightarrow> bool \<times> file_system" where
  "test_file_for_write writable p fs =
     (if fs p \<noteq> None then (False, fs) else if \<not> writable p then (False, fs) else (True, fs(p := None)))"

definition remove_file :: "bool \<Rightarrow> string \<Rightarrow> file_system \<Rightarrow> file_system" where
  "remove_file rm p fs = (if rm then fs(p := None) else fs)"

definition load_raw_stdump :: "(string \<Rightarrow> string) \<Rightarrow> string \<Rightarrow> bool \<Rightarrow> file_system \<Rightarrow> string \<times> file_system" where
  "load_raw_stdump show_dump p rm fs =
     (case fs p of
        None \<Rightarrow> ([], fs)
      | Some raw \<Rightarrow> (show_dump raw @ [NL], remove_file rm p fs))"

definition save_demangled_stdump ::
    "(string \<Rightarrow> string) \<Rightarrow> (string \<Rightarrow> bool) \<Rightarrow> string \<Rightarrow> string \<Rightarrow> file_system \<Rightarrow> bool \<times> file_system" where
  "save_demangled_stdump show_dump writable raw_path demangled_path fs =
     (if fs raw_path = None then (False, fs)
      else (let (demangled, fs) = load_raw_stdump show_dump raw_path False fs
            in if demangled = [] then (False, fs)
               else if \<not> writable demangled_path then (False, fs)
               else (True, fs(demangled_path \<mapsto> MAGIC_FOR_DUMP_FMT @ demangled))))"

text \<open>
  \<open>read\<close> of so many characters: what it brings, what is left, and whether the stream is still good; a stream that has
  failed brings nothing.
\<close>

definition read_chars :: "nat \<Rightarrow> string \<times> bool \<Rightarrow> string \<times> string \<times> bool" where
  "read_chars n st =
     (let (rest, good) = st
      in if \<not> good then ([], rest, False)
         else if length rest < n then (rest, [], False)
         else (take n rest, drop n rest, True))"

text \<open>The loop reads on as long as a read succeeds, and once more after the one that did not.\<close>

function load_loop :: "nat \<Rightarrow> string \<Rightarrow> bool \<Rightarrow> nat \<Rightarrow> string" where
  "load_loop n rest good bytes_read =
     (let (buff, rest', good') = read_chars n (rest, good)
      in if 0 < n \<and> (good' \<or> bytes_read > 0) then buff @ load_loop n rest' good' (length buff) else [])"
  by auto

termination
  by (relation "measures [\<lambda>(n, rest, good, b). length rest + (if good then 1 else 0), \<lambda>(n, rest, good, b). b]")
    (auto simp: read_chars_def split: if_splits)

declare load_loop.simps [simp del]

definition load_stdump :: "(string \<Rightarrow> string) \<Rightarrow> string \<Rightarrow> bool \<Rightarrow> file_system \<Rightarrow> string \<times> file_system" where
  "load_stdump show_dump p rm fs =
     (case fs p of
        None \<Rightarrow> ([], fs)
      | Some content \<Rightarrow>
          (let n = length MAGIC_FOR_DUMP_FMT; (buff, rest, good) = read_chars n (content, True)
           in if \<not> good then ([], fs)
              else if buff = MAGIC_FOR_DUMP_FMT then (load_loop n rest good (length buff), remove_file rm p fs)
              else (let (dump, fs) = load_raw_stdump show_dump p False fs in (dump, remove_file rm p fs))))"

definition create_dump_filename :: "string \<Rightarrow> string \<Rightarrow> string result" where
  "create_dump_filename executable_name extension =
     srv_assert (extension \<noteq> []) ''Extension required''
       (Inr ((if executable_name = [] then ''core'' else executable_name) @ ''.'' @ extension))"

section \<open>What is saved is loaded\<close>

lemma load_loop_all: "0 < n \<Longrightarrow> 0 < b \<Longrightarrow> load_loop n rest True b = rest"
proof (induction "length rest" arbitrary: rest b rule: less_induct)
  case less
  show ?case
  proof (cases "length rest < n")
    case True
    have "load_loop n [] False k = []" for k
      by (induction k rule: less_induct) (simp add: load_loop.simps [of n "[]" False] read_chars_def load_loop.simps [of n "[]" False 0])
    then show ?thesis using True less.prems by (simp add: load_loop.simps [of n rest True] read_chars_def)
  next
    case False
    then have "load_loop n (drop n rest) True n = drop n rest" using less.prems by (intro less.hyps) auto
    then show ?thesis using False less.prems
      by (simp add: load_loop.simps [of n rest True] read_chars_def min_absorb2 not_less)
  qed
qed

lemma magic_length: "length MAGIC_FOR_DUMP_FMT = 16"
  by (simp add: MAGIC_FOR_DUMP_FMT_def)

text \<open>
  A dump that was saved as text is loaded whole, whatever its length and whatever is in it; the file is kept or
  removed as asked, and all others are as they were.\<close>
lemma saved_dump_is_loaded:
  assumes "save_demangled_stdump show_dump writable raw_path p fs = (True, fs')"
  shows "load_stdump show_dump' p rm fs' =
    (fst (load_raw_stdump show_dump raw_path False fs), if rm then fs(p := None) else fs')"
proof -
  obtain raw where raw: "fs raw_path = Some raw" using assms by (auto simp: save_demangled_stdump_def split: if_splits)
  then have fs': "fs' = fs(p \<mapsto> MAGIC_FOR_DUMP_FMT @ show_dump raw @ [NL])"
    using assms by (auto simp: save_demangled_stdump_def load_raw_stdump_def remove_file_def split: if_splits)
  have r: "read_chars 16 (MAGIC_FOR_DUMP_FMT @ t, True) = (MAGIC_FOR_DUMP_FMT, t, True)" for t
    by (simp add: read_chars_def magic_length)
  show ?thesis
    using raw by (simp add: load_stdump_def fs' r load_loop_all magic_length load_raw_stdump_def remove_file_def Let_def)
qed

lemma saved_dump_is_loaded_witness:
  "\<exists>fs'. save_demangled_stdump (\<lambda>d. d) (\<lambda>p. True) ''raw'' ''text'' [''raw'' \<mapsto> ''0# main''] = (True, fs') \<and>
     fst (load_stdump (\<lambda>d. []) ''text'' True fs') = ''0# main'' @ [NL]"
proof -
  obtain fs' where s: "save_demangled_stdump (\<lambda>d. d) (\<lambda>p. True) ''raw'' ''text'' [''raw'' \<mapsto> ''0# main''] = (True, fs')"
    by (simp add: save_demangled_stdump_def load_raw_stdump_def)
  with saved_dump_is_loaded [OF s, of "\<lambda>d. []" True] show ?thesis by (auto simp: load_raw_stdump_def)
qed

text \<open>
  A raw dump that is shorter than the magic is not shown: \<open>load_stdump\<close> gives up before it looks at what the file is.
\<close>

lemma short_dump_not_loaded: "fs p = Some content \<Longrightarrow> length content < 16 \<Longrightarrow> load_stdump show_dump p rm fs = ([], fs)"
  by (simp add: load_stdump_def read_chars_def magic_length Let_def)

end
