(* ===== verification/Http_Serving.thy ===== *)
theory Http_Serving
  imports Http_Server
begin

text \<open>
  The life of one connection of the HTTP server (src/network/web/http_server_impl.h, https_server_impl.h): it is
  accepted, and then request after request is read, given to its handler, and answered when the handler and everybody
  it has given the response to have released it. The timer of the connection closes it. Handlers of asynchronous
  operations, the user's handler and the timer are events in any order; the reads are those of the theory of the
  session. In the secure server a handshake comes first.
\<close>

section \<open>The connection\<close>

text \<open>
  What the connection waits for: the acceptor, the handshake, a request, the user's handler, the release of the
  response after the handler has left, the end of the writing of a response, or that of the refusal of a request that
  is too large.
\<close>

datatype serving_stage =
  Sg_accepting | Sg_handshaking | Sg_reading | Sg_handling | Sg_held | Sg_sending | Sg_rejecting | Sg_over

record serving_config =
  vc_timeout_request :: int
  vc_timeout_content :: int
  vc_max_request_streambuf_size :: nat
  vc_secure :: bool

text \<open>
  The timer is armed or not; a timer that has expired has its handler in a queue. The lists are the handlers called,
  the responses written to their end, the requests refused, and what \<open>on_error\<close> was told, with the id of the request.
\<close>

record serving =
  sg_stage :: serving_stage
  sg_session :: http_session
  sg_next_request_id :: "64 word"
  sg_response :: http_response
  sg_timer :: bool
  sg_expired :: nat
  sg_open :: bool
  sg_running :: bool
  sg_calls :: "(64 word \<times> nat) list"
  sg_sent :: "(64 word \<times> string) list"
  sg_rejected :: "(64 word \<times> string) list"
  sg_errors :: "(64 word \<times> ecode) list"

definition serving_new :: "64 word \<Rightarrow> serving" where
  "serving_new next_id =
     \<lparr>sg_stage = Sg_accepting, sg_session = fst (http_session_new next_id), sg_next_request_id = next_id,
      sg_response = http_response_new, sg_timer = False, sg_expired = 0, sg_open = True, sg_running = True,
      sg_calls = [], sg_sent = [], sg_rejected = [], sg_errors = []\<rparr>"

definition http_set_timeout :: "int \<Rightarrow> serving \<Rightarrow> serving" where
  "http_set_timeout seconds g = g\<lparr>sg_timer := (seconds \<noteq> 0)\<rparr>"

definition http_cancel_timeout :: "serving \<Rightarrow> serving" where
  "http_cancel_timeout g = g\<lparr>sg_timer := False\<rparr>"

definition http_close :: "serving \<Rightarrow> serving" where
  "http_close g = g\<lparr>sg_open := False\<rparr>"

definition serving_over :: "serving \<Rightarrow> serving" where
  "serving_over g = g\<lparr>sg_stage := Sg_over\<rparr>"

definition on_error :: "ecode \<Rightarrow> serving \<Rightarrow> serving" where
  "on_error ec g = g\<lparr>sg_errors := sg_errors g @ [(hs_id (sg_session g), ec)]\<rparr>"

text \<open>A session takes its id from the counter of the server, which other connections count on as well.\<close>

definition new_session :: "serving \<Rightarrow> serving" where
  "new_session g =
     (let (s, next_id) = http_session_new (sg_next_request_id g)
      in g\<lparr>sg_session := s, sg_next_request_id := next_id\<rparr>)"

definition begin_read :: "serving_config \<Rightarrow> serving \<Rightarrow> serving" where
  "begin_read cfg g = http_set_timeout (vc_timeout_request cfg) (g\<lparr>sg_stage := Sg_reading\<rparr>)"

text \<open>
  Between its parts, the header, a known length of content, the sizes and the bytes of chunks, the reading of a request
  stops the timer and starts it again, for the content.
\<close>

definition read_continues :: "serving_config \<Rightarrow> serving \<Rightarrow> serving" where
  "read_continues cfg g =
     (if \<not> sg_running g then serving_over (http_cancel_timeout g)
      else http_set_timeout (vc_timeout_content cfg) (http_cancel_timeout g))"

section \<open>Accepting\<close>

text \<open>The handler of the acceptor, and whether it accepts the next connection.\<close>

definition accepts_next :: "ecode \<Rightarrow> serving \<Rightarrow> bool" where
  "accepts_next ec g = (sg_running g \<and> ec \<noteq> Ec_operation_aborted)"

definition http_accepted :: "serving_config \<Rightarrow> ecode \<Rightarrow> serving \<Rightarrow> serving" where
  "http_accepted cfg ec g =
     (if \<not> sg_running g then serving_over g
      else (let g = new_session g in if ec = Ec_none then begin_read cfg g else serving_over (on_error ec g)))"

definition https_accepted :: "serving_config \<Rightarrow> ecode \<Rightarrow> serving \<Rightarrow> serving" where
  "https_accepted cfg ec g =
     (if \<not> sg_running g then serving_over g
      else
        (let g = new_session g
         in if ec = Ec_none then http_set_timeout (vc_timeout_request cfg) (g\<lparr>sg_stage := Sg_handshaking\<rparr>)
            else serving_over (on_error ec g)))"

definition http_handshaken :: "serving_config \<Rightarrow> ecode \<Rightarrow> serving \<Rightarrow> serving" where
  "http_handshaken cfg ec g =
     (let g = http_cancel_timeout g
      in if \<not> sg_running g then serving_over g
         else if ec = Ec_none then begin_read cfg g
         else serving_over (on_error ec g))"

text \<open>The context of the secure server's sessions: the port and the reversed address, as long as the library allows.\<close>

definition session_id_context :: "nat \<Rightarrow> 16 word \<Rightarrow> string \<Rightarrow> string" where
  "session_id_context max_length port address = take max_length (to_dec (unat port) @ '':'' @ rev address)"

section \<open>From the request to the handler\<close>

text \<open>\<open>write\<close>: a new response, and the handler of the user.\<close>

definition call_handler :: "serving_config \<Rightarrow> nat \<Rightarrow> serving \<Rightarrow> serving" where
  "call_handler cfg h g =
     http_set_timeout (vc_timeout_content cfg)
       (g\<lparr>sg_stage := Sg_handling, sg_response := http_response_new,
          sg_calls := sg_calls g @ [(hs_id (sg_session g), h)]\<rparr>)"

text \<open>A request without a handler is dropped, and the connection with it; an upgrade hands the socket over.\<close>

definition route_request :: "serving_config \<Rightarrow> (string \<Rightarrow> string \<Rightarrow> bool) \<Rightarrow> resources \<Rightarrow> serving \<Rightarrow> serving" where
  "route_request cfg regex_match rs g =
     (case find_resource regex_match rs (hs_request (sg_session g)) of
        Route_match rx h \<Rightarrow> call_handler cfg h g
      | Route_default h \<Rightarrow> call_handler cfg h g
      | Route_upgrade \<Rightarrow> serving_over g
      | Route_none \<Rightarrow> serving_over g)"

text \<open>The refusal of a request that fills its buffer.\<close>

definition reject_request :: "serving_config \<Rightarrow> serving \<Rightarrow> serving" where
  "reject_request cfg g =
     on_error Ec_message_size
       (http_set_timeout (vc_timeout_content cfg)
          (g\<lparr>sg_stage := Sg_rejecting,
             sg_response := post_status client_error_payload_too_large [] http_response_new\<rparr>))"

text \<open>A read that ends; the parser of the header may not return, which is none.\<close>

definition read_ended ::
    "'n socket_ops \<Rightarrow> serving_config \<Rightarrow> (string \<Rightarrow> string \<Rightarrow> bool) \<Rightarrow> resources \<Rightarrow> 'n \<Rightarrow> serving \<Rightarrow> serving option" where
  "read_ended ops cfg regex_match rs n g =
     (if \<not> sg_running g then Some (serving_over (http_cancel_timeout g))
      else
        map_option (\<lambda>(r, s, n').
            let g = http_cancel_timeout (g\<lparr>sg_session := s\<rparr>)
            in case r of
                 Read_done \<Rightarrow> route_request cfg regex_match rs g
               | Read_cancelled \<Rightarrow> serving_over g
               | Read_failed ec \<Rightarrow> serving_over (on_error ec g)
               | Read_too_large \<Rightarrow> reject_request cfg g
               | Read_threw e \<Rightarrow> serving_over g)
          (server_read ops (vc_max_request_streambuf_size cfg) (sg_session g) n))"

section \<open>From the handler to the next request\<close>

text \<open>
  What the user does with a response, in the handler or after it. A stream is posted from its beginning to its end,
  which is the content here.
\<close>

datatype response_act =
    Post_status http_status_code multimap
  | Post_content http_status_code string multimap
  | Post_stream http_status_code string multimap
  | Post_success string multimap
  | Post_header multimap
  | Close_after_response

definition respond :: "response_act \<Rightarrow> http_response \<Rightarrow> http_response" where
  "respond act r =
     (case act of
        Post_status code header \<Rightarrow> post_status code header r
      | Post_content code content header \<Rightarrow> post_content code content header r
      | Post_stream code content header \<Rightarrow> post_content code content header r
      | Post_success content header \<Rightarrow> post_content success_ok content header r
      | Post_header header \<Rightarrow> post_content success_ok [] header r
      | Close_after_response \<Rightarrow> close_connection_after_response r)"

definition handler_acts :: "response_act list \<Rightarrow> serving \<Rightarrow> serving" where
  "handler_acts acts g = g\<lparr>sg_response := fold respond acts (sg_response g)\<rparr>"

text \<open>The handler returns, or throws, which \<open>on_error\<close> is told as a cancellation.\<close>

definition handler_leaves :: "bool \<Rightarrow> serving \<Rightarrow> serving" where
  "handler_leaves throws g =
     (if throws then on_error Ec_operation_canceled (g\<lparr>sg_stage := Sg_held\<rparr>) else g\<lparr>sg_stage := Sg_held\<rparr>)"

text \<open>The last pointer to the response is released, and its deleter sends it.\<close>

definition response_released :: "serving_config \<Rightarrow> serving \<Rightarrow> serving" where
  "response_released cfg g = http_set_timeout (vc_timeout_content cfg) (g\<lparr>sg_stage := Sg_sending\<rparr>)"

definition response_written :: "serving_config \<Rightarrow> ecode \<Rightarrow> serving \<Rightarrow> serving" where
  "response_written cfg ec g =
     (let g = http_cancel_timeout
                (if ec = Ec_none then g\<lparr>sg_sent := sg_sent g @ [(hs_id (sg_session g), sr_out (sg_response g))]\<rparr> else g)
      in if \<not> sg_running g then serving_over g
         else
           (case on_response_sent ec (sr_close (sg_response g)) (hs_request (sg_session g)) of
              Next_request \<Rightarrow> begin_read cfg (new_session g)
            | Close_connection \<Rightarrow> serving_over g
            | After_send_error e \<Rightarrow> serving_over (on_error e g)))"

definition rejection_written :: "ecode \<Rightarrow> serving \<Rightarrow> serving" where
  "rejection_written ec g =
     serving_over
       (http_cancel_timeout
          (if ec = Ec_none
           then g\<lparr>sg_rejected := sg_rejected g @ [(hs_id (sg_session g), sr_out (sg_response g))]\<rparr> else g))"

section \<open>Events\<close>

datatype 'n serving_event =
    Accepted_with ecode
  | Handshake_done ecode
  | Read_continues
  | Request_arrives 'n
  | Handler_acts "response_act list"
  | Handler_leaves bool
  | Response_released
  | Written ecode
  | Conn_timer_expires
  | Conn_timer_handled
  | Other_connection
  | Server_stops

definition serving_do ::
    "'n socket_ops \<Rightarrow> serving_config \<Rightarrow> (string \<Rightarrow> string \<Rightarrow> bool) \<Rightarrow> resources \<Rightarrow> 'n serving_event \<Rightarrow> serving \<Rightarrow> serving option" where
  "serving_do ops cfg regex_match rs ev g =
     (case ev of
        Accepted_with ec \<Rightarrow>
          if sg_stage g = Sg_accepting
          then Some (if vc_secure cfg then https_accepted cfg ec g else http_accepted cfg ec g) else None
      | Handshake_done ec \<Rightarrow> if sg_stage g = Sg_handshaking then Some (http_handshaken cfg ec g) else None
      | Read_continues \<Rightarrow> if sg_stage g = Sg_reading then Some (read_continues cfg g) else None
      | Request_arrives n \<Rightarrow> if sg_stage g = Sg_reading then read_ended ops cfg regex_match rs n g else None
      | Handler_acts acts \<Rightarrow>
          if sg_stage g = Sg_handling \<or> sg_stage g = Sg_held then Some (handler_acts acts g) else None
      | Handler_leaves throws \<Rightarrow> if sg_stage g = Sg_handling then Some (handler_leaves throws g) else None
      | Response_released \<Rightarrow> if sg_stage g = Sg_held then Some (response_released cfg g) else None
      | Written ec \<Rightarrow>
          if sg_stage g = Sg_sending then Some (response_written cfg ec g)
          else if sg_stage g = Sg_rejecting then Some (rejection_written ec g) else None
      | Conn_timer_expires \<Rightarrow>
          if sg_timer g then Some (g\<lparr>sg_timer := False, sg_expired := sg_expired g + 1\<rparr>) else None
      | Conn_timer_handled \<Rightarrow>
          if 0 < sg_expired g then Some (http_close (g\<lparr>sg_expired := sg_expired g - 1\<rparr>)) else None
      | Other_connection \<Rightarrow> Some (g\<lparr>sg_next_request_id := sg_next_request_id g + 1\<rparr>)
      | Server_stops \<Rightarrow> Some (http_close (g\<lparr>sg_running := False\<rparr>)))"

fun serving_events ::
    "'n socket_ops \<Rightarrow> serving_config \<Rightarrow> (string \<Rightarrow> string \<Rightarrow> bool) \<Rightarrow> resources \<Rightarrow> 'n serving_event list \<Rightarrow> serving \<Rightarrow> serving option" where
  "serving_events ops cfg rm rs [] g = Some g"
| "serving_events ops cfg rm rs (ev # evs) g =
     (case serving_do ops cfg rm rs ev g of None \<Rightarrow> None | Some g' \<Rightarrow> serving_events ops cfg rm rs evs g')"

section \<open>Every request is answered before the next is read\<close>

text \<open>The requests whose handler was called and those whose response was written, by stage.\<close>

definition answers_ok :: "serving \<Rightarrow> bool" where
  "answers_ok g \<longleftrightarrow>
     (let called = map fst (sg_calls g); answered = map fst (sg_sent g)
      in if sg_stage g \<in> {Sg_handling, Sg_held, Sg_sending} then called = answered @ [hs_id (sg_session g)]
         else if sg_stage g = Sg_over then called = answered \<or> (\<exists>i. called = answered @ [i])
         else called = answered)"

text \<open>A connection that waits has a timer: armed, expired and about to be handled, or handled.\<close>

definition timer_ok :: "serving \<Rightarrow> bool" where
  "timer_ok g \<longleftrightarrow> (sg_stage g = Sg_accepting \<or> sg_stage g = Sg_over \<or> sg_timer g \<or> 0 < sg_expired g \<or> \<not> sg_open g)"

lemmas serving_steps = serving_over_def http_set_timeout_def http_cancel_timeout_def http_close_def on_error_def
  begin_read_def new_session_def call_handler_def

lemma answers_ok_stages:
  "answers_ok (serving_over g) \<longleftrightarrow> map fst (sg_calls g) = map fst (sg_sent g) \<or> (\<exists>i. map fst (sg_calls g) = map fst (sg_sent g) @ [i])"
  "answers_ok (on_error ec g) = answers_ok g" "answers_ok (http_set_timeout t g) = answers_ok g"
  "answers_ok (http_cancel_timeout g) = answers_ok g" "answers_ok (http_close g) = answers_ok g"
  "answers_ok g \<Longrightarrow> answers_ok (serving_over g)"
  "answers_ok (begin_read cfg g) \<longleftrightarrow> map fst (sg_calls g) = map fst (sg_sent g)"
  "answers_ok (call_handler cfg h g) \<longleftrightarrow> map fst (sg_calls g) = map fst (sg_sent g)"
  by (auto simp: answers_ok_def serving_steps Let_def split: if_splits)

lemma new_session_fields [simp]:
  "sg_calls (new_session g) = sg_calls g" "sg_sent (new_session g) = sg_sent g" "sg_stage (new_session g) = sg_stage g"
  "sg_timer (new_session g) = sg_timer g" "sg_expired (new_session g) = sg_expired g" "sg_open (new_session g) = sg_open g"
  "sg_running (new_session g) = sg_running g"
  by (simp_all add: new_session_def split: prod.split)

lemma serving_over_fields [simp]:
  "sg_calls (serving_over g) = sg_calls g" "sg_calls (on_error ec g) = sg_calls g" "sg_sent (on_error ec g) = sg_sent g"
  "sg_calls (http_cancel_timeout g) = sg_calls g" "sg_sent (http_cancel_timeout g) = sg_sent g"
  "sg_session (http_cancel_timeout g) = sg_session g" "sg_session (http_set_timeout t g) = sg_session g"
  "sg_running (http_cancel_timeout g) = sg_running g" "sg_calls (http_set_timeout t g) = sg_calls g"
  "sg_calls (begin_read cfg g) = sg_calls g" "sg_calls (http_close g) = sg_calls g"
  "sg_response (http_cancel_timeout g) = sg_response g"
  by (simp_all add: serving_steps)

lemma answers_ok_route: "map fst (sg_calls g) = map fst (sg_sent g) \<Longrightarrow> answers_ok (route_request cfg rm rs g)"
  by (simp add: route_request_def answers_ok_stages split: route.split)

lemma answers_ok_written:
  assumes "answers_ok g" "sg_stage g = Sg_sending"
  shows "answers_ok (response_written cfg ec g)"
proof -
  have c: "map fst (sg_calls g) = map fst (sg_sent g) @ [hs_id (sg_session g)]"
    using assms by (simp add: answers_ok_def Let_def)
  show ?thesis
  proof (cases "ec = Ec_none")
    case True
    then show ?thesis using c
      by (auto simp: response_written_def answers_ok_stages Let_def split: after_send.split)
  next
    case False
    then show ?thesis using c
      by (auto simp: response_written_def answers_ok_stages on_response_sent_def Let_def)
  qed
qed

lemma answers_ok_same:
  "sg_calls g' = sg_calls g \<Longrightarrow> sg_sent g' = sg_sent g \<Longrightarrow> sg_stage g' = sg_stage g \<Longrightarrow> sg_session g' = sg_session g \<Longrightarrow>
   answers_ok g' = answers_ok g"
  by (simp add: answers_ok_def)

lemma answers_ok_do:
  assumes ok: "answers_ok g" and ev: "serving_do ops cfg rm rs ev g = Some g'"
  shows "answers_ok g'"
proof (cases ev)
  case (Accepted_with ec)
  then have "map fst (sg_calls g) = map fst (sg_sent g)" and "g' = (if vc_secure cfg then https_accepted cfg ec g else http_accepted cfg ec g)"
    using ok ev by (auto simp: serving_do_def answers_ok_def Let_def split: if_splits)
  then show ?thesis
    by (auto simp: http_accepted_def https_accepted_def answers_ok_stages Let_def) (simp add: answers_ok_def)
next
  case (Handshake_done ec)
  then have "map fst (sg_calls g) = map fst (sg_sent g)" and "g' = http_handshaken cfg ec g"
    using ok ev by (auto simp: serving_do_def answers_ok_def Let_def split: if_splits)
  then show ?thesis by (auto simp: http_handshaken_def answers_ok_stages Let_def)
next
  case (Request_arrives n)
  then have c: "map fst (sg_calls g) = map fst (sg_sent g)" and r: "read_ended ops cfg rm rs n g = Some g'"
    using ok ev by (auto simp: serving_do_def answers_ok_def Let_def split: if_splits)
  show ?thesis
  proof (cases "sg_running g")
    case True
    then obtain r s n' where "g' = (let g = http_cancel_timeout (g\<lparr>sg_session := s\<rparr>)
            in case r of
                 Read_done \<Rightarrow> route_request cfg rm rs g
               | Read_cancelled \<Rightarrow> serving_over g
               | Read_failed ec \<Rightarrow> serving_over (on_error ec g)
               | Read_too_large \<Rightarrow> reject_request cfg g
               | Read_threw e \<Rightarrow> serving_over g)"
      using \<open>read_ended ops cfg rm rs n g = Some g'\<close> by (auto simp: read_ended_def)
    then show ?thesis using c
      by (auto simp: answers_ok_stages answers_ok_route reject_request_def Let_def split: read_outcome.splits)
        (simp add: answers_ok_def)
  qed (use c r in \<open>auto simp: read_ended_def answers_ok_stages\<close>)
next
  case (Handler_acts acts)
  then show ?thesis using ok ev answers_ok_same [of g' g] by (auto simp: serving_do_def handler_acts_def split: if_splits)
next
  case (Handler_leaves throws)
  then show ?thesis using ok ev by (auto simp: serving_do_def handler_leaves_def answers_ok_stages answers_ok_def Let_def on_error_def split: if_splits)
next
  case Response_released
  then show ?thesis using ok ev
    by (auto simp: serving_do_def response_released_def answers_ok_stages split: if_splits) (simp add: answers_ok_def Let_def)
next
  case (Written ec)
  then consider "sg_stage g = Sg_sending" "g' = response_written cfg ec g"
    | "sg_stage g = Sg_rejecting" "g' = rejection_written ec g"
    using ev by (auto simp: serving_do_def split: if_splits)
  then show ?thesis
  proof cases
    case 2
    then show ?thesis using ok by (auto simp: rejection_written_def answers_ok_stages) (auto simp: answers_ok_def Let_def)
  qed (use ok in \<open>simp add: answers_ok_written\<close>)
next
  case Read_continues
  then show ?thesis using ok ev by (auto simp: serving_do_def read_continues_def answers_ok_stages(2-6) split: if_splits)
qed (use ok ev answers_ok_same [of g' g] in \<open>auto simp: serving_do_def http_close_def split: if_splits\<close>)

lemma answers_ok_events: "answers_ok g \<Longrightarrow> serving_events ops cfg rm rs evs g = Some g' \<Longrightarrow> answers_ok g'"
  by (induction evs arbitrary: g) (auto split: option.splits dest: answers_ok_do)

lemma answers_ok_new: "answers_ok (serving_new i)"
  by (simp add: answers_ok_def serving_new_def)

text \<open>C19: On every connection the handlers' answers go out in the order of the requests, one for each: whatever arrives
  and expires, and whenever the responses are released, a response is written only for the last request whose handler
  was called, and the next request is read only when it was written.\<close>
theorem answers_follow_requests:
  assumes "serving_events ops cfg rm rs evs (serving_new i) = Some g"
  shows "(map fst (sg_calls g) = map fst (sg_sent g) \<or> (\<exists>j. map fst (sg_calls g) = map fst (sg_sent g) @ [j])) \<and>
    (sg_stage g = Sg_reading \<longrightarrow> map fst (sg_calls g) = map fst (sg_sent g))"
  using answers_ok_events [OF answers_ok_new assms] by (auto simp: answers_ok_def Let_def split: if_splits)

section \<open>No connection waits without a timer\<close>

definition timeouts_ok :: "serving_config \<Rightarrow> bool" where
  "timeouts_ok cfg \<longleftrightarrow> vc_timeout_request cfg \<noteq> 0 \<and> vc_timeout_content cfg \<noteq> 0"

lemma timer_ok_stages:
  "timer_ok (serving_over g)" "timer_ok (http_close g)" "timer_ok (on_error ec g) = timer_ok g"
  "timeouts_ok cfg \<Longrightarrow> timer_ok (begin_read cfg g)" "timeouts_ok cfg \<Longrightarrow> timer_ok (call_handler cfg h g)"
  "timeouts_ok cfg \<Longrightarrow> timer_ok (http_set_timeout (vc_timeout_request cfg) g)"
  "timeouts_ok cfg \<Longrightarrow> timer_ok (http_set_timeout (vc_timeout_content cfg) g)"
  by (simp_all add: timer_ok_def serving_steps timeouts_ok_def)

lemma timer_ok_do:
  assumes t: "timeouts_ok cfg" and ok: "timer_ok g" and ev: "serving_do ops cfg rm rs ev g = Some g'"
  shows "timer_ok g'"
proof (cases ev)
  case (Request_arrives n)
  have "timer_ok (route_request cfg rm rs h)" for h
    using t by (simp add: route_request_def timer_ok_stages split: route.split)
  moreover have "read_ended ops cfg rm rs n g = Some g'"
    using ev Request_arrives by (auto simp: serving_do_def split: if_splits)
  moreover have "timer_ok (case r of
                 Read_done \<Rightarrow> route_request cfg rm rs h
               | Read_cancelled \<Rightarrow> serving_over h
               | Read_failed ec \<Rightarrow> serving_over (on_error ec h)
               | Read_too_large \<Rightarrow> reject_request cfg h
               | Read_threw e \<Rightarrow> serving_over h)" for r h
    using t calculation(1) by (simp add: reject_request_def timer_ok_stages split: read_outcome.split)
  ultimately show ?thesis
    by (auto simp: read_ended_def timer_ok_stages Let_def split: if_splits)
next
  case (Written ec)
  then show ?thesis using t ev
    by (auto simp: serving_do_def response_written_def rejection_written_def timer_ok_stages Let_def
        split: if_splits after_send.splits)
qed (use t ok ev in \<open>auto simp: serving_do_def read_continues_def http_accepted_def https_accepted_def http_handshaken_def handler_leaves_def response_released_def
    timer_ok_stages Let_def split: if_splits\<close>,
   use ok in \<open>auto simp: timer_ok_def handler_acts_def\<close>)

lemma timer_ok_events:
  "timeouts_ok cfg \<Longrightarrow> timer_ok g \<Longrightarrow> serving_events ops cfg rm rs evs g = Some g' \<Longrightarrow> timer_ok g'"
  by (induction evs arbitrary: g) (auto split: option.splits dest: timer_ok_do)

text \<open>C20: A connection never waits for its peer or for a handler without a timer that will close it, or has closed it:
  with the timeouts that a configuration can have, a peer that stays silent cannot hold a connection for ever.\<close>
theorem waits_have_timers:
  assumes "timeouts_ok cfg" and "serving_events ops cfg rm rs evs (serving_new i) = Some g"
  shows "sg_stage g = Sg_accepting \<or> sg_stage g = Sg_over \<or> sg_timer g \<or> 0 < sg_expired g \<or> \<not> sg_open g"
  using timer_ok_events [OF assms(1) _ assms(2)] by (simp add: timer_ok_def serving_new_def)

section \<open>One request\<close>

text \<open>
  From a request that was read to its end to the next: the handler that the resources give it is called, and what it
  posts is written.
\<close>

definition reading :: "serving \<Rightarrow> bool" where
  "reading g \<longleftrightarrow> sg_stage g = Sg_reading \<and> sg_running g \<and>
     hs_content (sg_session g) = open_istream [] \<and> hs_request (sg_session g) = request_fields_new"

lemma request_answered:
  assumes "reading g"
    and "server_read ops (vc_max_request_streambuf_size cfg) (sg_session g) n = Some (Read_done, s, n')"
    and "find_resource rm rs (hs_request s) = Route_match rx h" and "hs_id s = hs_id (sg_session g)"
  shows "\<exists>g'. serving_events ops cfg rm rs
      [Request_arrives n, Handler_acts acts, Handler_leaves throws, Response_released, Written Ec_none] g = Some g' \<and>
    sg_calls g' = sg_calls g @ [(hs_id s, h)] \<and>
    sg_sent g' = sg_sent g @ [(hs_id s, sr_out (fold respond acts http_response_new))] \<and>
    (if on_response_sent Ec_none (sr_close (fold respond acts http_response_new)) (hs_request s) = Next_request
     then reading g' else sg_stage g' = Sg_over)"
  using assms
  by (auto simp: serving_do_def reading_def read_ended_def route_request_def serving_steps handler_acts_def
      handler_leaves_def response_released_def response_written_def http_session_new_def on_response_sent_def Let_def
      split: after_send.split)

text \<open>
  A handler that throws before it has posted anything leaves its peer without an answer, but the connection goes on to
  the next request of the peer.
\<close>

lemma throwing_handler_unanswered:
  assumes "reading g"
    and "server_read ops (vc_max_request_streambuf_size cfg) (sg_session g) n = Some (Read_done, s, n')"
    and "find_resource rm rs (hs_request s) = Route_match rx h" and "hs_id s = hs_id (sg_session g)"
    and "connection_decision (equal_range ''Connection'' (rf_header (hs_request s))) = Some True"
  shows "\<exists>g'. serving_events ops cfg rm rs
      [Request_arrives n, Handler_acts [], Handler_leaves True, Response_released, Written Ec_none] g = Some g' \<and>
    sg_sent g' = sg_sent g @ [(hs_id s, [])] \<and> reading g'"
  using request_answered [OF assms(1-4), of "[]" True] assms(5)
  by (auto simp: http_response_new_def on_response_sent_def)

text \<open>A request that no resource matches is not answered, and the connection is given up.\<close>

lemma unmatched_request_unanswered:
  assumes "reading g"
    and "server_read ops (vc_max_request_streambuf_size cfg) (sg_session g) n = Some (Read_done, s, n')"
    and "find_resource rm rs (hs_request s) = Route_none"
  shows "\<exists>g'. serving_do ops cfg rm rs (Request_arrives n) g = Some g' \<and> sg_stage g' = Sg_over \<and> sg_sent g' = sg_sent g \<and>
    sg_rejected g' = sg_rejected g \<and> sg_errors g' = sg_errors g"
  using assms by (simp add: serving_do_def reading_def read_ended_def route_request_def serving_steps Let_def)

text \<open>
  A timer that expires just before the operation it guards is not stopped by the end of the operation: its handler
  closes the connection in the middle of what comes next.
\<close>

lemma expired_timer_closes_later:
  assumes "reading g" "sg_timer g" "sg_expired g = 0" "sg_open g"
    and "server_read ops (vc_max_request_streambuf_size cfg) (sg_session g) n = Some (Read_done, s, n')"
    and "find_resource rm rs (hs_request s) = Route_match rx h"
  shows "\<exists>g'. serving_events ops cfg rm rs [Conn_timer_expires, Request_arrives n, Conn_timer_handled] g = Some g' \<and>
    sg_stage g' = Sg_handling \<and> \<not> sg_open g'"
  using assms by (simp add: serving_do_def reading_def read_ended_def route_request_def serving_steps Let_def)

section \<open>An example\<close>

definition example_serving :: serving_config where
  "example_serving =
     \<lparr>vc_timeout_request = 5, vc_timeout_content = 300, vc_max_request_streambuf_size = 1000, vc_secure = False\<rparr>"

lemma example_read:
  "\<exists>n'. server_read burst_ops 1000 (fst (http_session_new 1)) (request_head example_request @ ''hi'') =
      Some (Read_done, (fst (http_session_new 1))\<lparr>hs_request := example_request, hs_content := open_istream ''hi''\<rparr>, n') \<and>
    n' = []"
proof (rule content_length_read [OF burst_ops_law example_request_ok])
  show "mm_find ''Content-Length'' (rf_header example_request) = Some ''2''"
    by (simp add: example_request_def mm_find_def)
  show "stoul 10 ''2'' = Inr (word_of_nat (length ''hi''))"
    by (simp add: stoul_def strto_parts_def split_sign_def split_hex_prefix_def is_space_def digit_val_def
        nat_of_digits_def)
qed (simp_all add: http_session_new_def request_head_def example_request_def target_text_def
    header_text_def header_line_def)

definition example_events :: "string serving_event list" where
  "example_events =
     [Accepted_with Ec_none, Request_arrives (request_head example_request @ ''hi''),
      Handler_acts [Post_status success_ok []], Handler_leaves False, Response_released, Written Ec_none]"

lemma example_conversation:
  "\<exists>g. serving_events burst_ops example_serving (\<lambda>rx p. rx = p) example_resources example_events (serving_new 1) = Some g \<and>
   sg_calls g = [(1, 7)] \<and> map fst (sg_sent g) = [1] \<and> sg_stage g = Sg_reading \<and> sg_timer g"
proof -
  obtain n' where n': "server_read burst_ops 1000 (fst (http_session_new 1)) (request_head example_request @ ''hi'') =
      Some (Read_done, (fst (http_session_new 1))\<lparr>hs_request := example_request, hs_content := open_istream ''hi''\<rparr>, n')"
    using example_read by blast
  have f: "find_resource (\<lambda>rx p. rx = p) example_resources example_request = Route_match ''/a'' 7"
    by (simp add: find_resource_def example_resources_def example_request_def)
  have k: "on_response_sent Ec_none False example_request = Next_request"
    by (simp add: on_response_sent_def example_request_def equal_range_def case_insensitive_equal_def)
  have cl: "sr_close (post_status c h r) = sr_close r" for c h r
    by (simp add: post_status_def write_header_eq put_def)
  show ?thesis
    using n' f k
    by (simp add: serving_do_def serving_new_def http_accepted_def example_serving_def read_ended_def route_request_def
        serving_steps handler_acts_def handler_leaves_def response_released_def response_written_def respond_def
        http_session_new_def http_response_new_def example_events_def cl Let_def)
qed

theorem answers_follow_requests_witness:
  "\<exists>g. serving_events burst_ops example_serving (\<lambda>rx p. rx = p) example_resources example_events (serving_new 1) = Some g \<and>
     sg_stage g = Sg_reading \<and> map fst (sg_calls g) = [1] \<and> map fst (sg_calls g) = map fst (sg_sent g)"
proof -
  from example_conversation obtain g where
    g: "serving_events burst_ops example_serving (\<lambda>rx p. rx = p) example_resources example_events (serving_new 1) = Some g"
      "sg_calls g = [(1, 7)]" "sg_stage g = Sg_reading" by blast
  from answers_follow_requests [OF g(1)] g show ?thesis by (intro exI [of _ g]) simp
qed

theorem waits_have_timers_witness:
  "\<exists>g. timeouts_ok example_serving \<and>
     serving_events burst_ops example_serving (\<lambda>rx p. rx = p) example_resources example_events (serving_new 1) = Some g \<and>
     sg_stage g = Sg_reading \<and> (sg_timer g \<or> 0 < sg_expired g \<or> \<not> sg_open g)"
proof -
  from example_conversation obtain g where
    g: "serving_events burst_ops example_serving (\<lambda>rx p. rx = p) example_resources example_events (serving_new 1) = Some g"
      "sg_stage g = Sg_reading" by blast
  have t: "timeouts_ok example_serving" by (simp add: timeouts_ok_def example_serving_def)
  from waits_have_timers [OF t g(1)] g t show ?thesis by (intro exI [of _ g]) simp
qed

end
