(* ===== verification/Web_Exchange.thy ===== *)
theory Web_Exchange
  imports Http_Serving Web_Server Http_Client
begin

text \<open>
  What the web client, the HTTP server and the web server promise together: the lemmas that lead from the request that
  the client writes to the callback it reaches, and from what the callback posts to the response the client reads.
\<close>

section \<open>From the web client to the callback and back\<close>

text \<open>The fields of a request that the web client writes, as the server reads them.\<close>

definition sent_request :: "client_endpoint \<Rightarrow> string \<Rightarrow> string \<Rightarrow> string \<Rightarrow> string \<Rightarrow> multimap \<Rightarrow> request_fields" where
  "sent_request ep mtd p q content header =
     \<lparr>rf_method = mtd, rf_path = p, rf_query = q, rf_version = ''1.1'', rf_header = request_header_seen ep content header\<rparr>"

text \<open>What a request needs to survive its text: a method, a path and a query of one line without the separators.\<close>

definition web_request_ok :: "client_endpoint \<Rightarrow> string \<Rightarrow> string \<Rightarrow> string \<Rightarrow> multimap \<Rightarrow> bool" where
  "web_request_ok ep mtd p q header \<longleftrightarrow>
     CHR '' '' \<notin> set mtd \<and> NL \<notin> set mtd \<and> no_cr mtd \<and> target_ok p \<and> no_cr p \<and> target_ok q \<and> no_cr q \<and>
     plain_header header \<and> header_value_ok (host_value ep) \<and> no_cr (host_value ep)"

lemma sent_request_text:
  assumes "correct_path ep path = target_text p q"
  shows "client_request_text ep mtd path content header = request_head (sent_request ep mtd p q content header) @ content"
  using assms by (simp add: client_request_text_eq request_head_def sent_request_def)

lemma sent_request_ok:
  assumes "web_request_ok ep mtd p q header"
  shows "request_ok (sent_request ep mtd p q content header)"
proof -
  have h: "plain_header header" "header_value_ok (host_value ep)" "no_cr (host_value ep)"
    using assms by (simp_all add: web_request_ok_def)
  have "header_ok (request_header_seen ep content header)"
    using h by (intro request_header_ok) (simp_all add: plain_header_def)
  moreover have "\<forall>(k, v) \<in> set (request_header_seen ep content header). no_cr k \<and> no_cr v"
    using h to_dec_no_cr by (auto simp: request_header_seen_def plain_header_def content_length_field_def no_cr_def)
  ultimately show ?thesis using assms by (simp add: request_ok_def sent_request_def web_request_ok_def no_cr_def)
qed

text \<open>How the header frames the content.\<close>

lemma mm_find_entry:
  assumes "mm_find k m = Some v"
  shows "\<exists>k'. (k', v) \<in> set m \<and> case_insensitive_equal k' k"
proof -
  have f: "find P xs = Some x \<Longrightarrow> x \<in> set xs \<and> P x" for P xs and x :: "string \<times> string"
    by (induction xs) (auto split: if_splits)
  show ?thesis using assms f by (fastforce simp: mm_find_def)
qed

lemma case_insensitive_equal_lower: "case_insensitive_equal a b \<longleftrightarrow> map tolower a = map tolower b"
  by (auto simp: case_insensitive_equal_def list_all2_conv_all_nth list_eq_iff_nth_eq)

lemma lower_names:
  "case_insensitive_equal k ''Content-Length'' = case_insensitive_equal k ''content-length''"
  "case_insensitive_equal k ''Transfer-Encoding'' = case_insensitive_equal k ''transfer-encoding''"
  "\<not> case_insensitive_equal ''Host'' ''content-length''" "\<not> case_insensitive_equal ''Host'' ''transfer-encoding''"
  "case_insensitive_equal ''chunked'' ''chunked''"
proof -
  have "map tolower ''Content-Length'' = map tolower ''content-length''"
      "map tolower ''Transfer-Encoding'' = map tolower ''transfer-encoding''" by code_simp+
  then show "case_insensitive_equal k ''Content-Length'' = case_insensitive_equal k ''content-length''"
      "case_insensitive_equal k ''Transfer-Encoding'' = case_insensitive_equal k ''transfer-encoding''"
    by (simp_all only: case_insensitive_equal_lower)
qed (simp_all add: case_insensitive_equal_def)

definition unframed :: "multimap \<Rightarrow> bool" where
  "unframed m \<longleftrightarrow> \<not> has_content_length m \<and> \<not> is_chunked m"

lemma unframed_host: "plain_header header \<Longrightarrow> unframed ((''Host'', v) # header)" "plain_header header \<Longrightarrow> unframed header"
  by (auto simp: unframed_def plain_header_def has_content_length_def is_chunked_def lower_names)

lemma unframed_find:
  assumes "unframed m"
  shows "mm_find ''Content-Length'' m = None" "mm_find ''Transfer-Encoding'' m \<noteq> Some ''chunked''"
proof -
  show "mm_find ''Content-Length'' m = None"
  proof (cases "mm_find ''Content-Length'' m")
    case (Some c)
    from mm_find_entry [OF Some] show ?thesis using assms by (auto simp: unframed_def has_content_length_def lower_names)
  qed
  show "mm_find ''Transfer-Encoding'' m \<noteq> Some ''chunked''"
  proof
    assume "mm_find ''Transfer-Encoding'' m = Some ''chunked''"
    from mm_find_entry [OF this] show False
      using assms by (auto simp: unframed_def is_chunked_def lower_names)
  qed
qed

lemma plain_needs_length: "plain_header header \<Longrightarrow> needs_content_length content header = (content \<noteq> [])"
  using unframed_find [OF unframed_host(2)] by (auto simp: needs_content_length_def split: option.split)

text \<open>The server reads what the client has written, with or without content.\<close>

lemma sent_request_read:
  assumes "socket_law ops pending" and "web_request_ok ep mtd p q header"
    and "correct_path ep path = target_text p q"
    and "hs_content s = open_istream []" and "hs_request s = request_fields_new"
    and "pending n = client_request_text ep mtd path content header" and "length (pending n) < mx" and "mx < 2 ^ 64"
  shows "\<exists>n'. server_read ops mx s n =
      Some (Read_done, s\<lparr>hs_request := sent_request ep mtd p q content header, hs_content := open_istream content\<rparr>, n') \<and>
    pending n' = []"
proof -
  let ?f = "sent_request ep mtd p q content header"
  have f: "request_ok ?f" by (rule sent_request_ok [OF assms(2)])
  have plain: "plain_header header" using assms(2) by (simp add: web_request_ok_def)
  have written: "pending n = request_head ?f @ content" using assms(6) sent_request_text [OF assms(3)] by simp
  show ?thesis
  proof (cases "content = []")
    case True
    then have h: "rf_header ?f = (''Host'', host_value ep) # header"
      by (simp add: sent_request_def request_header_seen_def plain_needs_length [OF plain])
    have t: "pending n = request_head ?f" using written True by simp
    from plain_request_read [OF assms(1) f assms(4,5) t assms(7), unfolded h, OF unframed_find [OF unframed_host(1) [OF plain]]]
    show ?thesis unfolding True .
  next
    case False
    then have "rf_header ?f = ((''Host'', host_value ep) # header) @ content_length_field (length content)"
      by (simp add: sent_request_def request_header_seen_def plain_needs_length [OF plain])
    then have h: "mm_find ''Content-Length'' (rf_header ?f) = Some (to_dec (length content))"
      by (simp add: content_length_field_def mm_find_snoc del: append_Cons)
    have "length content < 2 ^ 64" using written assms(7,8) by simp
    then have "stoul 10 (to_dec (length content)) = Inr (word_of_nat (length content))"
      using stoul_to_dec [of "[]" "length content"] by simp
    from content_length_read [OF assms(1) f assms(4,5) written assms(7,8) h this] show ?thesis .
  qed
qed

text \<open>A dispatched request is given to the handler of its callback.\<close>

definition server_resources :: "web_resources \<Rightarrow> resources" where
  "server_resources r = \<lparr>rs_resource = wr_resource r, rs_default = [], rs_has_upgrade = False\<rparr>"

lemma dispatch_match:
  assumes "dispatch rm r f = Some cb"
  obtains rx h where "find_resource rm (server_resources r) f = Route_match rx h" "on_request_impl h r = Some cb"
  using assms by (auto simp: dispatch_def server_resources_def split: route.splits)

text \<open>The exchange: the request on its way to the callback, and the response on its way back.\<close>

lemma web_exchange:
  assumes regs: "on_requests rs web_handlers_new = Inr w" "set_request_handler regex_ok (wh_request_callbacks w) = Inr r"
    and cb: "expected_handlers rs (x, mtd) = Some cb" "rm x p"
      "\<forall>x'. string_less x' x \<longrightarrow> expected_handlers rs (x', mtd) \<noteq> None \<longrightarrow> \<not> rm x' p"
    and req: "web_request_ok ep mtd p q header" "correct_path ep path = target_text p q"
    and srv: "reading g" "socket_law ops pending" "pending n = client_request_text ep mtd path content header"
      "length (pending n) < vc_max_request_streambuf_size cfg" "vc_max_request_streambuf_size cfg < 2 ^ 64"
    and res: "plain_header header'" "socket_law ops' pending'" "mx < 2 ^ 64" "cs_content s = open_istream []"
  shows "\<exists>g' i h. serving_events ops cfg rm (server_resources r)
      [Request_arrives n, Handler_acts [Post_content code content' header'], Handler_leaves False, Response_released,
       Written Ec_none] g = Some g' \<and>
    sg_calls g' = sg_calls g @ [(i, h)] \<and> on_request_impl h r = Some cb \<and>
    map fst (sg_sent g') = map fst (sg_sent g) @ [i] \<and>
    (\<forall>m. pending' m = snd (last (sg_sent g')) \<longrightarrow> length (pending' m) < mx \<longrightarrow>
      (\<exists>s' pl m'. client_read ops' read_all mx s pool m = Some (Client_done (Callback Ec_none), s', pl, m') \<and>
         sf_status_code (cs_response s') = status_code_string code \<and> cs_content s' = open_istream content'))"
proof -
  let ?f = "sent_request ep mtd p q content header" and ?s = "sg_session g"
  let ?s' = "?s\<lparr>hs_request := ?f, hs_content := open_istream content\<rparr>"
  have f: "rf_method ?f = mtd" "rf_path ?f = p" by (simp_all add: sent_request_def)
  have "dispatch rm r ?f = Some cb"
    unfolding dispatch_expected [OF regs] f using cb by blast
  then obtain rx h where h: "find_resource rm (server_resources r) ?f = Route_match rx h" "on_request_impl h r = Some cb"
    by (rule dispatch_match)
  have fresh: "hs_content ?s = open_istream []" "hs_request ?s = request_fields_new"
    using srv(1) by (simp_all add: reading_def)
  obtain n' where rd: "server_read ops (vc_max_request_streambuf_size cfg) ?s n = Some (Read_done, ?s', n')"
    using sent_request_read [OF srv(2) req fresh srv(3-5)] by blast
  have h': "find_resource rm (server_resources r) (hs_request ?s') = Route_match rx h" using h(1) by simp
  obtain g' where g': "serving_events ops cfg rm (server_resources r)
      [Request_arrives n, Handler_acts [Post_content code content' header'], Handler_leaves False, Response_released,
       Written Ec_none] g = Some g'" "sg_calls g' = sg_calls g @ [(hs_id ?s, h)]"
      "sg_sent g' = sg_sent g @ [(hs_id ?s, sr_out (post_content code content' header' http_response_new))]"
    using request_answered [OF srv(1) rd h', where acts = "[Post_content code content' header']" and throws = False]
    by (auto simp: respond_def)
  have "\<exists>s' pl m'. client_read ops' read_all mx s pool m = Some (Client_done (Callback Ec_none), s', pl, m') \<and>
         sf_status_code (cs_response s') = status_code_string code \<and> cs_content s' = open_istream content'"
    if "pending' m = snd (last (sg_sent g'))" "length (pending' m) < mx" for m
    using response_read [OF res(2,1,4) _ that(2) res(3), of code content' read_all pool] that(1) by (auto simp: g'(3))
  with g' h(2) show ?thesis by auto
qed

end
