(* ===== verification/Web_Client_Host.thy ===== *)
theory Web_Client_Host
  imports Web_Client
begin

text \<open>
  Starting and stopping the web client (src/network/web/web_client.cpp, http_client_impl.h): the object that an
  application holds, and the implementations it makes and drops. The requests of an implementation are those of the
  theory of the web client.
\<close>

section \<open>The implementation\<close>

text \<open>Whether its pool was made and runs, its requests, and what the accepted ones write.\<close>

record client_impl =
  ci_workers :: bool
  ci_running :: bool
  ci_requests :: web_client
  ci_texts :: "(nat \<times> string) list"

definition client_impl_new :: client_impl where
  "client_impl_new = \<lparr>ci_workers = False, ci_running = False, ci_requests = web_client_new, ci_texts = []\<rparr>"

text \<open>
  \<open>http_client_base_impl::start\<close>, which answers whether the pool was started; \<open>pool_error\<close> says that its creation
  or its start threw.
\<close>

definition client_impl_start :: "bool \<Rightarrow> client_impl \<Rightarrow> bool \<times> client_impl" where
  "client_impl_start pool_error i =
     (if ci_running i then (False, i)
      else if pool_error then (False, i\<lparr>ci_workers := True\<rparr>)
      else (True, i\<lparr>ci_workers := True, ci_running := True\<rparr>))"

text \<open>\<open>stop\<close>, which \<open>web_client_impl\<close> refuses to a thread of the pool before it does anything.\<close>

definition client_impl_stop :: "bool \<Rightarrow> client_impl \<Rightarrow> client_impl result" where
  "client_impl_stop in_pool i =
     srv_assert (\<not> (ci_workers i \<and> ci_running i \<and> in_pool))
       ''Can't initiate thread stop in the same thread. It is the way to deadlock''
       (Inr (if ci_running i then i\<lparr>ci_requests := client_stop (ci_requests i), ci_running := False\<rparr> else i))"

text \<open>A request whose content is a stream: none is a stream that cannot be sought, whose length is then minus one.\<close>

definition client_stream_text :: "client_endpoint \<Rightarrow> string \<Rightarrow> string \<Rightarrow> string option \<Rightarrow> multimap \<Rightarrow> string" where
  "client_stream_text ep mtd path stream header =
     create_request_header ep mtd path header @
     (case stream of
        None \<Rightarrow> []
      | Some content \<Rightarrow>
          if needs_content_length content header then ''Content-Length: '' @ to_dec (length content) @ [CR, NL] else []) @
     [CR, NL] @ (case stream of None \<Rightarrow> [] | Some content \<Rightarrow> content)"

lemma client_stream_text_eq:
  "client_stream_text ep mtd path stream header =
   client_request_text ep mtd path (case stream of None \<Rightarrow> [] | Some content \<Rightarrow> content) header"
  by (simp add: client_stream_text_def client_request_text_def needs_content_length_def split: option.split)

section \<open>The client\<close>

datatype host_event =
    Host_started nat
  | Host_failed nat string
  | Host_error_logged srv_error

text \<open>\<open>ho_dropped\<close> remembers the implementations that were destroyed.\<close>

record client_host =
  ho_impl :: "client_impl option"
  ho_start :: "nat list"
  ho_fail :: "nat list"
  ho_log :: "host_event list"
  ho_dropped :: "client_impl list"

definition client_host_new :: client_host where
  "client_host_new = \<lparr>ho_impl = None, ho_start = [], ho_fail = [], ho_log = [], ho_dropped = []\<rparr>"

definition host_log :: "host_event list \<Rightarrow> client_host \<Rightarrow> client_host" where
  "host_log es h = h\<lparr>ho_log := ho_log h @ es\<rparr>"

definition host_is_running :: "client_host \<Rightarrow> bool" where
  "host_is_running h = (case ho_impl h of None \<Rightarrow> False | Some i \<Rightarrow> ci_running i)"

definition host_on_start :: "nat \<Rightarrow> client_host \<Rightarrow> client_host" where
  "host_on_start cb h = h\<lparr>ho_start := ho_start h @ [cb]\<rparr>"

definition host_on_fail :: "nat \<Rightarrow> client_host \<Rightarrow> client_host" where
  "host_on_fail cb h = h\<lparr>ho_fail := ho_fail h @ [cb]\<rparr>"

text \<open>The destructor of an implementation, called from outside of its pool.\<close>

definition drop_impl :: "client_host \<Rightarrow> client_host" where
  "drop_impl h =
     (case ho_impl h of
        None \<Rightarrow> h
      | Some i \<Rightarrow>
          h\<lparr>ho_impl := None,
            ho_dropped := ho_dropped h @ [case client_impl_stop False i of Inl e \<Rightarrow> i | Inr i' \<Rightarrow> i']\<rparr>)"

text \<open>\<open>start_impl\<close>, which catches whatever is thrown; unlike that of the server it does not ask whether it runs.\<close>

definition host_start :: "bool \<Rightarrow> bool \<Rightarrow> client_host \<Rightarrow> client_host" where
  "host_start valid pool_error h =
     (if \<not> valid then host_log [Host_error_logged (Logic_error ''config.valid()'')] h
      else
        (let (ok, i) = client_impl_start pool_error client_impl_new;
             h = (drop_impl h)\<lparr>ho_impl := Some i\<rparr>
         in if ok then h else host_log [Host_error_logged (Logic_error ''_impl->start'')] h))"

text \<open>The handler of the pool's start, with what the subscribers of the start throw, if anything.\<close>

definition host_pool_started :: "string option \<Rightarrow> client_host \<Rightarrow> client_host" where
  "host_pool_started callback_error h =
     (let h = host_log (map Host_started (ho_start h)) h
      in case callback_error of None \<Rightarrow> h | Some e \<Rightarrow> host_log (map (\<lambda>cb. Host_failed cb e) (ho_fail h)) h)"

text \<open>\<open>request\<close>: the exception, if any; a request that the implementation has refused is an exception as well.\<close>

definition host_request ::
    "client_endpoint \<Rightarrow> string \<Rightarrow> string \<Rightarrow> string \<Rightarrow> nat option \<Rightarrow> multimap \<Rightarrow> client_host \<Rightarrow> srv_error option \<times> client_host" where
  "host_request ep path mtd content callback header h =
     (case ho_impl h of
        None \<Rightarrow> (Some (Logic_error ''is_running()''), h)
      | Some i \<Rightarrow>
          if \<not> ci_running i then (Some (Logic_error ''is_running()''), h)
          else
            (let (ok, w) = web_request ep callback (ci_requests i);
                 i = i\<lparr>ci_requests := w\<rparr>
             in if ok
                then (None, h\<lparr>ho_impl := Some (i\<lparr>ci_texts := ci_texts i @
                        [(wc_next_request_id w, client_request_text ep mtd path content header)]\<rparr>)\<rparr>)
                else (Some (Logic_error ''_impl->request''), h\<lparr>ho_impl := Some i\<rparr>)))"

definition host_request_post ::
    "client_endpoint \<Rightarrow> string \<Rightarrow> string \<Rightarrow> nat option \<Rightarrow> multimap \<Rightarrow> client_host \<Rightarrow> srv_error option \<times> client_host" where
  "host_request_post ep path content callback header h =
     host_request ep path (method_to_string POST) content callback header h"

definition host_request_root ::
    "client_endpoint \<Rightarrow> string \<Rightarrow> nat option \<Rightarrow> multimap \<Rightarrow> client_host \<Rightarrow> srv_error option \<times> client_host" where
  "host_request_root ep content callback header h = host_request ep ''/'' (method_to_string POST) content callback header h"

text \<open>A wait for the stop never returns while the client runs, which is none.\<close>

definition host_wait :: "bool \<Rightarrow> client_host \<Rightarrow> bool option" where
  "host_wait wait_until_stop h =
     (if \<not> host_is_running h then Some False else if wait_until_stop then None else Some True)"

definition host_stop :: "bool \<Rightarrow> client_host \<Rightarrow> client_host result" where
  "host_stop in_pool h =
     (case ho_impl h of
        None \<Rightarrow> Inr h
      | Some i \<Rightarrow>
          if \<not> ci_running i then Inr h
          else map_sum id (\<lambda>i. h\<lparr>ho_impl := Some i\<rparr>) (client_impl_stop in_pool i))"

text \<open>Handlers of asynchronous operations of the implementation.\<close>

definition host_handlers :: "client_endpoint \<Rightarrow> client_event list \<Rightarrow> client_host \<Rightarrow> client_host option" where
  "host_handlers ep evs h =
     (case ho_impl h of
        None \<Rightarrow> None
      | Some i \<Rightarrow> map_option (\<lambda>w. h\<lparr>ho_impl := Some (i\<lparr>ci_requests := w\<rparr>)\<rparr>) (client_events ep evs (ci_requests i)))"

section \<open>Stopped implementations answer nothing\<close>

lemma stopped_do_answers:
  "\<not> wc_continues w \<Longrightarrow> client_do ep ev w = Some w' \<Longrightarrow> \<not> wc_continues w' \<and> wc_answers w' = wc_answers w"
  by (cases ev) (auto simp: client_do_def handler_ran_def lose_call_def client_stop_def split: option.splits)

lemma stopped_answers_nothing:
  "\<not> wc_continues w \<Longrightarrow> client_events ep evs w = Some w' \<Longrightarrow> wc_answers w' = wc_answers w"
proof (induction evs arbitrary: w)
  case (Cons ev evs)
  then obtain w1 where "client_do ep ev w = Some w1" "client_events ep evs w1 = Some w'"
    by (auto split: option.splits)
  with stopped_do_answers [of w ep ev w1] Cons show ?case by auto
qed simp

text \<open>
  A start of a client that runs gives up all its requests: the new implementation knows nothing of them, and whatever
  the handlers of the old one do, none of their callbacks is called.
\<close>

lemma restart_gives_up_requests:
  assumes "ho_impl h = Some i" "ci_running i"
  shows "host_is_running (host_start True False h) \<and> ho_log (host_start True False h) = ho_log h \<and>
    (\<exists>j. ho_dropped (host_start True False h) = ho_dropped h @ [j] \<and> wc_calls (ci_requests j) = wc_calls (ci_requests i) \<and>
      (\<forall>ep evs w. client_events ep evs (ci_requests j) = Some w \<longrightarrow> wc_answers w = wc_answers (ci_requests i)))"
proof -
  have d: "drop_impl h = h\<lparr>ho_impl := None, ho_dropped := ho_dropped h @
      [i\<lparr>ci_requests := client_stop (ci_requests i), ci_running := False\<rparr>]\<rparr>"
    using assms by (simp add: drop_impl_def client_impl_stop_def)
  have "wc_answers w = wc_answers (ci_requests i)" if "client_events ep evs (client_stop (ci_requests i)) = Some w" for ep evs w
    using stopped_answers_nothing [OF _ that] by (simp add: client_stop_def)
  then show ?thesis
    by (simp add: host_start_def d client_impl_start_def client_impl_new_def host_is_running_def client_stop_def)
qed

section \<open>At most one implementation runs\<close>

text \<open>
  What was dropped does not run; what runs has a pool, and its scope goes on; and the requests that were written have
  ids of their own, in the order in which they were made.
\<close>

definition impl_ok :: "client_impl \<Rightarrow> bool" where
  "impl_ok i \<longleftrightarrow>
     (ci_running i \<longrightarrow> ci_workers i \<and> wc_continues (ci_requests i)) \<and>
     sorted_wrt (<) (map fst (ci_texts i)) \<and> (\<forall>n \<in> set (map fst (ci_texts i)). n \<le> wc_next_request_id (ci_requests i))"

definition host_ok :: "client_host \<Rightarrow> bool" where
  "host_ok h \<longleftrightarrow> (\<forall>i \<in> set (ho_dropped h). \<not> ci_running i) \<and> (\<forall>i. ho_impl h = Some i \<longrightarrow> impl_ok i)"

datatype host_call =
    H_on_start nat
  | H_on_fail nat
  | H_start bool bool
  | H_started "string option"
  | H_request string string string "nat option" multimap
  | H_handler nat completion
  | H_stop bool

definition host_do :: "client_endpoint \<Rightarrow> host_call \<Rightarrow> client_host \<Rightarrow> client_host" where
  "host_do ep call h =
     (case call of
        H_on_start cb \<Rightarrow> host_on_start cb h
      | H_on_fail cb \<Rightarrow> host_on_fail cb h
      | H_start valid pool_error \<Rightarrow> host_start valid pool_error h
      | H_started err \<Rightarrow> if host_is_running h then host_pool_started err h else h
      | H_request path mtd content cb header \<Rightarrow> snd (host_request ep path mtd content cb header h)
      | H_handler i r \<Rightarrow> (case host_handlers ep [Handler_runs i r] h of None \<Rightarrow> h | Some h' \<Rightarrow> h')
      | H_stop in_pool \<Rightarrow> (case host_stop in_pool h of Inl e \<Rightarrow> h | Inr h' \<Rightarrow> h'))"

lemma handler_keeps:
  assumes "client_events ep [Handler_runs i r] w = Some w'"
  shows "wc_continues w' = wc_continues w \<and> wc_next_request_id w' = wc_next_request_id w"
  using assms
  by (auto simp: client_do_def handler_ran_def lose_call_def go_on_def finish_call_def on_response_impl_def connect_call_def
      Let_def split: option.splits if_splits call_pc.splits completion.splits client_outcome.splits prod.splits failed_read.splits)

lemma request_keeps:
  assumes "web_request ep cb w = (ok, w')"
  shows "wc_next_request_id w' = Suc (wc_next_request_id w) \<and> wc_continues w' = wc_continues w"
  using assms by (auto simp: web_request_def connect_call_def Let_def split: prod.splits if_splits)

lemma impl_ok_new: "impl_ok client_impl_new"
  by (simp add: impl_ok_def client_impl_new_def)

lemma impl_ok_start: "client_impl_start pool_error client_impl_new = (ok, i) \<Longrightarrow> impl_ok i"
  by (auto simp: impl_ok_def client_impl_start_def client_impl_new_def web_client_new_def split: if_splits)

lemma impl_ok_stop: "impl_ok i \<Longrightarrow> client_impl_stop in_pool i = Inr i' \<Longrightarrow> impl_ok i' \<and> \<not> ci_running i'"
  by (fastforce simp: impl_ok_def client_impl_stop_def client_stop_def split: if_splits)

lemma drop_impl_ok: "host_ok h \<Longrightarrow> host_ok (drop_impl h)"
  by (auto simp: host_ok_def drop_impl_def client_impl_stop_def split: option.split)

lemma host_request_ok:
  assumes "host_ok h"
  shows "host_ok (snd (host_request ep path mtd content cb header h))"
proof (cases "ho_impl h")
  case (Some i)
  obtain ok w where w: "web_request ep cb (ci_requests i) = (ok, w)" by fastforce
  from request_keeps [OF w] Some assms show ?thesis
    by (auto simp: host_request_def host_ok_def impl_ok_def w sorted_wrt_append Let_def)
qed (use assms in \<open>simp add: host_request_def\<close>)

lemma host_start_ok:
  assumes "host_ok h"
  shows "host_ok (host_start valid pool_error h)"
proof -
  obtain ok i where s: "client_impl_start pool_error client_impl_new = (ok, i)" by fastforce
  from impl_ok_start [OF s] drop_impl_ok [OF assms] assms show ?thesis
    by (simp add: host_start_def s host_log_def host_ok_def Let_def)
qed

lemma host_handlers_ok:
  assumes "host_ok h" "host_handlers ep [Handler_runs i r] h = Some h'"
  shows "host_ok h'"
proof -
  obtain j w where j: "ho_impl h = Some j" "client_events ep [Handler_runs i r] (ci_requests j) = Some w"
      "h' = h\<lparr>ho_impl := Some (j\<lparr>ci_requests := w\<rparr>)\<rparr>"
    using assms(2) by (auto simp: host_handlers_def simp del: client_events.simps split: option.splits)
  from handler_keeps [OF j(2)] assms(1) j(1) show ?thesis by (simp add: j(3) host_ok_def impl_ok_def)
qed

lemma host_stop_ok:
  assumes "host_ok h" "host_stop in_pool h = Inr h'"
  shows "host_ok h'"
proof (cases "ho_impl h")
  case (Some i)
  show ?thesis
  proof (cases "ci_running i")
    case True
    then obtain i' where "client_impl_stop in_pool i = Inr i'" "h' = h\<lparr>ho_impl := Some i'\<rparr>"
      using assms(2) Some by (cases "client_impl_stop in_pool i") (auto simp: host_stop_def)
    with impl_ok_stop [of i in_pool i'] assms(1) Some show ?thesis by (simp add: host_ok_def)
  qed (use assms Some in \<open>simp add: host_stop_def\<close>)
qed (use assms in \<open>simp add: host_stop_def\<close>)

lemma host_told_ok:
  "host_ok h \<Longrightarrow> host_ok (host_on_start cb h)" "host_ok h \<Longrightarrow> host_ok (host_on_fail cb h)"
  "host_ok h \<Longrightarrow> host_ok (host_pool_started err h)"
  by (simp_all add: host_on_start_def host_on_fail_def host_pool_started_def host_log_def host_ok_def Let_def
      split: option.split)

lemma host_do_ok: "host_ok h \<Longrightarrow> host_ok (host_do ep call h)"
  by (cases call)
    (auto simp: host_do_def intro: host_told_ok host_start_ok host_request_ok host_handlers_ok host_stop_ok
      split: option.split sum.split)

text \<open>
  Whatever an application does with a client, at most one of the implementations that it has made runs, and no two
  requests of an implementation are written under the same id.
\<close>

lemma one_implementation_runs:
  assumes "h = fold (host_do ep) calls client_host_new"
  shows "(\<forall>i \<in> set (ho_dropped h). \<not> ci_running i) \<and>
    (\<forall>i. ho_impl h = Some i \<longrightarrow> distinct (map fst (ci_texts i)) \<and> (ci_running i \<longrightarrow> wc_continues (ci_requests i)))"
proof -
  have run: "host_ok (fold (host_do ep) calls h0)" if "host_ok h0" for h0
    using that by (induction calls arbitrary: h0) (simp_all add: host_do_ok)
  have "host_ok client_host_new" by (simp add: host_ok_def client_host_new_def)
  then have "host_ok h" unfolding assms by (rule run)
  moreover have "distinct (map fst (ci_texts i))" if "impl_ok i" for i
    using that by (simp only: impl_ok_def strict_sorted_iff)
  ultimately show ?thesis by (simp add: host_ok_def impl_ok_def)
qed

text \<open>A client that has been stopped from outside of its pool accepts no request until it is started again.\<close>

lemma stopped_client_refuses:
  assumes "host_stop False h = Inr h'"
  shows "fst (host_request ep path mtd content cb header h') = Some (Logic_error ''is_running()'')"
    "host_wait w h' = Some False" "host_is_running (host_start True False h')"
proof -
  have "\<not> host_is_running h'"
  proof (cases "ho_impl h")
    case (Some i)
    then show ?thesis
      using assms by (cases "ci_running i") (auto simp: host_stop_def client_impl_stop_def host_is_running_def)
  qed (use assms in \<open>auto simp: host_stop_def host_is_running_def\<close>)
  then show "fst (host_request ep path mtd content cb header h') = Some (Logic_error ''is_running()'')"
    "host_wait w h' = Some False"
    by (simp_all add: host_request_def host_wait_def host_is_running_def split: option.splits)
  show "host_is_running (host_start True False h')"
    by (simp add: host_start_def client_impl_start_def client_impl_new_def host_is_running_def)
qed

end
