(* ===== verification/Https_Client.thy ===== *)
theory Https_Client
  imports Http_Server Net_Config
begin

text \<open>
  The secure client (src/network/web/https_client_impl.h): the context of its connections, and how a session reaches
  the point where its request can be written: resolving, connecting, the tunnel through a proxy, and the handshake. The
  system, the proxy and the TLS library answer with the events of the handlers.
\<close>

section \<open>The context\<close>

text \<open>
  The certificate and key that are used, the host that the certificate of the server is compared with, the authorities
  (none stands for those of the system), and whether the server is verified at all.
\<close>

record 'b websec_client_config = "'b web_client_config" +
  wsc_verify_certificate :: bool
  wsc_cert_file :: string
  wsc_private_key_file :: string
  wsc_verify_file :: string

definition enable_verify_certificate :: "'b websec_client_config \<Rightarrow> 'b websec_client_config" where
  "enable_verify_certificate c = c\<lparr>wsc_verify_certificate := True\<rparr>"

definition set_client_cert_file :: "(string \<Rightarrow> bool) \<Rightarrow> string \<Rightarrow> 'b websec_client_config \<Rightarrow> 'b websec_client_config result" where
  "set_client_cert_file is_regular_file f c =
     srv_assert (f \<noteq> []) ''!cert_file.empty()'' (srv_assert (is_regular_file f) ''is_regular_file(cert_file)''
       (Inr (c\<lparr>wsc_cert_file := f\<rparr>)))"

definition set_client_private_key_file ::
    "(string \<Rightarrow> bool) \<Rightarrow> string \<Rightarrow> 'b websec_client_config \<Rightarrow> 'b websec_client_config result" where
  "set_client_private_key_file is_regular_file f c =
     srv_assert (f \<noteq> []) ''!private_key_file.empty()'' (srv_assert (is_regular_file f) ''is_regular_file(private_key_file)''
       (Inr (c\<lparr>wsc_private_key_file := f\<rparr>)))"

definition set_client_verify_file :: "(string \<Rightarrow> bool) \<Rightarrow> string \<Rightarrow> 'b websec_client_config \<Rightarrow> 'b websec_client_config result" where
  "set_client_verify_file is_regular_file f c =
     srv_assert (f \<noteq> []) ''!verify_file.empty()'' (srv_assert (is_regular_file f) ''is_regular_file(verify_file)''
       (Inr (c\<lparr>wsc_verify_file := f\<rparr>)))"

definition websec_client_config_new :: "64 word \<Rightarrow> 'b websec_client_config result" where
  "websec_client_config_new port =
     set_client_port (ucast port)
       \<lparr>bc_protocol = None, bc_worker_name = ''web-client'', bc_worker_threads = 1, sc_chunk_size = 4096, tc_port = 0,
        tc_host = ''localhost'', tc_timeout_connect_ms = 0, wcc_timeout_ms = 0, wcc_max_response_streambuf_size = - 1,
        wcc_proxy_server = [], wsc_verify_certificate = False, wsc_cert_file = [], wsc_private_key_file = [],
        wsc_verify_file = []\<rparr>"

record tls_context =
  tls_certificate :: "(string \<times> string) option"
  tls_host :: "string option"
  tls_authorities :: "string option"
  tls_verify_peer :: bool

definition client_context :: "string \<Rightarrow> 'b websec_client_config \<Rightarrow> tls_context" where
  "client_context host c =
     \<lparr>tls_certificate =
        (if wsc_cert_file c \<noteq> [] \<and> wsc_private_key_file c \<noteq> [] then Some (wsc_cert_file c, wsc_private_key_file c) else None),
      tls_host = (if wsc_verify_certificate c then Some host else None),
      tls_authorities = (if wsc_verify_file c \<noteq> [] then Some (wsc_verify_file c) else None),
      tls_verify_peer = (wsc_verify_file c \<noteq> [] \<or> wsc_verify_certificate c)\<rparr>"

text \<open>The context of the secure server, and whether its sessions have a context of their own.\<close>

definition server_context :: "'b websec_server_config \<Rightarrow> tls_context \<times> bool" where
  "server_context c =
     (\<lparr>tls_certificate = Some (wss_cert_file c, wss_private_key_file c), tls_host = None,
       tls_authorities = (if wss_verify_file c \<noteq> [] then Some (wss_verify_file c) else None),
       tls_verify_peer = (wss_verify_file c \<noteq> [])\<rparr>,
      wss_verify_file c \<noteq> [])"

section \<open>Connecting\<close>

datatype secure_stage =
  Ss_resolving | Ss_connecting | Ss_proxy_writing | Ss_proxy_reading | Ss_handshaking | Ss_writing | Ss_over

text \<open>
  \<open>sn_written\<close> is what the proxy was sent, \<open>sn_answer\<close> the status of its answer, \<open>sn_told\<close> what the callback of the
  session was called with. The timer is the seconds it was started with.
\<close>

record secure_session =
  sn_stage :: secure_stage
  sn_timer :: "int option"
  sn_running :: bool
  sn_written :: "string option"
  sn_answer :: "string option"
  sn_told :: "ecode list"

record secure_config =
  sf_endpoint :: client_endpoint
  sf_timeout :: int
  sf_timeout_connect :: int
  sf_max_response_streambuf_size :: nat

definition sec_set_timeout :: "secure_config \<Rightarrow> secure_session \<Rightarrow> secure_session" where
  "sec_set_timeout cfg s = s\<lparr>sn_timer := started_timer (sf_timeout cfg) (sf_timeout_connect cfg)\<rparr>"

definition sec_cancel_timeout :: "secure_session \<Rightarrow> secure_session" where
  "sec_cancel_timeout s = s\<lparr>sn_timer := None\<rparr>"

definition sec_callback :: "ecode \<Rightarrow> secure_session \<Rightarrow> secure_session" where
  "sec_callback ec s = s\<lparr>sn_stage := Ss_over, sn_told := sn_told s @ [ec]\<rparr>"

definition sec_over :: "secure_session \<Rightarrow> secure_session" where
  "sec_over s = s\<lparr>sn_stage := Ss_over\<rparr>"

text \<open>\<open>connect\<close>, on a connection whose socket is open or not.\<close>

definition secure_connect :: "bool \<Rightarrow> secure_session" where
  "secure_connect is_open =
     \<lparr>sn_stage = (if is_open then Ss_writing else Ss_resolving), sn_timer = None, sn_running = True, sn_written = None,
      sn_answer = None, sn_told = []\<rparr>"

definition handshake :: "secure_config \<Rightarrow> secure_session \<Rightarrow> secure_session" where
  "handshake cfg s = sec_set_timeout cfg (s\<lparr>sn_stage := Ss_handshaking\<rparr>)"

definition proxy_host_port :: "client_endpoint \<Rightarrow> string" where
  "proxy_host_port ep = ce_host ep @ '':'' @ to_dec (unat (ce_port ep))"

definition connect_text :: "client_endpoint \<Rightarrow> string" where
  "connect_text ep =
     ''CONNECT '' @ proxy_host_port ep @ '' HTTP/1.1'' @ [CR, NL] @ ''Host: '' @ proxy_host_port ep @ [CR, NL, CR, NL]"

definition sec_resolved :: "secure_config \<Rightarrow> ecode \<Rightarrow> secure_session \<Rightarrow> secure_session" where
  "sec_resolved cfg ec s =
     (if \<not> sn_running s then sec_over s
      else if ec = Ec_none then sec_set_timeout cfg (s\<lparr>sn_stage := Ss_connecting\<rparr>)
      else sec_callback ec s)"

definition sec_connected :: "secure_config \<Rightarrow> ecode \<Rightarrow> secure_session \<Rightarrow> secure_session" where
  "sec_connected cfg ec s =
     (let s = sec_cancel_timeout s
      in if \<not> sn_running s then sec_over s
         else if ec = Ec_none then
           (if ce_proxy_server (sf_endpoint cfg) \<noteq> []
            then sec_set_timeout cfg (s\<lparr>sn_stage := Ss_proxy_writing, sn_written := Some (connect_text (sf_endpoint cfg))\<rparr>)
            else handshake cfg s)
         else sec_callback ec s)"

definition sec_proxy_written :: "secure_config \<Rightarrow> ecode \<Rightarrow> secure_session \<Rightarrow> secure_session" where
  "sec_proxy_written cfg ec s =
     (let s = sec_cancel_timeout s
      in if \<not> sn_running s then sec_over s
         else if ec = Ec_none then sec_set_timeout cfg (s\<lparr>sn_stage := Ss_proxy_reading\<rparr>)
         else sec_callback ec s)"

text \<open>\<open>permission_denied\<close> is the error 13 of the system.\<close>

definition permission_denied :: ecode where
  "permission_denied = Ec_other 13"

text \<open>The answer of the proxy up to the end of its header; the parser of the header may not return, which is none.\<close>

definition sec_proxy_answered :: "secure_config \<Rightarrow> ecode \<Rightarrow> string \<Rightarrow> secure_session \<Rightarrow> secure_session option" where
  "sec_proxy_answered cfg ec streambuf s =
     (let s = sec_cancel_timeout s
      in if \<not> sn_running s then Some (sec_over s)
         else if (ec = Ec_none \<or> ec = Ec_not_found) \<and> length streambuf = sf_max_response_streambuf_size cfg
         then Some (sec_callback Ec_message_size s)
         else if ec \<noteq> Ec_none then Some (sec_callback ec s)
         else map_option (\<lambda>(ok, f, st).
                if \<not> ok then sec_callback Ec_protocol_error s
                else if sf_status_code f = [] \<or> take 3 (sf_status_code f) \<noteq> ''200'' then sec_callback permission_denied s
                else handshake cfg (s\<lparr>sn_answer := Some (sf_status_code f)\<rparr>))
              (response_parse (open_istream streambuf) \<lparr>sf_version = [], sf_status_code = [], sf_header = []\<rparr>))"

definition sec_handshaken :: "ecode \<Rightarrow> secure_session \<Rightarrow> secure_session" where
  "sec_handshaken ec s =
     (let s = sec_cancel_timeout s
      in if \<not> sn_running s then sec_over s
         else if ec = Ec_none then s\<lparr>sn_stage := Ss_writing\<rparr>
         else sec_callback ec s)"

datatype secure_event =
    Sec_resolved ecode
  | Sec_connected ecode
  | Sec_proxy_written ecode
  | Sec_proxy_answered ecode string
  | Sec_handshaken ecode
  | Sec_stopped

definition secure_do :: "secure_config \<Rightarrow> secure_event \<Rightarrow> secure_session \<Rightarrow> secure_session option" where
  "secure_do cfg ev s =
     (case ev of
        Sec_resolved ec \<Rightarrow> if sn_stage s = Ss_resolving then Some (sec_resolved cfg ec s) else None
      | Sec_connected ec \<Rightarrow> if sn_stage s = Ss_connecting then Some (sec_connected cfg ec s) else None
      | Sec_proxy_written ec \<Rightarrow> if sn_stage s = Ss_proxy_writing then Some (sec_proxy_written cfg ec s) else None
      | Sec_proxy_answered ec b \<Rightarrow> if sn_stage s = Ss_proxy_reading then sec_proxy_answered cfg ec b s else None
      | Sec_handshaken ec \<Rightarrow> if sn_stage s = Ss_handshaking then Some (sec_handshaken ec s) else None
      | Sec_stopped \<Rightarrow> Some (s\<lparr>sn_running := False\<rparr>))"

fun secure_events :: "secure_config \<Rightarrow> secure_event list \<Rightarrow> secure_session \<Rightarrow> secure_session option" where
  "secure_events cfg [] s = Some s"
| "secure_events cfg (ev # evs) s = (case secure_do cfg ev s of None \<Rightarrow> None | Some s' \<Rightarrow> secure_events cfg evs s')"

section \<open>The handshake waits for the tunnel\<close>

definition secure_ok :: "secure_config \<Rightarrow> secure_session \<Rightarrow> bool" where
  "secure_ok cfg s \<longleftrightarrow>
     (sn_stage s \<noteq> Ss_over \<longrightarrow> sn_told s = []) \<and> length (sn_told s) \<le> 1 \<and> Ec_none \<notin> set (sn_told s) \<and>
     (sn_stage s \<in> {Ss_proxy_writing, Ss_proxy_reading} \<longrightarrow> sn_written s = Some (connect_text (sf_endpoint cfg))) \<and>
     (sn_stage s \<in> {Ss_handshaking, Ss_writing} \<and> ce_proxy_server (sf_endpoint cfg) \<noteq> [] \<longrightarrow>
        sn_written s = Some (connect_text (sf_endpoint cfg)) \<and> (\<exists>st. sn_answer s = Some (''200'' @ st)))"

lemmas secure_steps = sec_resolved_def sec_connected_def sec_proxy_written_def sec_handshaken_def handshake_def
  sec_set_timeout_def sec_cancel_timeout_def sec_callback_def sec_over_def

lemma take_prefix: "take 3 s = ''200'' \<Longrightarrow> \<exists>st. s = ''200'' @ st"
  by (metis append_take_drop_id)

lemma secure_do_ok:
  assumes ok: "secure_ok cfg s" and ev: "secure_do cfg ev s = Some s'"
  shows "secure_ok cfg s'"
proof (cases ev)
  case (Sec_proxy_answered ec b)
  then have "sn_stage s = Ss_proxy_reading" "sec_proxy_answered cfg ec b s = Some s'"
    using ev by (auto simp: secure_do_def split: if_splits)
  then show ?thesis using ok
    by (auto simp: sec_proxy_answered_def secure_ok_def secure_steps permission_denied_def Let_def split: if_splits
        dest: take_prefix)
qed (use ok ev in \<open>auto simp: secure_do_def secure_ok_def secure_steps Let_def split: if_splits\<close>)

lemma secure_events_ok: "secure_ok cfg s \<Longrightarrow> secure_events cfg evs s = Some s' \<Longrightarrow> secure_ok cfg s'"
  by (induction evs arbitrary: s) (auto split: option.splits dest: secure_do_ok)


text \<open>The request for the tunnel is one that the parser of this library's server reads.\<close>

definition connect_request :: "client_endpoint \<Rightarrow> request_fields" where
  "connect_request ep =
     \<lparr>rf_method = ''CONNECT'', rf_path = proxy_host_port ep, rf_query = [], rf_version = ''1.1'',
      rf_header = [(''Host'', proxy_host_port ep)]\<rparr>"

lemma connect_text_parses:
  assumes "target_ok (ce_host ep)" "no_cr (ce_host ep)" "ce_host ep \<noteq> []"
  shows "request_parse (open_istream (connect_text ep)) request_fields_new = Some (True, connect_request ep, open_istream [])"
proof -
  have d: "\<forall>c \<in> set (to_dec n). is_digit c" for n using to_dec_digits [of n] by blast
  have "target_ok (to_dec n)" "no_cr (to_dec n)" for n
    using d [of n] by (auto simp: target_ok_def no_cr_def is_digit_def)
  then have t: "target_ok (proxy_host_port ep)" "no_cr (proxy_host_port ep)"
    using assms by (auto simp: proxy_host_port_def target_ok_def no_cr_def)
  moreover have "hd (ce_host ep) \<noteq> CHR '' ''" using assms by (metis hd_in_set target_ok_def)
  ultimately have "request_ok (connect_request ep)"
    using assms
    by (auto simp: request_ok_def connect_request_def no_cr_def target_ok_def header_ok_def header_name_ok_def
        header_value_ok_def proxy_host_port_def)
  from request_head_parse [OF this, of "[]"] show ?thesis
    by (simp add: request_head_def connect_text_def connect_request_def target_text_def header_text_def header_line_def)
qed

text \<open>No timer runs while the name of the host is resolved, whatever the timeouts are; the plain client starts one.\<close>

lemma resolving_without_timer: "sn_stage (secure_connect False) = Ss_resolving \<and> sn_timer (secure_connect False) = None"
  by (simp add: secure_connect_def)

text \<open>The configuration as it is made verifies no server.\<close>

lemma default_client_verifies_nobody:
  "websec_client_config_new 443 = Inr c \<Longrightarrow> \<not> tls_verify_peer (client_context host c)"
  by (auto simp: websec_client_config_new_def set_client_port_def client_context_def)

definition example_secure :: secure_config where
  "example_secure =
     \<lparr>sf_endpoint = \<lparr>ce_host = ''a.org'', ce_port = 443, ce_default_port = 443, ce_proxy_server = ''p:3128'', ce_plain = False\<rparr>,
      sf_timeout = 0, sf_timeout_connect = 5, sf_max_response_streambuf_size = 1000\<rparr>"


end
