(* ===== verification/Unix_Server.thy ===== *)
theory Unix_Server
  imports Prelude
begin

text \<open>
  The server of UNIX sockets (src/network/transport/unix_local_server_impl.cpp) and the file of its socket: starting,
  the handler of the pool's start that makes the acceptor, accepting, and stopping. Which process has bound a file is
  part of the state of the file system; the other processes bind and remove files of their own.
\<close>

section \<open>The server and the files\<close>

datatype file_owner = This_server | Other_process

datatype unix_event =
    Unix_started
  | Unix_connected nat
  | Unix_failed string

text \<open>The acceptor is none before the first start; afterwards it is there, open or closed.\<close>

record unix_server =
  ux_running :: bool
  ux_acceptor :: "bool option"
  ux_next :: nat
  ux_accepting :: "nat option"
  ux_log :: "unix_event list"

type_synonym socket_files = "string \<Rightarrow> file_owner option"

definition unix_server_new :: unix_server where
  "unix_server_new = \<lparr>ux_running = False, ux_acceptor = None, ux_next = 1, ux_accepting = None, ux_log = []\<rparr>"

definition unix_fail :: "string \<Rightarrow> unix_server \<Rightarrow> unix_server" where
  "unix_fail what s = s\<lparr>ux_log := ux_log s @ [Unix_failed what]\<rparr>"

text \<open>\<open>start\<close>: whether it succeeded; the handler of the pool's start is \<open>unix_listen\<close>.\<close>

definition unix_start :: "bool \<Rightarrow> unix_server \<Rightarrow> bool \<times> unix_server" where
  "unix_start valid s =
     (if ux_running s \<or> \<not> valid then (False, s) else (True, s\<lparr>ux_running := True, ux_accepting := None\<rparr>))"

definition unix_accept :: "unix_server \<Rightarrow> unix_server" where
  "unix_accept s = s\<lparr>ux_accepting := Some (ux_next s), ux_next := Suc (ux_next s)\<rparr>"

text \<open>
  The constructor of the acceptor binds the file, and throws when it is there; the old acceptor then stays. What the
  callback of the start throws is told as a failure, but the server accepts by then.
\<close>

definition unix_listen :: "string \<Rightarrow> string option \<Rightarrow> unix_server \<times> socket_files \<Rightarrow> unix_server \<times> socket_files" where
  "unix_listen p thrown sf =
     (let (s, fs) = sf
      in if fs p \<noteq> None then (unix_fail ''bind: Address already in use'' s, fs)
         else
           (let s = (unix_accept (s\<lparr>ux_acceptor := Some True\<rparr>))\<lparr>ux_log := ux_log s @ [Unix_started]\<rparr>
            in (case thrown of None \<Rightarrow> s | Some e \<Rightarrow> unix_fail e s, fs(p \<mapsto> This_server))))"

text \<open>The handler of the acceptor: no error, the end of the acceptor, or another error; and what the subscribers throw.\<close>

datatype accept_outcome = Ok_accepted "string option" | Ok_aborted | Not_accepted string

definition unix_accept_done :: "accept_outcome \<Rightarrow> unix_server \<Rightarrow> unix_server" where
  "unix_accept_done r s =
     (case ux_accepting s of
        None \<Rightarrow> s
      | Some i \<Rightarrow>
          (let s = (if r = Ok_aborted then s\<lparr>ux_accepting := None\<rparr> else unix_accept s)
           in case r of
                Ok_aborted \<Rightarrow> s
              | Not_accepted e \<Rightarrow> unix_fail e s
              | Ok_accepted err \<Rightarrow>
                  (let s = s\<lparr>ux_log := ux_log s @ [Unix_connected i]\<rparr>
                   in case err of None \<Rightarrow> s | Some e \<Rightarrow> unix_fail e s)))"

text \<open>
  \<open>stop\<close>: an acceptor, open or not, is closed, and the file is removed, whoever has bound it; then a thread of the pool
  is refused.
\<close>

definition unix_stop :: "bool \<Rightarrow> string \<Rightarrow> unix_server \<times> socket_files \<Rightarrow> srv_error option \<times> unix_server \<times> socket_files" where
  "unix_stop in_pool p sf =
     (let (s, fs) = sf
      in if \<not> ux_running s then (None, s, fs)
         else
           (let (s, fs) = (if ux_acceptor s \<noteq> None
                           then (s\<lparr>ux_acceptor := Some False, ux_accepting := None\<rparr>, fs(p := None)) else (s, fs))
            in if in_pool
               then (Some (Logic_error ''Can't initiate thread stop in the same thread. It is the way to deadlock''), s, fs)
               else (None, s\<lparr>ux_running := False, ux_accepting := None\<rparr>, fs)))"

datatype unix_input =
    Ux_start bool
  | Ux_listen "string option"
  | Ux_accept accept_outcome
  | Ux_stop bool
  | Other_binds string
  | Other_removes string

text \<open>The handler of the pool's start runs once after each start, which the environment sees to.\<close>

definition unix_step :: "string \<Rightarrow> unix_input \<Rightarrow> unix_server \<times> socket_files \<Rightarrow> unix_server \<times> socket_files" where
  "unix_step p inp sf =
     (let (s, fs) = sf
      in case inp of
           Ux_start valid \<Rightarrow> (snd (unix_start valid s), fs)
         | Ux_listen thrown \<Rightarrow> if ux_running s \<and> ux_acceptor s \<noteq> Some True then unix_listen p thrown (s, fs) else (s, fs)
         | Ux_accept r \<Rightarrow> (unix_accept_done r s, fs)
         | Ux_stop in_pool \<Rightarrow> snd (unix_stop in_pool p (s, fs))
         | Other_binds f \<Rightarrow> (s, if fs f = None then fs(f \<mapsto> Other_process) else fs)
         | Other_removes f \<Rightarrow> (s, if fs f = Some Other_process then fs(f := None) else fs))"

section \<open>The file follows the server\<close>

definition file_ok :: "string \<Rightarrow> unix_server \<times> socket_files \<Rightarrow> bool" where
  "file_ok p sf \<longleftrightarrow>
     (let (s, fs) = sf
      in fs p = (if ux_acceptor s = Some True then Some This_server else None) \<and>
         (ux_accepting s \<noteq> None \<longrightarrow> ux_running s \<and> ux_acceptor s = Some True) \<and>
         (ux_acceptor s = Some True \<longrightarrow> ux_running s))"

text \<open>Nobody else uses the path of the server.\<close>

fun keeps_off :: "string \<Rightarrow> unix_input \<Rightarrow> bool" where
  "keeps_off p (Other_binds f) = (f \<noteq> p)"
| "keeps_off p (Other_removes f) = (f \<noteq> p)"
| "keeps_off p _ = True"

lemmas unix_steps = unix_step_def unix_start_def unix_listen_def unix_accept_def unix_accept_done_def unix_stop_def
  unix_fail_def

lemma file_ok_step: "file_ok p sf \<Longrightarrow> keeps_off p inp \<Longrightarrow> file_ok p (unix_step p inp sf)"
  by (cases sf; cases inp)
    (auto simp: unix_steps file_ok_def Let_def split: if_splits option.splits accept_outcome.splits)

lemma file_ok_run: "file_ok p sf \<Longrightarrow> \<forall>inp \<in> set inps. keeps_off p inp \<Longrightarrow> file_ok p (fold (unix_step p) inps sf)"
proof (induction inps arbitrary: sf)
  case (Cons inp inps)
  then show ?case using file_ok_step [of p sf inp] by simp
qed simp



text \<open>
  A server whose second start fails, because another process has bound the file, removes the file of that process
  when it is stopped.
\<close>

lemma stop_removes_foreign_file:
  "let (s, fs) = fold (unix_step p) [Ux_start True, Ux_listen None, Ux_stop False, Other_binds p, Ux_start True, Ux_listen None]
         (unix_server_new, Map.empty)
   in fs p = Some Other_process \<and> snd (snd (unix_stop False p (s, fs))) p = None"
  by (simp add: unix_steps unix_server_new_def Let_def)

text \<open>A file that a crash has left keeps the server from listening; it runs and is deaf.\<close>

lemma stale_file_deafens:
  "fs p \<noteq> None \<Longrightarrow>
   fold (unix_step p) [Ux_start True, Ux_listen None] (unix_server_new, fs) =
   (unix_server_new\<lparr>ux_running := True, ux_log := [Unix_failed ''bind: Address already in use'']\<rparr>, fs)"
  by (simp add: unix_steps unix_server_new_def Let_def)

end
