(* ===== verification/Helpers.thy ===== *)
theory Helpers
  imports Application
begin

text \<open>
  The small parts around the components: the texts of containers (include/server_lib/logging_utils.h), the instance of
  a class (include/server_lib/singleton.h), the guard of the current directory (src/change_current_dir.cpp), the tests
  of files (src/fs_helper.cpp), the name of a socket file (src/network/server_config.cpp) and the initialisation of the
  application (src/application_impl.cpp). What the file system and the system answer are arguments.
\<close>

section \<open>Texts of containers\<close>

text \<open>The items are given as their texts, in the order of the container.\<close>

fun map_items :: "bool \<Rightarrow> (string \<times> string) list \<Rightarrow> string" where
  "map_items is_first [] = []"
| "map_items is_first ((k, v) # xs) = (if is_first then [] else '', '') @ k @ '': '' @ v @ map_items False xs"

definition map_to_string :: "(string \<times> string) list \<Rightarrow> string" where
  "map_to_string m = ''{'' @ map_items True m @ ''}''"

definition spaced_items :: "string list \<Rightarrow> string" where
  "spaced_items xs = concat (map (\<lambda>x. '' '' @ x) xs)"

definition set_to_string :: "string list \<Rightarrow> string" where
  "set_to_string xs = ''('' @ spaced_items xs @ '' )''"

definition vector_to_string :: "string list \<Rightarrow> string" where
  "vector_to_string xs = ''['' @ spaced_items xs @ '' ]''"

definition array_to_string :: "string list \<Rightarrow> string" where
  "array_to_string xs = ''['' @ spaced_items xs @ '' ]''"

definition QUOTE :: char where
  "QUOTE = char_of (34 :: nat)"

fun json_items :: "bool \<Rightarrow> string list \<Rightarrow> string" where
  "json_items is_first [] = []"
| "json_items is_first (x # xs) = (if is_first then [] else '','') @ QUOTE # x @ QUOTE # json_items False xs"

definition set_to_json :: "string list \<Rightarrow> string" where
  "set_to_json xs = ''['' @ json_items True xs @ '' ]''"

definition array_to_json :: "string list \<Rightarrow> string" where
  "array_to_json xs = ''['' @ json_items True xs @ '' ]''"

text \<open>Without quotes in the items the text says which they are; a quote is not escaped, and then it does not.\<close>

lemma json_items_inject:
  assumes "\<forall>x \<in> set xs \<union> set ys. QUOTE \<notin> set x" "json_items b xs @ '' ]'' = json_items b ys @ '' ]''"
  shows "xs = ys"
  using assms
proof (induction xs arbitrary: ys b)
  case Nil
  then show ?case by (cases ys) (auto simp: QUOTE_def split: if_splits)
next
  case (Cons x xs)
  then obtain y ys' where y: "ys = y # ys'" by (cases ys) (auto simp: QUOTE_def split: if_splits)
  have e: "x @ QUOTE # json_items False xs @ '' ]'' = y @ QUOTE # json_items False ys' @ '' ]''"
    using Cons.prems(2) y by simp
  have q: "QUOTE \<notin> set x" "QUOTE \<notin> set y" using Cons.prems(1) y by auto
  have "takeWhile (\<lambda>c. c \<noteq> QUOTE) (a @ QUOTE # r) = a" if "QUOTE \<notin> set a" for a r
    using that by (induction a) auto
  with q have "x = y" using arg_cong [OF e, of "takeWhile (\<lambda>c. c \<noteq> QUOTE)"] by simp
  moreover from this e have "json_items False xs @ '' ]'' = json_items False ys' @ '' ]''" by simp
  then have "xs = ys'" using Cons.prems(1) y by (intro Cons.IH) auto
  ultimately show ?case using y by simp
qed

lemma set_to_json_inject:
  "\<forall>x \<in> set xs \<union> set ys. QUOTE \<notin> set x \<Longrightarrow> set_to_json xs = set_to_json ys \<Longrightarrow> xs = ys"
  by (rule json_items_inject [of xs ys True]) (simp_all add: set_to_json_def)

lemma json_quotes_not_escaped:
  "set_to_json [[CHR ''a'', QUOTE, CHR '','', QUOTE, CHR ''b'']] = set_to_json [''a'', ''b'']"
  by (simp add: set_to_json_def)

section \<open>The instance of a class\<close>

text \<open>
  \<open>get_instance\<close> in single steps of its threads: the test, the construction with the assignment, and the return of
  what the pointer holds then. Instances are numbered as they are made.
\<close>

datatype getter_pc = G_test | G_create | G_return | G_got "nat option"

record singleton =
  sl_instance :: "nat option"
  sl_made :: nat
  sl_getters :: "getter_pc list"

definition singleton_new :: "nat \<Rightarrow> singleton" where
  "singleton_new n = \<lparr>sl_instance = None, sl_made = 0, sl_getters = replicate n G_test\<rparr>"

definition getter_step :: "nat \<Rightarrow> singleton \<Rightarrow> singleton" where
  "getter_step t s =
     (if t < length (sl_getters s) then
        (case sl_getters s ! t of
           G_test \<Rightarrow> s\<lparr>sl_getters := (sl_getters s)[t := (if sl_instance s = None then G_create else G_return)]\<rparr>
         | G_create \<Rightarrow>
             s\<lparr>sl_instance := Some (sl_made s), sl_made := Suc (sl_made s), sl_getters := (sl_getters s)[t := G_return]\<rparr>
         | G_return \<Rightarrow> s\<lparr>sl_getters := (sl_getters s)[t := G_got (sl_instance s)]\<rparr>
         | G_got i \<Rightarrow> s)
      else s)"

definition check_instance :: "singleton \<Rightarrow> bool" where
  "check_instance s = (sl_instance s \<noteq> None)"

definition destroy_instance :: "singleton \<Rightarrow> singleton" where
  "destroy_instance s = (if sl_instance s \<noteq> None then s\<lparr>sl_instance := None\<rparr> else s)"

text \<open>One after the other all threads get the first instance; two that overlap may make two, and each has its own.\<close>

lemma getters_one_by_one:
  "fold getter_step [0, 0, 0, 1, 1] (singleton_new 2) =
   \<lparr>sl_instance = Some 0, sl_made = 1, sl_getters = [G_got (Some 0), G_got (Some 0)]\<rparr>"
  by (simp add: getter_step_def singleton_new_def numeral_2_eq_2)

lemma getters_overlap:
  "fold getter_step [0, 1, 0, 0, 1, 1] (singleton_new 2) =
   \<lparr>sl_instance = Some 1, sl_made = 2, sl_getters = [G_got (Some 0), G_got (Some 1)]\<rparr>"
  by (simp add: getter_step_def singleton_new_def numeral_2_eq_2)

section \<open>The current directory and files\<close>

text \<open>The guard remembers the directory it leaves. Its destructor throws out of itself, which ends the program.\<close>

definition change_dir :: "(string \<Rightarrow> bool) \<Rightarrow> (string \<Rightarrow> bool) \<Rightarrow> string \<Rightarrow> string \<Rightarrow> (string \<times> string) result" where
  "change_dir is_dir may_enter dir current =
     srv_assert (is_dir dir) ''bfs::exists(dir) && bfs::is_directory(dir)''
       (if may_enter dir then Inr (current, dir) else Inl (Failure ''current_path''))"

definition restore_dir :: "(string \<Rightarrow> bool) \<Rightarrow> string \<Rightarrow> string result" where
  "restore_dir may_enter prev_dir = (if may_enter prev_dir then Inr prev_dir else Inl (Undefined ''throw from a destructor''))"

text \<open>Guards that are left in the reverse order lead back to where the first began.\<close>

fun nested_guards :: "(string \<Rightarrow> bool) \<Rightarrow> (string \<Rightarrow> bool) \<Rightarrow> string list \<Rightarrow> string \<Rightarrow> string result" where
  "nested_guards is_dir may_enter [] current = Inr current"
| "nested_guards is_dir may_enter (d # ds) current =
     rbind (change_dir is_dir may_enter d current)
       (\<lambda>(prev, here). rbind (nested_guards is_dir may_enter ds here) (\<lambda>_. restore_dir may_enter prev))"

lemma nested_guards_restore: "nested_guards is_dir may_enter ds current = Inr here \<Longrightarrow> here = current"
  by (cases ds) (auto simp: restore_dir_def change_dir_def split: if_splits)

datatype file_kind = No_file | Regular_file nat | Directory | Other_file

definition is_regular_file :: "(string \<Rightarrow> file_kind) \<Rightarrow> string \<Rightarrow> bool \<Rightarrow> bool" where
  "is_regular_file fs path not_empty =
     (case fs path of Regular_file bytes \<Rightarrow> \<not> not_empty \<or> bytes > 0 | _ \<Rightarrow> False)"

definition is_directory :: "(string \<Rightarrow> file_kind) \<Rightarrow> string \<Rightarrow> bool" where
  "is_directory fs path = (fs path = Directory)"

text \<open>\<open>preserve_socket_file\<close>, with the directory of the system for temporary files and a fresh name.\<close>

definition append_path :: "string \<Rightarrow> string \<Rightarrow> string" where
  "append_path folder name = folder @ (if folder \<noteq> [] \<and> last folder \<noteq> CHR ''/'' then ''/'' else []) @ name"

definition preserve_socket_file ::
    "(string \<Rightarrow> file_kind) \<Rightarrow> (string \<Rightarrow> bool) \<Rightarrow> string \<Rightarrow> string \<Rightarrow> string \<Rightarrow> string" where
  "preserve_socket_file fs accessible temp_directory unique folder_path =
     append_path
       (if folder_path \<noteq> [] then folder_path
        else if is_directory fs ''/dev/shm'' \<and> accessible ''/dev/shm'' then ''/dev/shm'' else temp_directory) unique"

section \<open>The initialisation of the application\<close>

text \<open>A core file that is in the way is renamed, when it is one.\<close>

datatype old_core = No_core | Unreadable_core | Core_of string

definition ELFMAG :: string where
  "ELFMAG = char_of (127 :: nat) # ''ELF''"

definition enable_corefile_files :: "bool \<Rightarrow> bool \<Rightarrow> old_core \<Rightarrow> bool" where
  "enable_corefile_files limit_raised disable_excl_policy core =
     (limit_raised \<and>
      (\<not> disable_excl_policy \<or>
       (case core of
          No_core \<Rightarrow> True
        | Unreadable_core \<Rightarrow> False
        | Core_of content \<Rightarrow> length content \<ge> 4 \<and> take 4 content = ELFMAG)))"

datatype installed = Daemon bool | Foreground bool bool

record initialised =
  in_loop_name :: string
  in_stdump_file :: string
  in_handlers :: installed

text \<open>\<open>init\<close>: with the threads that there are beside the first, whether it is called in the first, and its name.\<close>

definition app_init ::
    "nat \<Rightarrow> bool \<Rightarrow> string \<Rightarrow> nat \<Rightarrow> bool \<Rightarrow> old_core \<Rightarrow> app_config \<Rightarrow> initialised result" where
  "app_init other_threads in_main_thread executable_name path_max limit_raised core c =
     srv_assert (other_threads = 0) ''Application must be initiated in main thread before creation of any other thread to make signal handling safe in multithreaded environment''
       (srv_assert in_main_thread ''Only for main thread allowed''
         (srv_assert (\<not> ac_enable_corefile c \<or> enable_corefile_files limit_raised (ac_corefile_disable_excl_policy c) core)
            ''Incompatible with current corefile creation system''
            (Inr \<lparr>in_loop_name = (if executable_name = [] then ''MAIN'' else executable_name),
                  in_stdump_file = take (path_max - 1) (ac_path_to_stdump_file c),
                  in_handlers =
                    (if ac_daemon c then Daemon (ac_corefile_fail_thread_only c)
                     else Foreground (ac_corefile_fail_thread_only c) (ac_lock_io c))\<rparr>)))"

text \<open>A daemon is never given the lock of the input and output, which its configuration may ask for.\<close>

lemma daemon_ignores_lock_io:
  "app_init ts m nm pm lr core (lock_io (make_daemon c)) = Inr i \<Longrightarrow> \<exists>b. in_handlers i = Daemon b"
  by (auto simp: app_init_def lock_io_def make_daemon_def)

lemma init_needs_one_thread: "app_init ts m nm pm lr core c = Inr i \<Longrightarrow> ts = 0 \<and> m"
  by (auto simp: app_init_def)

end
