(* ===== verification/Spec2Isabelle.thy ===== *)
theory Spec2Isabelle
  imports Unit_Builder_Manager Http_Client Sync Main_Loop Event_Pool Wait_Async Net_Endpoints Version Options
    Log_Watchdog Logger Application Spawn Thread_Storage Web_Server Http_Connections Web_Client Net_Config
    Client_Connect Emergency Web_Exchange Web_Client_Host Https_Client Unix_Server Helpers
begin

text \<open>
  A verification development of barbacoa-server-lib, a C++ library for servers: event loops and
  timers, observers, stream connections that exchange logical units, an HTTP server and client, a
  logger, and what an application needs around them. The definitions are translated from the
  sources under src/ and include/server_lib/, operation by operation; the theorems state what the
  components promise each other and their users, and where the code breaks such a promise.

  \<^bold>\<open>The parts and how they interact.\<close>
  Bytes travel in a connection (\<open>connection.cpp\<close> over \<open>transport/asio_connection_impl.h\<close>). Each read
  is handed to the \<open>unit_builder_manager\<close>, which cuts it with the builder of the protocol
  (\<open>msg_builder\<close>, \<open>dstream_builder\<close>, \<open>raw_builder\<close>, ...) into units, and the units go to the
  observers of the connection; committed units are packed by the same builder into one write. The
  server and the client own connections and hear of their end through those observers. The HTTP
  server and client read their messages from a socket themselves, with the parsers of
  \<open>web_entities\<close> and \<open>http_utility\<close>. Everything asynchronous runs on the loops
  (\<open>base_queuered_loop\<close>, \<open>event_loop\<close>, \<open>event_pool\<close>), which post, count and announce; handlers are
  cancelled through \<open>scope_runner\<close>, results are awaited with \<open>wait_async_result\<close>.

  \<^bold>\<open>The theories, in the order of their imports.\<close>
  \<^item> Prelude: exceptions as values (\<open>result\<close>), bytes, searching and numbers in strings,
    \<open>std::getline\<close>; the collections \<open>guard_simps\<close>, \<open>str_simps\<close>, \<open>inv_intros\<close>.
  \<^item> Varint: \<open>integer_builder::pack\<close> and \<open>unpack\<close> on machine words. Net_Unit: the class \<open>unit\<close>.
  \<^item> Builder_Interface: what a client of \<open>unit_builder_i\<close> relies on, as locales: a protocol that
    consumes, one for which the cut of a stream does not matter, and one whose frames come back.
    Builders: every builder, with interpretations of the locales for each protocol.
    Unit_Builder_Manager: the buffer, the queue and the loop of the manager. Its properties rest on
    the locales: the manager returns, the cut into reads is irrelevant, packed units are
    delivered, the limit of a message is enforced; a stream with an empty delimiter diverges.
  \<^item> Web_Entities, Status_Codes, Http_Message, Http_Server, Http_Client: multimaps, percent coding, query strings,
    header fields, the two messages with their round trips between the peers, the sessions that read
    a request or a response by length or in chunks, the choice of a handler, keeping a connection
    alive, and the pool of connections of the client.
  \<^item> Web_Server, Http_Connections, Web_Client: the classes that applications use over them
    (\<open>web/web_server.cpp\<close>, \<open>web/web_client.cpp\<close>): registering handlers and which of them a request reaches,
    starting and stopping; the plain pointers to its connections that the HTTP server keeps beside their owners; the
    requests of a client on their way through its handlers, and a stop among them. Web_Client_Host: the object of the
    client, with the implementations that it makes, stops and drops.
  \<^item> Http_Serving, Web_Exchange, Https_Client: the life of a connection of the server, from accepting it through
    handshakes, requests, handlers and responses to its end, with its timer; what the client, the server and the web
    server promise together, which the theorem of this theory states; the contexts of secure connections, and the way of
    a secure client through a proxy to its handshake.
  \<^item> Sync: \<open>scope_runner\<close> and \<open>protected_mutex\<close> as relations whose steps are the single accesses
    to shared memory. Observers: \<open>observable\<close>, \<open>simple_observable\<close>, \<open>protected_observable\<close>, with a
    refinement of the abstract list of subscribers.
  \<^item> Event_Loop, Main_Loop, Event_Pool, Wait_Async: loops, timers, the pool and its start latch, and the awaiting of
    a result, as machines whose steps interleave threads and handlers.
  \<^item> Connection, Net_Endpoints: the connection, with the completions of its socket as inputs, and the
    server and client that own connections. Client_Connect: how a client resolves and connects, with the timer of it.
    Net_Config: the configurations with their setters, and the addresses of \<open>ifconfig\<close>. Unix_Server: the server
    of UNIX sockets and the file of its socket, among other processes.
  \<^item> Version, Options, Log_Watchdog, Logger: versions and their parser, the options of an application with the
    template of its configuration file, the removal of old log files, and the logger.
  \<^item> Application, Spawn, Thread_Storage: an application whose main loop and signal thread interleave with the
    callers of stop, child processes with their descriptors and the pool that polls them, and the buffers of
    threads, an interpretation of a store with keys. Emergency: the dumps of the stack that a crash leaves. Helpers:
    the texts of containers, the instance of a class, the guard of the current directory, the tests of files, and the
    initialisation of an application.

  \<^bold>\<open>How the code is rendered.\<close>
  A class is a record of its fields, an operation a function from the record to the new one, an
  exception or assertion the left of a sum, undefined behaviour of C++ an error of its own
  (\<open>Undefined\<close>), integers are machine words where they may wrap. A loop that may not end is a
  \<open>partial_function (option)\<close> (the manager, the header parser), and that it returns is proved
  under the contracts of the locales; every other loop is a total function with its measure, so no
  fuel is used anywhere. Concurrent code is a step relation or a function on explicit schedules.

  \<^bold>\<open>What the lemmas show.\<close>
  Per component: invariants that every operation keeps, the result of each branch, round trips of
  what is rendered and parsed, agreement of loops with a direct specification, and that stopping
  finishes. Several theorems prove a defect on the code as it is (a value read after its owner has
  gone, a start that is never announced, a foreign file that is removed); each is listed as a
  finding of the manifest.

  \<^bold>\<open>Parameters.\<close>
  Not under src/ and so arguments or inputs of the model: \<open>boost::asio\<close> (which handler runs next,
  the composed reads, with \<open>socket_law\<close> as what is relied on, what a completion brings), regular
  expressions, \<open>boost::posix_time\<close>, \<open>boost::filesystem\<close>, \<open>boost::program_options\<close>,
  \<open>boost::log\<close> and syslog, the operating system, the C library \<open>server_clib\<close> of signal handlers, and the callbacks
  of users.

  \<^bold>\<open>Not modelled.\<close>
  The bytes of TLS, which are the library's: a secure connection is its context, its events and, after the handshake,
  the same reads and writes as a plain one; the Windows sources; socket options and the answers of the resolver; single
  calls of the system (\<open>signal_helper.cpp\<close>, \<open>thread_sync_helpers.cpp\<close>) and the trace of the logger to the standard
  error; examples and tests. See the components of the manifest for what is left out of each part.
\<close>

section \<open>From the web client to the callback and back\<close>

text \<open>C1: The parts of the web together. When a callback is the first one that was registered for a pattern and a
  method, the path matches the pattern and no smaller registered one, then the request that a web client writes to a
  connection on which the server reads calls the handler of that callback, once; and what the callback posts is written
  to the connection as the answer to that request, from which the client reads the same status and content, whatever
  the cut into reads on both sides.\<close>
theorem web_request_answered:
  assumes "on_requests rs web_handlers_new = Inr w" "set_request_handler regex_ok (wh_request_callbacks w) = Inr r"
    and "expected_handlers rs (x, mtd) = Some cb" "rm x p"
      "\<forall>x'. string_less x' x \<longrightarrow> expected_handlers rs (x', mtd) \<noteq> None \<longrightarrow> \<not> rm x' p"
    and "web_request_ok ep mtd p q header" "correct_path ep path = target_text p q"
    and "reading g" "socket_law ops pending" "pending n = client_request_text ep mtd path content header"
      "length (pending n) < vc_max_request_streambuf_size cfg" "vc_max_request_streambuf_size cfg < 2 ^ 64"
    and "plain_header header'" "socket_law ops' pending'" "mx < 2 ^ 64" "cs_content s = open_istream []"
  shows "\<exists>g' i h. serving_events ops cfg rm (server_resources r)
      [Request_arrives n, Handler_acts [Post_content code content' header'], Handler_leaves False, Response_released,
       Written Ec_none] g = Some g' \<and>
    sg_calls g' = sg_calls g @ [(i, h)] \<and> on_request_impl h r = Some cb \<and>
    map fst (sg_sent g') = map fst (sg_sent g) @ [i] \<and>
    (\<forall>m. pending' m = snd (last (sg_sent g')) \<longrightarrow> length (pending' m) < mx \<longrightarrow>
      (\<exists>s' pl m'. client_read ops' read_some mx s pool m = Some (Client_done (Callback Ec_none), s', pl, m') \<and>
         sf_status_code (cs_response s') = status_code_string code \<and> cs_content s' = open_istream content'))"
  using assms by (rule web_exchange)

theorem web_request_answered_witness:
  "\<exists>w r g' i h. on_requests [(''/a'', ''POST'', Some 1)] web_handlers_new = Inr w \<and>
     set_request_handler (\<lambda>p. True) (wh_request_callbacks w) = Inr r \<and>
     serving_events burst_ops example_serving (\<lambda>rx p. rx = ''^'' @ p @ ''$'') (server_resources r)
       [Request_arrives (client_request_text example_endpoint ''POST'' ''/a'' ''hi'' []),
        Handler_acts [Post_content success_ok ''ok'' []], Handler_leaves False, Response_released, Written Ec_none]
       (http_accepted example_serving Ec_none (serving_new 1)) = Some g' \<and>
     sg_calls g' = [(i, h)] \<and> on_request_impl h r = Some 1 \<and> map fst (sg_sent g') = [i]"
proof -
  let ?rs = "[(''/a'', ''POST'', Some 1)]" and ?g = "http_accepted example_serving Ec_none (serving_new 1)"
  let ?rm = "\<lambda>rx p. rx = ''^'' @ p @ ''$''" and ?s = "\<lparr>cs_connection = 0, cs_content = open_istream [],
       cs_response = \<lparr>sf_version = [], sf_status_code = [], sf_header = []\<rparr>\<rparr>"
  obtain w r where w: "on_requests ?rs web_handlers_new = Inr w"
      "set_request_handler (\<lambda>p. True) (wh_request_callbacks w) = Inr r"
    by (simp add: on_request_def anchored_def Let_def web_handlers_new_def smap_at_def set_request_handler_def)
  have e: "expected_handlers ?rs = (\<lambda>k. None)((''^/a$'', ''POST'') \<mapsto> 1)"
    by (simp add: expected_handlers_def anchored_def Let_def register_def)
  have cb: "expected_handlers ?rs (''^/a$'', ''POST'') = Some 1" "?rm ''^/a$'' ''/a''"
    "\<forall>x'. string_less x' ''^/a$'' \<longrightarrow> expected_handlers ?rs (x', ''POST'') \<noteq> None \<longrightarrow> \<not> ?rm x' ''/a''"
    unfolding e by (auto dest: string_less_asym)
  have d: "length (to_dec 8080) = 4" "length (to_dec 2) = 1" by (simp_all add: to_dec.simps)
  have ph: "plain_header []" by (simp add: plain_header_def has_content_length_def is_chunked_def)
  have "header_value_ok (host_value example_endpoint)"
    using to_dec_header_value [of 8080] by (simp add: header_value_ok_def host_value_def example_endpoint_def)
  moreover have "no_cr (host_value example_endpoint)"
    using to_dec_no_cr [of 8080] by (simp add: no_cr_def host_value_def example_endpoint_def)
  ultimately have req: "web_request_ok example_endpoint ''POST'' ''/a'' [] []"
    using ph by (simp add: web_request_ok_def no_cr_def target_ok_def)
  have path: "correct_path example_endpoint ''/a'' = target_text ''/a'' []"
    by (simp add: correct_path_def example_endpoint_def target_text_def)
  have g: "reading ?g" "sg_calls ?g = []" "sg_sent ?g = []"
    by (simp_all add: reading_def http_accepted_def serving_new_def example_serving_def serving_steps http_session_new_def)
  have len: "length (client_request_text example_endpoint ''POST'' ''/a'' ''hi'' []) < vc_max_request_streambuf_size example_serving"
    unfolding sent_request_text [OF path]
    by (simp add: request_head_def sent_request_def request_header_seen_def header_text_def header_line_def target_text_def
        needs_content_length_def mm_find_def content_length_field_def host_value_def example_endpoint_def example_serving_def d
        numeral_2_eq_2 [symmetric])
  have big: "vc_max_request_streambuf_size example_serving < 2 ^ 64" "(1000 :: nat) < 2 ^ 64"
    by (simp_all add: example_serving_def)
  have co: "cs_content ?s = open_istream []" by simp
  note answered = web_request_answered [where rm = ?rm and pending = "\<lambda>n. n" and pending' = "\<lambda>n. n" and s = ?s
      and content' = "''ok''" and code = success_ok, OF w cb req path g(1) burst_ops_law HOL.refl len big(1) ph burst_ops_law big(2) co]
  from answered obtain g' i h where "serving_events burst_ops example_serving ?rm (server_resources r)
       [Request_arrives (client_request_text example_endpoint ''POST'' ''/a'' ''hi'' []),
        Handler_acts [Post_content success_ok ''ok'' []], Handler_leaves False, Response_released, Written Ec_none] ?g = Some g'"
      "sg_calls g' = sg_calls ?g @ [(i, h)]" "on_request_impl h r = Some 1" "map fst (sg_sent g') = map fst (sg_sent ?g) @ [i]"
    by blast
  with w g(2,3) show ?thesis by (intro exI [of _ w] exI [of _ r] exI [of _ g'] exI [of _ i] exI [of _ h]) simp
qed

end
